(* ===== verification/Prelude.thy ===== *)
theory Prelude
  imports Main "HOL-Library.AList" "HOL-Library.Word"
begin

text \<open>
  What every component shares: the machine integers of the code, hash maps and hash sets
  with their laws, and two generic interfaces (a keyed store, a machine that keeps an
  invariant) that the components interpret.

  A \<open>HashMap\<close> is an association list with distinct keys (\<open>hm_ok\<close>). Rust leaves
  the iteration order of a \<open>HashMap\<close> unspecified; here it is the order of the list, and the
  theorems hold for every list with distinct keys, so for every order.
\<close>

type_synonym u8 = "8 word"
type_synonym u16 = "16 word"
type_synonym u32 = "32 word"

text \<open>Bytes of a packet, a body or a message.\<close>

type_synonym bytes = "u8 list"

text \<open>
  \<open>std::time::Instant\<close>: nanoseconds on the monotonic clock. \<open>Instant::duration_since\<close>
  saturates at zero, which is the subtraction of \<open>nat\<close>.
\<close>

type_synonym instant = nat

definition from_secs :: "nat \<Rightarrow> nat" where
  "from_secs n = n * 1000000000"

definition duration_since :: "instant \<Rightarrow> instant \<Rightarrow> nat" where
  "duration_since now t = now - t"

named_theorems hm_simps \<open>laws of the hash map operations\<close>
named_theorems hm_oks \<open>the hash map operations keep the keys distinct\<close>

section \<open>Hash maps\<close>

type_synonym ('k, 'v) hmap = "('k \<times> 'v) list"

definition hm_get :: "('k, 'v) hmap \<Rightarrow> 'k \<Rightarrow> 'v option" where
  "hm_get m k = map_of m k"

definition hm_contains :: "('k, 'v) hmap \<Rightarrow> 'k \<Rightarrow> bool" where
  "hm_contains m k = (hm_get m k \<noteq> None)"

definition hm_insert :: "'k \<Rightarrow> 'v \<Rightarrow> ('k, 'v) hmap \<Rightarrow> ('k, 'v) hmap" where
  "hm_insert k v m = AList.update k v m"

definition hm_remove :: "'k \<Rightarrow> ('k, 'v) hmap \<Rightarrow> ('k, 'v) hmap" where
  "hm_remove k m = AList.delete k m"

definition hm_retain :: "('k \<Rightarrow> 'v \<Rightarrow> bool) \<Rightarrow> ('k, 'v) hmap \<Rightarrow> ('k, 'v) hmap" where
  "hm_retain p m = filter (\<lambda>(k, v). p k v) m"

text \<open>\<open>for v in map.values_mut() { .. }\<close>: every value replaced, the keys kept.\<close>

definition hm_map :: "('k \<Rightarrow> 'v \<Rightarrow> 'v) \<Rightarrow> ('k, 'v) hmap \<Rightarrow> ('k, 'v) hmap" where
  "hm_map f m = map (\<lambda>(k, v). (k, f k v)) m"

definition hm_keys :: "('k, 'v) hmap \<Rightarrow> 'k list" where
  "hm_keys m = map fst m"

definition hm_ok :: "('k, 'v) hmap \<Rightarrow> bool" where
  "hm_ok m = distinct (map fst m)"

lemma hm_get_Nil [simp]: "hm_get [] k = None"
  by (simp add: hm_get_def)

lemma hm_get_Cons: "hm_get ((a, b) # m) k = (if k = a then Some b else hm_get m k)"
  by (simp add: hm_get_def)

lemma hm_get_insert [hm_simps]:
  "hm_get (hm_insert k v m) k' = (if k' = k then Some v else hm_get m k')"
  by (simp add: hm_get_def hm_insert_def update_conv')

lemma hm_get_remove [hm_simps]:
  "hm_get (hm_remove k m) k' = (if k' = k then None else hm_get m k')"
  by (simp add: hm_get_def hm_remove_def delete_conv')

lemma hm_get_map [hm_simps]: "hm_get (hm_map f m) k = map_option (f k) (hm_get m k)"
  by (induction m) (auto simp: hm_get_def hm_map_def)

lemma hm_get_retain [hm_simps]:
  "hm_ok m \<Longrightarrow> hm_get (hm_retain p m) k =
     (case hm_get m k of None \<Rightarrow> None | Some v \<Rightarrow> if p k v then Some v else None)"
proof (induction m)
  case Nil
  then show ?case by (simp add: hm_retain_def hm_get_def)
next
  case (Cons kv m)
  obtain a b where kv: "kv = (a, b)" by force
  have fresh: "hm_get m a = None"
    using Cons.prems kv by (simp add: hm_ok_def hm_get_def map_of_eq_None_iff)
  have "hm_get (filter (\<lambda>(k, v). p k v) m) a = None"
    using fresh by (auto simp: hm_get_def map_of_eq_None_iff)
  with Cons fresh kv show ?case
    by (auto simp: hm_retain_def hm_ok_def hm_get_Cons)
qed

lemma hm_contains_iff: "hm_contains m k \<longleftrightarrow> (\<exists>v. hm_get m k = Some v)"
  by (auto simp: hm_contains_def)

lemma hm_get_mem: "hm_ok m \<Longrightarrow> hm_get m k = Some v \<longleftrightarrow> (k, v) \<in> set m"
  by (simp add: hm_ok_def hm_get_def)

lemma hm_get_in: "hm_get m k = Some v \<Longrightarrow> (k, v) \<in> set m"
  by (simp add: hm_get_def map_of_SomeD)

lemma hm_keys_iff: "k \<in> set (hm_keys m) \<longleftrightarrow> (\<exists>v. hm_get m k = Some v)"
  using map_of_eq_None_iff [of m k] by (auto simp: hm_keys_def hm_get_def)

lemma hm_ok_Nil [simp]: "hm_ok []"
  by (simp add: hm_ok_def)

lemma hm_ok_insert [hm_oks]: "hm_ok m \<Longrightarrow> hm_ok (hm_insert k v m)"
  by (simp add: hm_ok_def hm_insert_def distinct_update)

lemma hm_ok_remove [hm_oks]: "hm_ok m \<Longrightarrow> hm_ok (hm_remove k m)"
  by (simp add: hm_ok_def hm_remove_def distinct_delete)

lemma hm_ok_retain [hm_oks]: "hm_ok m \<Longrightarrow> hm_ok (hm_retain p m)"
  by (auto simp: hm_ok_def hm_retain_def intro: distinct_map_filter)

lemma hm_ok_map [hm_oks]: "hm_ok (hm_map f m) = hm_ok m"
proof -
  have "map fst (hm_map f m) = map fst m" by (auto simp: hm_map_def)
  then show ?thesis by (simp add: hm_ok_def)
qed

lemma length_hm_insert:
  "length (hm_insert k v m) = (if hm_contains m k then length m else Suc (length m))"
proof (induction m)
  case Nil
  then show ?case by (simp add: hm_insert_def hm_contains_def)
next
  case (Cons kv m)
  then show ?case by (cases kv) (auto simp: hm_insert_def hm_contains_def hm_get_def)
qed

lemma length_hm_retain: "length (hm_retain p m) \<le> length m"
  by (simp add: hm_retain_def)

lemma length_hm_remove_le: "length (hm_remove k m) \<le> length m"
  by (simp add: hm_remove_def length_delete_le)

lemma length_hm_remove_less: "hm_contains m k \<Longrightarrow> length (hm_remove k m) < length m"
proof (induction m)
  case Nil
  then show ?case by (simp add: hm_contains_def)
next
  case (Cons kv m)
  then show ?case
    by (cases kv) (auto simp: hm_contains_def hm_get_def hm_remove_def length_delete_le less_Suc_eq_le)
qed

lemma length_hm_map [simp]: "length (hm_map f m) = length m"
  by (simp add: hm_map_def)

lemma hm_set_retain: "(k, v) \<in> set (hm_retain p m) \<longleftrightarrow> (k, v) \<in> set m \<and> p k v"
  by (auto simp: hm_retain_def)

text \<open>A hash map read as the finite map it stands for; equal maps may differ in order.\<close>

definition hm_eq :: "('k, 'v) hmap \<Rightarrow> ('k, 'v) hmap \<Rightarrow> bool" where
  "hm_eq m m' \<longleftrightarrow> (\<forall>k. hm_get m k = hm_get m' k)"

section \<open>Hash sets\<close>

text \<open>A \<open>HashSet\<close> is a list without duplicates, its order the iteration order.\<close>

definition hs_insert :: "'a \<Rightarrow> 'a list \<Rightarrow> 'a list" where
  "hs_insert x xs = List.insert x xs"

definition hs_remove :: "'a \<Rightarrow> 'a list \<Rightarrow> 'a list" where
  "hs_remove x xs = removeAll x xs"

lemma set_hs_insert [simp]: "set (hs_insert x xs) = insert x (set xs)"
  by (simp add: hs_insert_def)

lemma set_hs_remove [simp]: "set (hs_remove x xs) = set xs - {x}"
  by (simp add: hs_remove_def)

lemma distinct_hs_insert [simp]: "distinct xs \<Longrightarrow> distinct (hs_insert x xs)"
  by (simp add: hs_insert_def)

lemma distinct_hs_remove [simp]: "distinct xs \<Longrightarrow> distinct (hs_remove x xs)"
  by (simp add: hs_remove_def distinct_removeAll)

section \<open>The interface of a keyed store\<close>

text \<open>
  What the components rely on when they keep state under a key: a look-up after an insert,
  a removal or a sweep, and a representation invariant every operation keeps.
\<close>

locale keyed_store =
  fixes get :: "'m \<Rightarrow> 'k \<Rightarrow> 'v option"
    and put :: "'k \<Rightarrow> 'v \<Rightarrow> 'm \<Rightarrow> 'm"
    and del :: "'k \<Rightarrow> 'm \<Rightarrow> 'm"
    and sweep :: "('k \<Rightarrow> 'v \<Rightarrow> bool) \<Rightarrow> 'm \<Rightarrow> 'm"
    and ok :: "'m \<Rightarrow> bool"
  assumes get_put: "get (put k v m) k' = (if k' = k then Some v else get m k')"
    and get_del: "get (del k m) k' = (if k' = k then None else get m k')"
    and get_sweep: "ok m \<Longrightarrow> get (sweep p m) k =
      (case get m k of None \<Rightarrow> None | Some v \<Rightarrow> if p k v then Some v else None)"
    and ok_put: "ok m \<Longrightarrow> ok (put k v m)"
    and ok_del: "ok m \<Longrightarrow> ok (del k m)"
    and ok_sweep: "ok m \<Longrightarrow> ok (sweep p m)"
begin

lemma del_all: "get (fold del ks m) k = (if k \<in> set ks then None else get m k)"
  by (induction ks arbitrary: m) (auto simp: get_del)

lemma ok_del_all: "ok m \<Longrightarrow> ok (fold del ks m)"
  by (induction ks arbitrary: m) (auto simp: ok_del)

lemma put_all_last:
  "get (fold (\<lambda>(k, v). put k v) kvs m) k =
     (case map_of (rev kvs) k of None \<Rightarrow> get m k | Some v \<Rightarrow> Some v)"
proof (induction kvs arbitrary: m)
  case Nil
  then show ?case by simp
next
  case (Cons kv kvs)
  obtain a b where "kv = (a, b)" by force
  with Cons show ?case
    by (auto simp: get_put map_add_def split: option.splits)
qed

lemma ok_put_all: "ok m \<Longrightarrow> ok (fold (\<lambda>(k, v). put k v) kvs m)"
  by (induction kvs arbitrary: m) (auto simp: ok_put)

lemma sweep_removed: "ok m \<Longrightarrow> get m k = Some v \<Longrightarrow> \<not> p k v \<Longrightarrow> get (sweep p m) k = None"
  by (simp add: get_sweep)

lemma sweep_kept: "ok m \<Longrightarrow> get (sweep p m) k = Some v \<longleftrightarrow> get m k = Some v \<and> p k v"
  by (auto simp: get_sweep split: option.splits if_splits)

end

interpretation hm: keyed_store hm_get hm_insert hm_remove hm_retain hm_ok
  by unfold_locales (simp_all add: hm_simps hm_oks)

section \<open>A machine that keeps an invariant\<close>

text \<open>
  Several components are a state with operations: the flow table, the DNS cache, the report
  queue, the tunnel set. Each proves once that one operation keeps its invariant; that every run
  keeps it, and that a fact about the first state is not lost, is proved here.
\<close>

locale invariant_machine =
  fixes step :: "'e \<Rightarrow> 's \<Rightarrow> 's"
    and inv :: "'s \<Rightarrow> bool"
  assumes inv_step: "inv s \<Longrightarrow> inv (step e s)"
begin

lemma inv_run: "inv s \<Longrightarrow> inv (fold step es s)"
  by (induction es arbitrary: s) (auto simp: inv_step)

lemma inv_prefix: "inv s \<Longrightarrow> inv (fold step (take n es) s)"
  by (rule inv_run)

end

text \<open>
  Extended by an abstract machine the detailed one implements: under the invariant one step
  commutes with the abstraction, so every run does.
\<close>

locale implementing_machine = invariant_machine step inv
  for step :: "'e \<Rightarrow> 's \<Rightarrow> 's" and inv :: "'s \<Rightarrow> bool" +
  fixes abs :: "'s \<Rightarrow> 'a"
    and astep :: "'e \<Rightarrow> 'a \<Rightarrow> 'a"
  assumes simulates: "inv s \<Longrightarrow> abs (step e s) = astep e (abs s)"
begin

lemma simulates_run: "inv s \<Longrightarrow> abs (fold step es s) = fold astep es (abs s)"
  by (induction es arbitrary: s) (auto simp: inv_step simulates)

end

end
