(* ===== verification/Std_Lib.thy ===== *)
theory Std_Lib
  imports Prelude "HOL-Library.Monad_Syntax"
begin

text \<open>
  The parts of the Rust standard library the code uses and the theorems depend on: addresses
  and their parsers (\<open>Ipv4Addr::from_str\<close>, \<open>IpAddr::from_str\<close>), decimal numbers,
  \<open>str::trim\<close>, big-endian words, and the formatting of numbers. Strings are the bytes of
  their UTF-8 encoding.
\<close>

section \<open>Addresses\<close>

text \<open>\<open>std::net::Ipv4Addr\<close>: four octets. \<open>Ipv6Addr\<close>: eight 16-bit groups.\<close>

datatype ipv4addr = Ipv4 (oct1: u8) (oct2: u8) (oct3: u8) (oct4: u8)

datatype ipaddr = V4 ipv4addr | V6 "u16 list"

definition octets :: "ipv4addr \<Rightarrow> u8 list" where
  "octets a = [oct1 a, oct2 a, oct3 a, oct4 a]"

text \<open>\<open>Ipv4Addr::from([u8; 4])\<close>, of a slice the caller has cut to four bytes.\<close>

fun ipv4_from_octets :: "u8 list \<Rightarrow> ipv4addr option" where
  "ipv4_from_octets [a, b, c, d] = Some (Ipv4 a b c d)"
| "ipv4_from_octets _ = None"

lemma length_octets [simp]: "length (octets a) = 4"
  by (simp add: octets_def)

lemma ipv4_from_octets_octets [simp]: "ipv4_from_octets (octets a) = Some a"
  by (simp add: octets_def)

lemma ipv4_from_octets_Some: "ipv4_from_octets bs = Some a \<Longrightarrow> bs = octets a"
  by (induction bs rule: ipv4_from_octets.induct) (auto simp: octets_def)

text \<open>The library's order on addresses: octet by octet.\<close>

instantiation ipv4addr :: linorder
begin

definition less_eq_ipv4addr :: "ipv4addr \<Rightarrow> ipv4addr \<Rightarrow> bool" where
  "less_eq_ipv4addr x y \<longleftrightarrow>
     oct1 x < oct1 y \<or> oct1 x = oct1 y \<and> (oct2 x < oct2 y \<or> oct2 x = oct2 y \<and>
       (oct3 x < oct3 y \<or> oct3 x = oct3 y \<and> oct4 x \<le> oct4 y))"

definition less_ipv4addr :: "ipv4addr \<Rightarrow> ipv4addr \<Rightarrow> bool" where
  "less_ipv4addr x y \<longleftrightarrow> x \<le> y \<and> \<not> y \<le> x"

instance
  by intro_classes (auto simp: less_eq_ipv4addr_def less_ipv4addr_def ipv4addr.expand)

end

section \<open>Big-endian words\<close>

definition from_be_bytes :: "u8 \<Rightarrow> u8 \<Rightarrow> u16" where
  "from_be_bytes hi lo = word_of_int (uint hi * 256 + uint lo)"

definition hi_byte :: "u16 \<Rightarrow> u8" where
  "hi_byte w = word_of_int (uint w div 256)"

definition lo_byte :: "u16 \<Rightarrow> u8" where
  "lo_byte w = word_of_int (uint w)"

lemma uint_u8_bounds: "0 \<le> uint (b :: u8)" "uint (b :: u8) < 256"
  using uint_bounded [of b] by auto

lemma uint_u16_bounds: "0 \<le> uint (w :: u16)" "uint (w :: u16) < 65536"
  using uint_bounded [of w] by auto

lemma uint_from_be_bytes: "uint (from_be_bytes h l) = uint h * 256 + uint l"
proof -
  have "0 \<le> uint h * 256 + uint l" "uint h * 256 + uint l < 65536"
    using uint_u8_bounds [of h] uint_u8_bounds [of l] by auto
  then show ?thesis unfolding from_be_bytes_def uint_word_of_int by simp
qed

lemma uint_hi_byte: "uint (hi_byte w) = uint w div 256"
proof -
  have "0 \<le> uint w div 256" by (simp add: pos_imp_zdiv_nonneg_iff)
  moreover have "uint w div 256 < 256" using uint_u16_bounds [of w] by auto
  ultimately show ?thesis unfolding hi_byte_def uint_word_of_int by simp
qed

lemma uint_lo_byte: "uint (lo_byte w) = uint w mod 256"
  unfolding lo_byte_def uint_word_of_int by simp

lemma from_be_bytes_split [simp]: "from_be_bytes (hi_byte w) (lo_byte w) = w"
  by (rule word_uint_eqI) (simp add: uint_from_be_bytes uint_hi_byte uint_lo_byte)

lemma hi_byte_from_be [simp]: "hi_byte (from_be_bytes h l) = h"
  using uint_u8_bounds [of l] by (intro word_uint_eqI) (simp add: uint_from_be_bytes uint_hi_byte)

lemma lo_byte_from_be [simp]: "lo_byte (from_be_bytes h l) = l"
  using uint_u8_bounds [of l] by (intro word_uint_eqI) (simp add: uint_from_be_bytes uint_lo_byte)

lemma unat_u16_bound: "unat (w :: u16) < 65536"
proof -
  have "(unsigned w :: nat) < 2 ^ LENGTH(16)" by (rule unsigned_less)
  then show ?thesis by simp
qed

lemma unat_ucast_u16_u32: "unat (ucast (w :: u16) :: u32) = unat w"
proof -
  have "unat w < 2 ^ 32" using unat_u16_bound [of w] by simp
  then show ?thesis by (simp only: unsigned_ucast_eq take_bit_nat_eq_self_iff len_num1) simp
qed

lemma unat_ucast_u32_u16: "unat (v :: u32) < 65536 \<Longrightarrow> unat (ucast v :: u16) = unat v"
  by (simp add: unsigned_ucast_eq take_bit_nat_eq_self_iff)

lemma word_unat_eqI: "unat (a :: 'a::len word) = unat b \<Longrightarrow> a = b"
  by (rule unsigned_word_eqI)

section \<open>Numbers in text\<close>

text \<open>\<open>char::to_digit(radix)\<close> for the radixes 10 and 16.\<close>

definition to_digit :: "nat \<Rightarrow> char \<Rightarrow> nat option" where
  "to_digit radix c =
     (let n = (of_char c :: nat);
          d = (if 48 \<le> n \<and> n \<le> 57 then n - 48
               else if 97 \<le> n \<and> n \<le> 102 then n - 87
               else if 65 \<le> n \<and> n \<le> 70 then n - 55
               else radix)
      in if d < radix then Some d else None)"

text \<open>
  The parsers below take the input that is left and return the value and the rest, \<open>None\<close>
  where the library's parser fails (it then restores its position, \<open>read_atomically\<close>).
  \<open>read_digits\<close> is the loop of \<open>Parser::read_number\<close>: it fails on one digit too many.
\<close>

fun read_digits :: "nat \<Rightarrow> nat \<Rightarrow> nat \<Rightarrow> nat \<Rightarrow> string \<Rightarrow> (nat \<times> nat \<times> string) option" where
  "read_digits radix max_digits count acc [] = Some (count, acc, [])"
| "read_digits radix max_digits count acc (c # cs) =
     (case to_digit radix c of
        None \<Rightarrow> Some (count, acc, c # cs)
      | Some d \<Rightarrow>
          if count + 1 > max_digits then None
          else read_digits radix max_digits (count + 1) (acc * radix + d) cs)"

definition read_number ::
  "nat \<Rightarrow> nat \<Rightarrow> nat \<Rightarrow> bool \<Rightarrow> string \<Rightarrow> (nat \<times> string) option" where
  "read_number radix max_digits bound allow_zero_prefix cs =
     (let has_leading_zero = (case cs of [] \<Rightarrow> False | c # _ \<Rightarrow> c = CHR ''0'')
      in case read_digits radix max_digits 0 0 cs of
           None \<Rightarrow> None
         | Some (count, value, rest) \<Rightarrow>
             if count = 0 then None
             else if \<not> allow_zero_prefix \<and> has_leading_zero \<and> count > 1 then None
             else if value < bound then Some (value, rest) else None)"

definition read_given_char :: "char \<Rightarrow> string \<Rightarrow> string option" where
  "read_given_char c cs = (case cs of [] \<Rightarrow> None | x # xs \<Rightarrow> if x = c then Some xs else None)"

definition read_separator ::
  "char \<Rightarrow> nat \<Rightarrow> (string \<Rightarrow> ('a \<times> string) option) \<Rightarrow> string \<Rightarrow> ('a \<times> string) option" where
  "read_separator sep index inner cs =
     (if index > 0 then Option.bind (read_given_char sep cs) inner else inner cs)"

definition read_octet :: "nat \<Rightarrow> string \<Rightarrow> (u8 \<times> string) option" where
  "read_octet index cs =
     map_option (\<lambda>(n, rest). (of_nat n, rest))
       (read_separator (CHR ''.'') index (read_number 10 3 256 False) cs)"

definition read_ipv4_addr :: "string \<Rightarrow> (ipv4addr \<times> string) option" where
  "read_ipv4_addr cs = do {
     (a, cs) \<leftarrow> read_octet 0 cs;
     (b, cs) \<leftarrow> read_octet 1 cs;
     (c, cs) \<leftarrow> read_octet 2 cs;
     (d, cs) \<leftarrow> read_octet 3 cs;
     Some (Ipv4 a b c d, cs)
   }"

text \<open>
  \<open>read_groups\<close> reads at most \<open>limit\<close> groups of an IPv6 address from index \<open>i\<close> on; the
  flag says whether it ended in an embedded IPv4 address.
\<close>

function read_groups :: "nat \<Rightarrow> nat \<Rightarrow> string \<Rightarrow> u16 list \<times> bool \<times> string" where
  "read_groups limit i cs =
     (if i \<ge> limit then ([], False, cs)
      else case (if i < limit - 1 then read_separator (CHR '':'') i read_ipv4_addr cs else None) of
        Some (v4, rest) \<Rightarrow>
          ([from_be_bytes (oct1 v4) (oct2 v4), from_be_bytes (oct3 v4) (oct4 v4)], True, rest)
      | None \<Rightarrow>
          (case read_separator (CHR '':'') i (read_number 16 4 65536 True) cs of
             None \<Rightarrow> ([], False, cs)
           | Some (g, rest) \<Rightarrow>
               (let (gs, v4, rest) = read_groups limit (i + 1) rest in (of_nat g # gs, v4, rest))))"
  by pat_completeness auto
termination
  by (relation "measure (\<lambda>(limit, i, cs). limit - i)") auto

declare read_groups.simps [simp del]

definition read_ipv6_addr :: "string \<Rightarrow> (u16 list \<times> string) option" where
  "read_ipv6_addr cs =
     (let (head, head_ipv4, cs) = read_groups 8 0 cs
      in if length head = 8 then Some (head, cs)
         else if head_ipv4 then None
         else do {
           cs \<leftarrow> read_given_char (CHR '':'') cs;
           cs \<leftarrow> read_given_char (CHR '':'') cs;
           let (tail, _, cs) = read_groups (8 - (length head + 1)) 0 cs;
           Some (head @ replicate (8 - length head - length tail) 0 @ tail, cs)
         })"

text \<open>\<open>str::parse::<Ipv4Addr>()\<close>: at most 15 bytes, all of them read.\<close>

definition parse_ipv4 :: "string \<Rightarrow> ipv4addr option" where
  "parse_ipv4 s =
     (if length s > 15 then None
      else case read_ipv4_addr s of Some (a, []) \<Rightarrow> Some a | _ \<Rightarrow> None)"

text \<open>\<open>str::parse::<IpAddr>()\<close>.\<close>

definition parse_ipaddr :: "string \<Rightarrow> ipaddr option" where
  "parse_ipaddr s =
     (case read_ipv4_addr s of
        Some (a, rest) \<Rightarrow> if rest = [] then Some (V4 a) else None
      | None \<Rightarrow>
          (case read_ipv6_addr s of
             Some (gs, rest) \<Rightarrow> if rest = [] then Some (V6 gs) else None
           | None \<Rightarrow> None))"

text \<open>
  \<open>str::parse\<close> for an unsigned integer below \<open>bound\<close>: one optional \<open>+\<close>, then digits only.
\<close>

definition strip_plus :: "string \<Rightarrow> string" where
  "strip_plus s = (case s of c # cs \<Rightarrow> if c = CHR ''+'' \<and> cs \<noteq> [] then cs else s | [] \<Rightarrow> [])"

definition parse_unsigned :: "nat \<Rightarrow> string \<Rightarrow> nat option" where
  "parse_unsigned bound s =
     (let ds = strip_plus s
      in if ds = [] then None
         else case read_digits 10 (length ds) 0 0 ds of
           Some (_, value, []) \<Rightarrow> if value < bound then Some value else None
         | _ \<Rightarrow> None)"

lemma parse_ipv4_length: "parse_ipv4 s = Some a \<Longrightarrow> length s \<le> 15"
  by (auto simp: parse_ipv4_def split: if_splits)

lemma parse_unsigned_bound: "parse_unsigned bound s = Some n \<Longrightarrow> n < bound"
  by (auto simp: parse_unsigned_def Let_def split: if_splits option.splits list.splits)

section \<open>Formatting numbers\<close>

definition digit_char :: "nat \<Rightarrow> char" where
  "digit_char d = char_of (48 + d)"

fun show_nat :: "nat \<Rightarrow> string" where
  "show_nat n = (if n < 10 then [digit_char n] else show_nat (n div 10) @ [digit_char (n mod 10)])"

declare show_nat.simps [simp del]

definition show_u16 :: "u16 \<Rightarrow> string" where
  "show_u16 w = show_nat (unat w)"

definition show_ipv4 :: "ipv4addr \<Rightarrow> string" where
  "show_ipv4 a = show_nat (unat (oct1 a)) @ ''.'' @ show_nat (unat (oct2 a)) @ ''.''
     @ show_nat (unat (oct3 a)) @ ''.'' @ show_nat (unat (oct4 a))"

section \<open>Trimming\<close>

text \<open>
  \<open>str::trim\<close> drops the code points with the Unicode property White\_Space from both ends;
  these are their UTF-8 encodings.
\<close>

definition white_space :: "string list" where
  "white_space = map (map char_of)
     [[9], [10], [11], [12], [13], [32],
      [194, 133], [194, 160], [225, 154, 128],
      [226, 128, 128], [226, 128, 129], [226, 128, 130], [226, 128, 131], [226, 128, 132],
      [226, 128, 133], [226, 128, 134], [226, 128, 135], [226, 128, 136], [226, 128, 137],
      [226, 128, 138], [226, 128, 168], [226, 128, 169], [226, 128, 175],
      [226, 129, 159], [227, 128, 128 :: nat]]"

text \<open>The encoding of a white-space code point, among \<open>ws\<close>, that the text starts with.\<close>

definition leading :: "string list \<Rightarrow> string \<Rightarrow> string option" where
  "leading ws s = find (\<lambda>w. w \<noteq> [] \<and> take (length w) s = w) ws"

function strip_start :: "string list \<Rightarrow> string \<Rightarrow> string" where
  "strip_start ws s =
     (case leading ws s of None \<Rightarrow> s | Some w \<Rightarrow> strip_start ws (drop (length w) s))"
  by pat_completeness auto
termination
proof (relation "measure (\<lambda>(ws, s). length s)")
  show "wf (measure (\<lambda>(ws :: string list, s :: string). length s))" by simp
next
  fix ws s w
  assume "leading ws s = Some w"
  then have "w \<noteq> []" "take (length w) s = w"
    by (auto simp: leading_def find_Some_iff)
  then have "0 < length w" "length w \<le> length s"
    by (auto, metis length_take min.cobounded1)
  then have "length s - length w < length s" by linarith
  then show "((ws, drop (length w) s), (ws, s)) \<in> measure (\<lambda>(ws, s). length s)" by simp
qed

declare strip_start.simps [simp del]

definition trim_str :: "string \<Rightarrow> string" where
  "trim_str s = rev (strip_start (map rev white_space) (rev (strip_start white_space s)))"

definition is_blank :: "string \<Rightarrow> bool" where
  "is_blank s = (trim_str s = [])"

definition to_lower :: "char \<Rightarrow> char" where
  "to_lower c = (let n = (of_char c :: nat) in if 65 \<le> n \<and> n \<le> 90 then char_of (n + 32) else c)"

definition eq_ignore_ascii_case :: "string \<Rightarrow> string \<Rightarrow> bool" where
  "eq_ignore_ascii_case s t = (map to_lower s = map to_lower t)"

text \<open>\<open>str::contains\<close> and \<open>str::trim_end_matches(c)\<close>.\<close>

definition str_contains :: "string \<Rightarrow> string \<Rightarrow> bool" where
  "str_contains s pat = (\<exists>i \<in> set [0..<Suc (length s)]. take (length pat) (drop i s) = pat)"

definition trim_end_matches :: "char \<Rightarrow> string \<Rightarrow> string" where
  "trim_end_matches c s = rev (dropWhile (\<lambda>x. x = c) (rev s))"

lemma strip_start_id: "leading ws s = None \<Longrightarrow> strip_start ws s = s"
  by (subst strip_start.simps) simp

lemma is_blank_Nil [simp]: "is_blank []"
proof -
  have l: "leading ws [] = None" for ws by (auto simp: leading_def find_None_iff)
  show ?thesis by (simp add: is_blank_def trim_str_def strip_start_id l)
qed

text \<open>A text whose ends are not bytes of white space is its own trimming.\<close>

definition starts_white :: "char \<Rightarrow> bool" where
  "starts_white c = ((of_char c :: nat) \<in> {9, 10, 11, 12, 13, 32, 194, 225, 226, 227})"

definition ends_white :: "char \<Rightarrow> bool" where
  "ends_white c = ((of_char c :: nat) \<in> {9, 10, 11, 12, 13, 32, 133, 159, 160, 168, 169, 175} \<union> {128..138})"

lemma leading_None:
  assumes "s \<noteq> []" "list_all (\<lambda>w. w \<noteq> [] \<and> p (hd w)) ws" "\<not> p (hd s)"
  shows "leading ws s = None"
proof -
  have "take (length w) s \<noteq> w" if "w \<in> set ws" for w
  proof
    assume t: "take (length w) s = w"
    from that assms(2) have w: "w \<noteq> []" "p (hd w)" by (auto simp: list_all_iff)
    then have "hd w = hd s" using t assms(1) by (cases s; cases w) auto
    with w assms(3) show False by simp
  qed
  then show ?thesis by (auto simp: leading_def find_None_iff)
qed

lemma white_space_starts: "list_all (\<lambda>w. w \<noteq> [] \<and> starts_white (hd w)) white_space"
  by (simp add: white_space_def starts_white_def of_char_of take_bit_nat_eq_self)

lemma white_space_ends: "list_all (\<lambda>w. w \<noteq> [] \<and> ends_white (hd w)) (map rev white_space)"
  by (simp add: white_space_def ends_white_def of_char_of take_bit_nat_eq_self)

lemma trim_str_id: "s \<noteq> [] \<Longrightarrow> \<not> starts_white (hd s) \<Longrightarrow> \<not> ends_white (last s) \<Longrightarrow> trim_str s = s"
  using leading_None [OF _ white_space_starts, of s] leading_None [OF _ white_space_ends, of "rev s"]
  by (simp add: trim_str_def strip_start_id hd_rev)

text \<open>A printed number reads back as itself.\<close>

lemma to_digit_digit_char: "d < 10 \<Longrightarrow> to_digit 10 (digit_char d) = Some d"
  by (simp add: to_digit_def digit_char_def Let_def of_char_of take_bit_nat_eq_self)

lemma read_digits_append:
  assumes "list_all (\<lambda>c. to_digit radix c \<noteq> None) ds"
    and "count + length ds \<le> max_digits"
  shows "read_digits radix max_digits count acc (ds @ cs) =
    read_digits radix max_digits (count + length ds)
      (foldl (\<lambda>a c. a * radix + the (to_digit radix c)) acc ds) cs"
  using assms by (induction ds arbitrary: count acc) auto

lemma show_nat_digits: "list_all (\<lambda>c. to_digit 10 c \<noteq> None) (show_nat n)"
proof (induction n rule: show_nat.induct)
  case (1 n)
  then show ?case
    by (subst show_nat.simps) (auto simp: to_digit_digit_char)
qed

lemma show_nat_value: "foldl (\<lambda>a c. a * 10 + the (to_digit 10 c)) 0 (show_nat n) = n"
proof (induction n rule: show_nat.induct)
  case (1 n)
  then show ?case
    by (subst show_nat.simps) (auto simp: to_digit_digit_char)
qed

lemma parse_unsigned_show_nat: "n < bound \<Longrightarrow> parse_unsigned bound (show_nat n) = Some n"
proof -
  assume b: "n < bound"
  have ne: "show_nat n \<noteq> []" by (subst show_nat.simps) simp
  have "to_digit 10 (hd (show_nat n)) \<noteq> None"
    using show_nat_digits [of n] ne by (cases "show_nat n") auto
  then have "hd (show_nat n) \<noteq> CHR ''+''" by (auto simp: to_digit_def)
  then have plus: "strip_plus (show_nat n) = show_nat n"
    using ne by (cases "show_nat n") (auto simp: strip_plus_def)
  have "read_digits 10 (length (show_nat n)) 0 0 (show_nat n @ []) =
    Some (length (show_nat n), n, [])"
    by (subst read_digits_append [OF show_nat_digits]) (simp_all add: show_nat_value)
  then show ?thesis using b ne by (simp add: parse_unsigned_def plus Let_def)
qed

end
