(* ===== verification/Dto.thy ===== *)
theory Dto
  imports Std_Lib
begin

text \<open>
  The wire types of \<open>src/src/dto.rs\<close>: the heartbeat and deregistration messages between
  Connector and Agent, the policy bundles with their port rules and entitlements, and how a bundle's
  rules are read. JSON decoding itself (serde) is a parameter where a definition uses it.
\<close>

section \<open>Port rules\<close>

datatype rule_transport = RuleTcp | RuleUdp | RuleTcpUdp | RuleUnknown string

definition as_wire :: "rule_transport \<Rightarrow> string" where
  "as_wire t = (case t of
     RuleTcp \<Rightarrow> ''TCP'' | RuleUdp \<Rightarrow> ''UDP'' | RuleTcpUdp \<Rightarrow> ''TCP_UDP''
   | RuleUnknown value \<Rightarrow> value)"

text \<open>\<open>Deserialize for RuleTransport\<close>, once serde has read the string.\<close>

definition rule_transport_of :: "string \<Rightarrow> rule_transport" where
  "rule_transport_of value =
     (if value = ''TCP'' then RuleTcp
      else if value = ''UDP'' then RuleUdp
      else if value = ''TCP_UDP'' then RuleTcpUdp
      else RuleUnknown value)"

record port_rule =
  pr_transport :: rule_transport
  pr_external_port :: u16
  pr_internal_host :: string
  pr_internal_port :: u16

text \<open>
  \<open>deserialize_port_rules\<close>: \<open>raw\<close> is the optional array as serde reads it,
  \<open>parse_rule\<close> serde's derived decoder of one rule; a rule that does not parse is skipped.
\<close>

definition deserialize_port_rules ::
  "('json \<Rightarrow> port_rule option) \<Rightarrow> 'json list option \<Rightarrow> port_rule list option" where
  "deserialize_port_rules parse_rule raw =
     map_option (\<lambda>values. List.map_filter parse_rule values) raw"

definition display_port_rule :: "port_rule \<Rightarrow> string" where
  "display_port_rule r =
     (let transport = (case pr_transport r of
          RuleTcp \<Rightarrow> ''TCP'' | RuleUdp \<Rightarrow> ''UDP'' | RuleTcpUdp \<Rightarrow> ''TCP+UDP''
        | RuleUnknown value \<Rightarrow> value)
      in transport @ '' '' @ show_u16 (pr_external_port r) @ '' -> '' @ pr_internal_host r
           @ '':'' @ show_u16 (pr_internal_port r))"

section \<open>Policy bundles\<close>

record endpoint =
  ep_host :: string
  ep_port :: u16

definition port_rule_of_endpoint :: "endpoint \<Rightarrow> port_rule" where
  "port_rule_of_endpoint e =
     \<lparr>pr_transport = RuleTcpUdp, pr_external_port = ep_port e,
      pr_internal_host = ep_host e, pr_internal_port = ep_port e\<rparr>"

record entitlement =
  en_user_id :: string
  en_device_public_key :: "string option"

record policy_bundle =
  pb_gateway_id :: string
  pb_location :: string
  pb_hostname :: string
  pb_access_mode :: string
  pb_endpoints :: "endpoint list"
  pb_port_rules :: "port_rule list option"
  pb_entitlement_list :: "entitlement list"

text \<open>\<open>PolicyBundle::rules\<close>.\<close>

definition bundle_rules :: "policy_bundle \<Rightarrow> port_rule list" where
  "bundle_rules b = (case pb_port_rules b of
     Some rules \<Rightarrow> rules
   | None \<Rightarrow> map port_rule_of_endpoint (pb_endpoints b))"

section \<open>Heartbeat and deregistration messages\<close>

record heartbeat_node =
  hn_node_id :: string
  hn_ip_address :: string
  hn_wireguard_public_key :: "string option"

record heartbeat_response =
  hr_connector_id :: string
  hr_connector_public_key :: "string option"
  hr_connector_virtual_ip :: "string option"
  hr_generated_at :: string
  hr_expires_at :: string
  hr_nonce :: string
  hr_policy_bundles :: "policy_bundle list"
  hr_node_list :: "heartbeat_node list"

record deregister_request =
  dq_connector_public_key :: string

record deregister_response =
  dr_connector_id :: string
  dr_connector_public_key :: string
  dr_status :: string
  dr_generated_at :: string
  dr_expires_at :: string
  dr_nonce :: string

section \<open>Lemmas\<close>

lemma as_wire_rule_transport_of [simp]: "as_wire (rule_transport_of s) = s"
  by (simp add: as_wire_def rule_transport_of_def)

lemma rule_transport_of_known:
  "rule_transport_of (as_wire t) = t \<longleftrightarrow>
     t \<notin> {RuleUnknown ''TCP'', RuleUnknown ''UDP'', RuleUnknown ''TCP_UDP''}"
  by (cases t) (auto simp: as_wire_def rule_transport_of_def)

lemma port_rule_of_endpoint_equal_ports [simp]:
  "pr_internal_port (port_rule_of_endpoint e) = pr_external_port (port_rule_of_endpoint e)"
  by (simp add: port_rule_of_endpoint_def)

lemma set_map_filter_Some: "set (List.map_filter p vs) = {r. \<exists>v \<in> set vs. p v = Some r}"
  by (induction vs) (auto simp: map_filter_simps split: option.splits)

lemma length_map_filter_le: "length (List.map_filter p vs) \<le> length vs"
  by (simp add: List.map_filter_def)

lemma deserialize_port_rules_Some:
  "deserialize_port_rules p (Some vs) = Some rs \<Longrightarrow>
     set rs = {r. \<exists>v \<in> set vs. p v = Some r} \<and> length rs \<le> length vs"
  by (auto simp: deserialize_port_rules_def set_map_filter_Some length_map_filter_le)

end
