(* ===== verification/Dns_Cache.thy ===== *)
theory Dns_Cache
  imports Std_Lib
begin

text \<open>
  \<open>src/src/dns_cache.rs\<close>: the cache of resolved internal host names. \<open>resolve\<close> is read
  on every packet; \<open>refresh\<close> runs once per heartbeat. The outcome of a lookup (the operating
  system's resolver under a time-out) is the parameter \<open>lookup\<close>: \<open>None\<close> is a time-out,
  \<open>Some (Inl e)\<close> an error, \<open>Some (Inr addrs)\<close> the answer. The lookups of one refresh run
  concurrently and touch no state, so their results are one function of the host.
\<close>

definition MAX_CONSECUTIVE_FAILURES :: u32 where
  "MAX_CONSECUTIVE_FAILURES = 10"

record cache_entry =
  ce_address :: ipv4addr
  ce_failures :: u32

type_synonym dns_cache = "(string, cache_entry) hmap"

definition dns_new :: dns_cache where
  "dns_new = []"

datatype lookup_outcome = Resolved ipv4addr | Failed string

definition dns_resolve :: "dns_cache \<Rightarrow> string \<Rightarrow> ipv4addr option" where
  "dns_resolve cache host =
     (case parse_ipv4 host of
        Some ip \<Rightarrow> Some ip
      | None \<Rightarrow> map_option ce_address (hm_get cache host))"

text \<open>The result of one awaited lookup.\<close>

definition lookup_outcome :: "(string \<Rightarrow> (string + ipv4addr list) option) \<Rightarrow> string \<Rightarrow> lookup_outcome" where
  "lookup_outcome lookup host =
     (case lookup host of
        Some (Inr addrs) \<Rightarrow>
          (case addrs of
             ip # _ \<Rightarrow> Resolved ip
           | [] \<Rightarrow> Failed ''DNS resolution returned no IPv4 address'')
      | Some (Inl error) \<Rightarrow> Failed error
      | None \<Rightarrow> Failed ''DNS resolution timed out after 5s'')"

text \<open>What one outcome does to the cache: the body of the loop over the outcomes.\<close>

definition apply_outcome :: "string \<Rightarrow> lookup_outcome \<Rightarrow> dns_cache \<Rightarrow> dns_cache" where
  "apply_outcome host outcome cache =
     (case outcome of
        Resolved ip \<Rightarrow>
          (case hm_get cache host of
             Some entry \<Rightarrow>
               if ce_address entry = ip
               then hm_insert host (entry\<lparr>ce_failures := 0\<rparr>) cache
               else hm_insert host (entry\<lparr>ce_address := ip, ce_failures := 0\<rparr>) cache
           | None \<Rightarrow> hm_insert host \<lparr>ce_address = ip, ce_failures = 0\<rparr> cache)
      | Failed reason \<Rightarrow>
          (case hm_get cache host of
             Some entry \<Rightarrow>
               (let failures = ce_failures entry + 1
                in if failures \<ge> MAX_CONSECUTIVE_FAILURES
                   then hm_remove host cache
                   else hm_insert host (entry\<lparr>ce_failures := failures\<rparr>) cache)
           | None \<Rightarrow> cache))"

text \<open>The host names of the configuration: literal addresses are left out, each name once.\<close>

definition wanted_hosts :: "string list \<Rightarrow> string list" where
  "wanted_hosts hosts = remdups (filter (\<lambda>host. parse_ipv4 host = None) hosts)"

definition dns_refresh ::
  "(string \<Rightarrow> (string + ipv4addr list) option) \<Rightarrow> string list \<Rightarrow> dns_cache \<Rightarrow> dns_cache" where
  "dns_refresh lookup hosts cache =
     (let wanted = wanted_hosts hosts;
          outcomes = map (\<lambda>host. (host, lookup_outcome lookup host)) wanted;
          resolved = fold (\<lambda>(host, outcome). apply_outcome host outcome) outcomes cache
      in hm_retain (\<lambda>host _. host \<in> set wanted) resolved)"

section \<open>The resolver interface\<close>

text \<open>
  What the flow table relies on: a literal address stands for itself. The lemmas are used for
  the cache below through its interpretation.
\<close>

locale host_resolver =
  fixes resolve :: "'c \<Rightarrow> string \<Rightarrow> ipv4addr option"
  assumes resolve_literal: "parse_ipv4 host = Some ip \<Longrightarrow> resolve cache host = Some ip"
begin

lemma unresolved_not_literal: "resolve cache host = None \<Longrightarrow> parse_ipv4 host = None"
  using resolve_literal by (cases "parse_ipv4 host") auto

lemma literal_independent: "parse_ipv4 host \<noteq> None \<Longrightarrow> resolve cache host = resolve cache' host"
  using resolve_literal by (cases "parse_ipv4 host") auto

end

interpretation dns: host_resolver dns_resolve
  by unfold_locales (simp add: dns_resolve_def)

section \<open>The cache invariant\<close>

text \<open>
  Keys are distinct, no literal address is a key, and an entry that is still cached has failed
  fewer than \<open>MAX_CONSECUTIVE_FAILURES\<close> times in a row (so the counter never overflows).
\<close>

definition dns_inv :: "dns_cache \<Rightarrow> bool" where
  "dns_inv cache \<longleftrightarrow> hm_ok cache \<and>
     (\<forall>host entry. hm_get cache host = Some entry \<longrightarrow>
        parse_ipv4 host = None \<and> ce_failures entry < MAX_CONSECUTIVE_FAILURES)"

lemma dns_inv_new: "dns_inv dns_new"
  by (simp add: dns_inv_def dns_new_def)

lemma apply_outcome_other: "host' \<noteq> host \<Longrightarrow> hm_get (apply_outcome host out c) host' = hm_get c host'"
  by (auto simp: apply_outcome_def hm_simps Let_def split: lookup_outcome.splits option.splits)

lemma apply_outcome_inv:
  "dns_inv c \<Longrightarrow> parse_ipv4 host = None \<Longrightarrow> dns_inv (apply_outcome host out c)"
  unfolding dns_inv_def apply_outcome_def
  by (auto simp: hm_simps hm_oks Let_def MAX_CONSECUTIVE_FAILURES_def
      split: lookup_outcome.splits option.splits if_splits)

lemma set_wanted_hosts [simp]: "set (wanted_hosts hosts) = {h \<in> set hosts. parse_ipv4 h = None}"
  by (auto simp: wanted_hosts_def)

lemma distinct_wanted_hosts [simp]: "distinct (wanted_hosts hosts)"
  by (simp add: wanted_hosts_def)

lemma fold_outcomes_inv:
  "dns_inv c \<Longrightarrow> \<forall>h \<in> set hs. parse_ipv4 h = None \<Longrightarrow>
     dns_inv (fold (\<lambda>(host, outcome). apply_outcome host outcome) (map (\<lambda>h. (h, f h)) hs) c)"
  by (induction hs arbitrary: c) (auto simp: apply_outcome_inv)

lemma fold_outcomes_get:
  "distinct hs \<Longrightarrow>
   hm_get (fold (\<lambda>(host, outcome). apply_outcome host outcome) (map (\<lambda>h. (h, f h)) hs) c) host =
     (if host \<in> set hs then hm_get (apply_outcome host (f host) c) host else hm_get c host)"
proof (induction hs arbitrary: c)
  case Nil
  then show ?case by simp
next
  case (Cons h hs)
  have upd: "hm_get (apply_outcome host out (apply_outcome h (f h) c)) host =
    hm_get (apply_outcome host out c) host" if "host \<noteq> h" for out
    using that apply_outcome_other [of host h "f h" c]
    by (auto simp: apply_outcome_def hm_simps Let_def split: lookup_outcome.splits option.splits)
  show ?case
    using Cons upd by (auto simp: apply_outcome_other)
qed

lemma dns_refresh_inv: "dns_inv c \<Longrightarrow> dns_inv (dns_refresh lookup hosts c)"
proof -
  assume "dns_inv c"
  then have "dns_inv (fold (\<lambda>(host, outcome). apply_outcome host outcome)
      (map (\<lambda>h. (h, lookup_outcome lookup h)) (wanted_hosts hosts)) c)"
    by (rule fold_outcomes_inv) simp
  then show ?thesis
    by (auto simp: dns_refresh_def dns_inv_def Let_def hm_simps hm_oks
        split: option.splits if_splits)
qed

text \<open>
  A refresh in closed form: a host the configuration wants is treated by its own outcome, every
  other entry is pruned.
\<close>

lemma dns_refresh_get:
  assumes "dns_inv c"
  shows "hm_get (dns_refresh lookup hosts c) host =
    (if host \<in> set hosts \<and> parse_ipv4 host = None
     then hm_get (apply_outcome host (lookup_outcome lookup host) c) host else None)"
proof -
  let ?d = "fold (\<lambda>(host, outcome). apply_outcome host outcome)
      (map (\<lambda>h. (h, lookup_outcome lookup h)) (wanted_hosts hosts)) c"
  have "dns_inv ?d" by (rule fold_outcomes_inv [OF assms]) simp
  then have "hm_ok ?d" by (simp add: dns_inv_def)
  then show ?thesis
    by (auto simp: dns_refresh_def Let_def hm_simps fold_outcomes_get split: option.splits)
qed

interpretation dns_run: invariant_machine "\<lambda>(lookup, hosts). dns_refresh lookup hosts" dns_inv
  by unfold_locales (auto simp: dns_refresh_inv)

text \<open>\<open>n\<close> refreshes in a row in which the host stays configured and its lookup fails.\<close>

fun failing_refreshes ::
  "((string \<Rightarrow> (string + ipv4addr list) option) \<times> string list) list \<Rightarrow> string \<Rightarrow> bool" where
  "failing_refreshes [] host = True"
| "failing_refreshes ((lookup, hosts) # rs) host \<longleftrightarrow>
     host \<in> set hosts \<and> (\<exists>reason. lookup_outcome lookup host = Failed reason) \<and>
     failing_refreshes rs host"

lemma failed_refresh_step:
  assumes "dns_inv c" "parse_ipv4 host = None" "host \<in> set hosts"
    and "lookup_outcome lookup host = Failed reason" "hm_get c host = Some e"
  shows "hm_get (dns_refresh lookup hosts c) host =
    (if ce_failures e + 1 \<ge> MAX_CONSECUTIVE_FAILURES then None
     else Some (e\<lparr>ce_failures := ce_failures e + 1\<rparr>))"
  using assms by (auto simp: dns_refresh_get apply_outcome_def hm_simps Let_def)

lemma failed_refresh_absent:
  assumes "dns_inv c" "lookup_outcome lookup host = Failed reason" "hm_get c host = None"
  shows "hm_get (dns_refresh lookup hosts c) host = None"
  using assms by (auto simp: dns_refresh_get apply_outcome_def)

lemma failing_run:
  "dns_inv c \<Longrightarrow> parse_ipv4 host = None \<Longrightarrow> failing_refreshes rs host \<Longrightarrow>
     (case hm_get c host of
        None \<Rightarrow> hm_get (fold (\<lambda>(lookup, hosts). dns_refresh lookup hosts) rs c) host = None
      | Some e \<Rightarrow> map_option ce_address (hm_get (fold (\<lambda>(lookup, hosts). dns_refresh lookup hosts) rs c) host) =
          (if unat (ce_failures e) + length rs < 10 then Some (ce_address e) else None))"
proof (induction rs arbitrary: c)
  case Nil
  have "hm_get c host = Some e \<Longrightarrow> unat (ce_failures e) < 10" for e
    using Nil(1) by (auto simp: dns_inv_def MAX_CONSECUTIVE_FAILURES_def word_less_nat_alt)
  then show ?case by (auto split: option.split)
next
  case (Cons r rs)
  obtain lookup hosts where r: "r = (lookup, hosts)" by force
  obtain reason where f: "host \<in> set hosts" "lookup_outcome lookup host = Failed reason" "failing_refreshes rs host"
    using Cons.prems(3) by (auto simp: r)
  let ?c = "dns_refresh lookup hosts c"
  have i: "dns_inv ?c" by (rule dns_refresh_inv [OF Cons.prems(1)])
  note IH = Cons.IH [OF i Cons.prems(2) f(3)]
  show ?case
  proof (cases "hm_get c host")
    case None
    with IH failed_refresh_absent [OF Cons.prems(1) f(2) None, of hosts] show ?thesis by (simp add: r)
  next
    case (Some e)
    have b: "unat (ce_failures e) < 10"
      using Cons.prems(1) Some by (auto simp: dns_inv_def MAX_CONSECUTIVE_FAILURES_def word_less_nat_alt)
    then have u: "unat (ce_failures e + 1) = unat (ce_failures e) + 1"
      by (simp add: unat_word_ariths)
    have "ce_failures e + 1 \<ge> MAX_CONSECUTIVE_FAILURES \<longleftrightarrow> unat (ce_failures e) + 1 \<ge> 10"
      by (simp add: word_le_nat_alt u MAX_CONSECUTIVE_FAILURES_def)
    with IH failed_refresh_step [OF Cons.prems(1,2) f(1,2) Some] b show ?thesis
      by (auto simp: r Some u split: if_splits)
  qed
qed

text \<open>
  C39: a freshly resolved address keeps being served through nine failing refreshes in a row
  and is gone from the tenth on
\<close>

theorem last_address_outlives_nine_failures:
  assumes "dns_inv c" "parse_ipv4 host = None" "hm_get c host = Some entry" "ce_failures entry = 0"
    and "failing_refreshes rs host"
  shows "dns_resolve (fold (\<lambda>(lookup, hosts). dns_refresh lookup hosts) rs c) host =
    (if length rs < 10 then Some (ce_address entry) else None)"
  using failing_run [OF assms(1,2,5)] assms(2-4) by (simp add: dns_resolve_def)

definition ex_cache :: dns_cache where
  "ex_cache = hm_insert ''db'' \<lparr>ce_address = Ipv4 10 0 0 7, ce_failures = 0\<rparr> dns_new"

lemma last_address_outlives_nine_failures_witness:
  "dns_resolve (fold (\<lambda>(lookup, hosts). dns_refresh lookup hosts) (replicate 9 ((\<lambda>_. None), [''db''])) ex_cache) ''db'' =
     Some (Ipv4 10 0 0 7) \<and>
   dns_resolve (fold (\<lambda>(lookup, hosts). dns_refresh lookup hosts) (replicate 10 ((\<lambda>_. None), [''db''])) ex_cache) ''db'' = None"
proof -
  have p: "parse_ipv4 ''db'' = None" by code_simp
  have i: "dns_inv ex_cache"
    by (auto simp: dns_inv_def ex_cache_def dns_new_def hm_simps hm_oks p MAX_CONSECUTIVE_FAILURES_def split: if_splits)
  have g: "hm_get ex_cache ''db'' = Some \<lparr>ce_address = Ipv4 10 0 0 7, ce_failures = 0\<rparr>" by (simp add: ex_cache_def hm_simps)
  have f: "failing_refreshes (replicate n ((\<lambda>_. None), [''db''])) ''db''" for n
    by (induction n) (simp_all add: lookup_outcome_def)
  show ?thesis
    using last_address_outlives_nine_failures [OF i p g _ f [of 9]]
      last_address_outlives_nine_failures [OF i p g _ f [of 10]] by simp
qed

end
