(* ===== verification/Flow_Table.thy ===== *)
theory Flow_Table
  imports Dto Dns_Cache
begin

text \<open>
  \<open>src/src/flow_table.rs\<close>: the admitted flows and everything routed by them. One definition
  per function, in the order of the file; a \<open>&mut self\<close> function takes the table and returns
  the new one. \<open>Instant::now()\<close> inside an operation is its argument \<open>now\<close>.
\<close>

section \<open>Constants\<close>

definition PENDING_PACKET_TTL :: nat where
  "PENDING_PACKET_TTL = from_secs 2"

definition RELEASED_FLOW_MEMORY :: nat where
  "RELEASED_FLOW_MEMORY = from_secs 30"

definition RULE_ENDED_FLOW_MEMORY :: nat where
  "RULE_ENDED_FLOW_MEMORY = from_secs 300"

definition MAX_RULE_ENDED_FLOWS :: nat where
  "MAX_RULE_ENDED_FLOWS = 4096"

definition MAX_PENDING_PACKETS :: nat where
  "MAX_PENDING_PACKETS = 1024"

definition SOURCE_PORT_RANGE :: "u16 \<times> u16" where
  "SOURCE_PORT_RANGE = (1024, 65535)"

definition MAX_TRACKED_CONTROL_CHANNEL_PORTS :: nat where
  "MAX_TRACKED_CONTROL_CHANNEL_PORTS = 256"

section \<open>Data\<close>

datatype transport = Tcp | Udp

definition transport_from_wire :: "string \<Rightarrow> transport option" where
  "transport_from_wire value =
     (if value = ''tcp'' then Some Tcp else if value = ''udp'' then Some Udp else None)"

definition transport_from_ip_protocol :: "u8 \<Rightarrow> transport option" where
  "transport_from_ip_protocol protocol =
     (if protocol = 6 then Some Tcp else if protocol = 17 then Some Udp else None)"

record dialled =
  dl_transport :: transport
  dl_gateway_address :: ipv4addr
  dl_destination_port :: u16

record flow_key =
  fk_node_id :: string
  fk_port :: u16
  fk_dialled :: "dialled option"

definition flow_key_new :: "string \<Rightarrow> u16 \<Rightarrow> dialled option \<Rightarrow> flow_key" where
  "flow_key_new node_id port dialled =
     \<lparr>fk_node_id = node_id, fk_port = port, fk_dialled = dialled\<rparr>"

record allocation =
  al_target :: "ipv4addr \<times> u16"
  al_port :: u16

datatype forward_outcome =
    OutForward ipv4addr
  | OutNotAdmitted
  | PortNotConfigured
  | AmbiguousEndpoint
  | PortTranslationNeedsUpdatedNode
  | HostUnresolved
  | NoFreeSourcePort

text \<open>\<open>Forward address destination_port source_port\<close>.\<close>

datatype forwarding =
    Forward ipv4addr "u16 option" "u16 option"
  | NotAdmitted
  | Refused forward_outcome

text \<open>\<open>Restore node_id source source_port destination_port\<close>.\<close>

datatype reply_route =
    Unchanged string
  | Restore string ipv4addr "u16 option" "u16 option"

datatype reply_miss = NoFlow | NoAddressYet string

record admitted_flow =
  af_gateway_id :: string
  af_flow_id :: string
  af_device_public_key :: string
  af_rules :: "port_rule list"
  af_virtual_address :: "ipv4addr option"
  af_allocation :: "allocation option"
  af_served :: "(transport option \<times> u16) option"

record rule_ended_flow =
  re_flow_id :: string
  re_device_public_key :: string

type_synonym allocation_key = "transport \<times> ipv4addr \<times> u16 \<times> u16"
type_synonym cursor_key = "transport \<times> ipv4addr \<times> u16"

record flow_table =
  ft_flows :: "(flow_key, admitted_flow) hmap"
  ft_nodes_by_port :: "(u16, string list) hmap"
  ft_control_ports :: "(u16, string) hmap"
  ft_control_order :: "u16 list"
  ft_outbound_ports :: "(u16, string) hmap"
  ft_outbound_order :: "u16 list"
  ft_pending :: "(flow_key, bytes \<times> instant) hmap"
  ft_recently_released :: "(string, instant) hmap"
  ft_by_allocation :: "(allocation_key, flow_key) hmap"
  ft_next_source_port :: "(cursor_key, u16) hmap"
  ft_source_port_range :: "(u16 \<times> u16) option"
  ft_dialled_nodes :: "string list"
  ft_gateway_rules :: "(string, port_rule list) hmap"
  ft_rule_ended :: "(flow_key, instant) hmap"

definition flow_table_new :: flow_table where
  "flow_table_new =
     \<lparr>ft_flows = [], ft_nodes_by_port = [], ft_control_ports = [], ft_control_order = [],
      ft_outbound_ports = [], ft_outbound_order = [], ft_pending = [], ft_recently_released = [],
      ft_by_allocation = [], ft_next_source_port = [], ft_source_port_range = None,
      ft_dialled_nodes = [], ft_gateway_rules = [], ft_rule_ended = []\<rparr>"

definition with_source_port_range :: "u16 \<times> u16 \<Rightarrow> flow_table" where
  "with_source_port_range r = flow_table_new\<lparr>ft_source_port_range := Some r\<rparr>"

section \<open>Port rules\<close>

definition rule_opens :: "rule_transport \<Rightarrow> transport option \<Rightarrow> bool" where
  "rule_opens rule transport = (case (rule, transport) of
     (RuleTcpUdp, _) \<Rightarrow> True
   | (RuleTcp, Some Tcp) \<Rightarrow> True
   | (RuleUdp, Some Udp) \<Rightarrow> True
   | _ \<Rightarrow> False)"

text \<open>The filter both \<open>matching_rule\<close> and \<open>resolve_rule\<close> apply.\<close>

definition rules_for :: "port_rule list \<Rightarrow> transport option \<Rightarrow> u16 \<Rightarrow> port_rule list" where
  "rules_for rules transport destination_port =
     filter (\<lambda>rule. pr_external_port rule = destination_port \<and>
       rule_opens (pr_transport rule) transport) rules"

definition matching_rule ::
  "port_rule list \<Rightarrow> transport option \<Rightarrow> u16 \<Rightarrow> port_rule option" where
  "matching_rule rules transport destination_port =
     (case rules_for rules transport destination_port of [rule] \<Rightarrow> Some rule | _ \<Rightarrow> None)"

definition still_served :: "flow_key \<Rightarrow> admitted_flow \<Rightarrow> port_rule list \<Rightarrow> bool" where
  "still_served key flow rules = (case (fk_dialled key, af_served flow) of
     (Some d, _) \<Rightarrow> matching_rule rules (Some (dl_transport d)) (dl_destination_port d) \<noteq> None
   | (None, Some (transport, port)) \<Rightarrow>
       (case matching_rule rules transport port of
          None \<Rightarrow> False | Some rule \<Rightarrow> pr_internal_port rule = port)
   | (None, None) \<Rightarrow> True)"

definition resolve_rule ::
  "port_rule list \<Rightarrow> transport option \<Rightarrow> u16 \<Rightarrow> dns_cache \<Rightarrow> forward_outcome + (ipv4addr \<times> u16)" where
  "resolve_rule rules transport destination_port dns_cache =
     (case rules_for rules transport destination_port of
        [] \<Rightarrow> Inl PortNotConfigured
      | [rule] \<Rightarrow>
          (case dns_resolve dns_cache (pr_internal_host rule) of
             Some address \<Rightarrow> Inr (address, pr_internal_port rule)
           | None \<Rightarrow> Inl HostUnresolved)
      | _ \<Rightarrow> Inl AmbiguousEndpoint)"

section \<open>Control-channel ports\<close>

text \<open>\<open>record_bounded_port\<close>: the map and its insertion order, both returned.\<close>

definition record_bounded_port ::
  "string \<Rightarrow> u16 \<Rightarrow> (u16, string) hmap \<times> u16 list \<Rightarrow> (u16, string) hmap \<times> u16 list" where
  "record_bounded_port node_id port mo = (case mo of (m, order) \<Rightarrow>
     let fresh = (hm_get m port = None);
         m = hm_insert port node_id m
     in if fresh then
          (let order = order @ [port]
           in if length order > MAX_TRACKED_CONTROL_CHANNEL_PORTS
              then (case order of
                      oldest # order' \<Rightarrow> (hm_remove oldest m, order')
                    | [] \<Rightarrow> (m, order))
              else (m, order))
        else (m, order))"

definition record_control_channel_port :: "string \<Rightarrow> u16 \<Rightarrow> flow_table \<Rightarrow> flow_table" where
  "record_control_channel_port node_id port t =
     (let (m, order) = record_bounded_port node_id port (ft_control_ports t, ft_control_order t)
      in t\<lparr>ft_control_ports := m, ft_control_order := order\<rparr>)"

definition node_for_control_channel_port :: "flow_table \<Rightarrow> u16 \<Rightarrow> string option" where
  "node_for_control_channel_port t port = hm_get (ft_control_ports t) port"

definition record_outbound_control_channel_port :: "string \<Rightarrow> u16 \<Rightarrow> flow_table \<Rightarrow> flow_table" where
  "record_outbound_control_channel_port node_id port t =
     (let (m, order) = record_bounded_port node_id port (ft_outbound_ports t, ft_outbound_order t)
      in t\<lparr>ft_outbound_ports := m, ft_outbound_order := order\<rparr>)"

definition node_for_outbound_port :: "flow_table \<Rightarrow> u16 \<Rightarrow> string option" where
  "node_for_outbound_port t port = hm_get (ft_outbound_ports t) port"

section \<open>Admission and removal\<close>

definition deindex :: "string \<Rightarrow> u16 \<Rightarrow> flow_table \<Rightarrow> flow_table" where
  "deindex node_id port t =
     (case hm_get (ft_nodes_by_port t) port of
        None \<Rightarrow> t
      | Some nodes \<Rightarrow>
          (let nodes = hs_remove node_id nodes
           in t\<lparr>ft_nodes_by_port :=
                  (if nodes = [] then hm_remove port (ft_nodes_by_port t)
                   else hm_insert port nodes (ft_nodes_by_port t))\<rparr>))"

definition remove_flow :: "flow_key \<Rightarrow> flow_table \<Rightarrow> flow_table" where
  "remove_flow key t =
     (case hm_get (ft_flows t) key of
        None \<Rightarrow> t
      | Some removed \<Rightarrow>
          (let t = t\<lparr>ft_flows := hm_remove key (ft_flows t)\<rparr>
           in case (fk_dialled key, af_allocation removed) of
                (Some d, Some a) \<Rightarrow>
                  t\<lparr>ft_by_allocation := hm_remove
                      (dl_transport d, fst (al_target a), snd (al_target a), al_port a)
                      (ft_by_allocation t)\<rparr>
              | (Some d, None) \<Rightarrow> t
              | (None, _) \<Rightarrow> deindex (fk_node_id key) (fk_port key) t))"

definition admit_flow ::
  "string \<Rightarrow> u16 \<Rightarrow> dialled option \<Rightarrow> string \<Rightarrow> string \<Rightarrow> string \<Rightarrow> port_rule list \<Rightarrow>
   flow_table \<Rightarrow> flow_table" where
  "admit_flow node_id port dialled gateway_id flow_id device_public_key rules t =
     (let key = \<lparr>fk_node_id = node_id, fk_port = port, fk_dialled = dialled\<rparr>;
          t = remove_flow key t;
          t = t\<lparr>ft_rule_ended := hm_remove key (ft_rule_ended t)\<rparr>;
          t = (case dialled of
                 Some _ \<Rightarrow> t\<lparr>ft_dialled_nodes := hs_insert node_id (ft_dialled_nodes t)\<rparr>
               | None \<Rightarrow>
                   (let nodes = (case hm_get (ft_nodes_by_port t) port of
                                   None \<Rightarrow> [] | Some nodes \<Rightarrow> nodes)
                    in t\<lparr>ft_nodes_by_port :=
                           hm_insert port (hs_insert node_id nodes) (ft_nodes_by_port t)\<rparr>))
      in t\<lparr>ft_flows := hm_insert key
            \<lparr>af_gateway_id = gateway_id, af_flow_id = flow_id,
             af_device_public_key = device_public_key, af_rules = rules,
             af_virtual_address = map_option dl_gateway_address dialled,
             af_allocation = None, af_served = None\<rparr> (ft_flows t)\<rparr>)"

text \<open>The keys of the flows a predicate selects, in iteration order.\<close>

definition keys_where :: "(flow_key \<Rightarrow> admitted_flow \<Rightarrow> bool) \<Rightarrow> flow_table \<Rightarrow> flow_key list" where
  "keys_where drop_it t = map fst (filter (\<lambda>(key, flow). drop_it key flow) (ft_flows t))"

definition remove_flows_where ::
  "(flow_key \<Rightarrow> admitted_flow \<Rightarrow> bool) \<Rightarrow> flow_table \<Rightarrow> nat \<times> flow_table" where
  "remove_flows_where drop_it t =
     (let removed = keys_where drop_it t
      in (length removed, fold remove_flow removed t))"

definition release :: "string \<Rightarrow> instant \<Rightarrow> flow_table \<Rightarrow> flow_table" where
  "release flow_id now t =
     (let (_, t) = remove_flows_where (\<lambda>_ flow. af_flow_id flow = flow_id) t;
          kept = hm_retain (\<lambda>_ released_at. duration_since now released_at \<le> RELEASED_FLOW_MEMORY)
                   (ft_recently_released t)
      in t\<lparr>ft_recently_released := hm_insert flow_id now kept\<rparr>)"

definition was_recently_released :: "string \<Rightarrow> instant \<Rightarrow> flow_table \<Rightarrow> bool" where
  "was_recently_released flow_id now t =
     (case hm_get (ft_recently_released t) flow_id of
        None \<Rightarrow> False
      | Some released_at \<Rightarrow> duration_since now released_at \<le> RELEASED_FLOW_MEMORY)"

definition forget_node_ports ::
  "string \<Rightarrow> (u16, string) hmap \<times> u16 list \<Rightarrow> (u16, string) hmap \<times> u16 list" where
  "forget_node_ports node_id mo = (case mo of (m, order) \<Rightarrow>
     let m = hm_retain (\<lambda>_ owner. owner \<noteq> node_id) m
     in (m, filter (\<lambda>port. hm_contains m port) order))"

definition evict_node :: "string \<Rightarrow> flow_table \<Rightarrow> flow_table" where
  "evict_node node_id t =
     (let (_, t) = remove_flows_where (\<lambda>key _. fk_node_id key = node_id) t;
          t = t\<lparr>ft_dialled_nodes := hs_remove node_id (ft_dialled_nodes t)\<rparr>;
          (m, order) = forget_node_ports node_id (ft_control_ports t, ft_control_order t);
          t = t\<lparr>ft_control_ports := m, ft_control_order := order\<rparr>;
          (m, order) = forget_node_ports node_id (ft_outbound_ports t, ft_outbound_order t)
      in t\<lparr>ft_outbound_ports := m, ft_outbound_order := order\<rparr>)"

definition evict_gateway_device :: "string \<Rightarrow> string \<Rightarrow> flow_table \<Rightarrow> nat \<times> flow_table" where
  "evict_gateway_device gateway_id device_public_key t =
     remove_flows_where (\<lambda>_ flow. af_gateway_id flow = gateway_id \<and>
       af_device_public_key flow = device_public_key) t"

section \<open>Rule refresh\<close>

text \<open>\<open>Iterator::min_by_key\<close>: the first of the least elements.\<close>

fun min_by_key :: "('a \<Rightarrow> nat) \<Rightarrow> 'a list \<Rightarrow> 'a option" where
  "min_by_key f [] = None"
| "min_by_key f (x # xs) = (case min_by_key f xs of
     None \<Rightarrow> Some x | Some y \<Rightarrow> if f x \<le> f y then Some x else Some y)"

definition remember_rule_ended :: "instant \<Rightarrow> flow_key \<Rightarrow> flow_table \<Rightarrow> flow_table" where
  "remember_rule_ended now key t =
     (let ended = hm_retain (\<lambda>_ seen. duration_since now seen \<le> RULE_ENDED_FLOW_MEMORY)
                    (ft_rule_ended t);
          ended = (if length ended \<ge> MAX_RULE_ENDED_FLOWS
                   then (case min_by_key snd ended of
                           Some (oldest, _) \<Rightarrow> hm_remove oldest ended | None \<Rightarrow> ended)
                   else ended)
      in t\<lparr>ft_rule_ended := hm_insert key now ended\<rparr>)"

definition update_rules ::
  "string \<Rightarrow> port_rule list \<Rightarrow> instant \<Rightarrow> flow_table \<Rightarrow> rule_ended_flow list \<times> flow_table" where
  "update_rules gateway_id rules now t =
     (let t = t\<lparr>ft_gateway_rules := hm_insert gateway_id rules (ft_gateway_rules t)\<rparr>;
          t = t\<lparr>ft_flows := hm_map (\<lambda>_ flow. if af_gateway_id flow = gateway_id
                 then flow\<lparr>af_rules := rules\<rparr> else flow) (ft_flows t)\<rparr>;
          unserved = (\<lambda>key flow. af_gateway_id flow = gateway_id \<and> \<not> still_served key flow rules);
          ended = map (\<lambda>(_, flow). \<lparr>re_flow_id = af_flow_id flow,
                    re_device_public_key = af_device_public_key flow\<rparr>)
                    (filter (\<lambda>(key, flow). unserved key flow) (ft_flows t))
      in if ended \<noteq> [] then
           (let ended_keys = keys_where unserved t;
                (_, t) = remove_flows_where unserved t
            in (ended, fold (remember_rule_ended now) ended_keys t))
         else (ended, t))"

fun check_rule_ended :: "instant \<Rightarrow> flow_key list \<Rightarrow> flow_table \<Rightarrow> bool \<times> flow_table" where
  "check_rule_ended now [] t = (False, t)"
| "check_rule_ended now (key # keys) t =
     (case hm_get (ft_rule_ended t) key of
        Some seen \<Rightarrow>
          if duration_since now seen \<le> RULE_ENDED_FLOW_MEMORY
          then (True, t\<lparr>ft_rule_ended := hm_insert key now (ft_rule_ended t)\<rparr>)
          else check_rule_ended now keys
                 (t\<lparr>ft_rule_ended := hm_remove key (ft_rule_ended t)\<rparr>)
      | None \<Rightarrow> check_rule_ended now keys t)"

definition is_rule_ended ::
  "string \<Rightarrow> u16 \<Rightarrow> dialled option \<Rightarrow> instant \<Rightarrow> flow_table \<Rightarrow> bool \<times> flow_table" where
  "is_rule_ended node_id port dialled now t =
     check_rule_ended now [flow_key_new node_id port dialled, flow_key_new node_id port None] t"

definition current_rules :: "string \<Rightarrow> flow_table \<Rightarrow> port_rule list option" where
  "current_rules gateway_id t = hm_get (ft_gateway_rules t) gateway_id"

definition retain_gateway_rules :: "(string \<Rightarrow> bool) \<Rightarrow> flow_table \<Rightarrow> flow_table" where
  "retain_gateway_rules keep t =
     t\<lparr>ft_gateway_rules := hm_retain (\<lambda>gateway_id _. keep gateway_id) (ft_gateway_rules t)\<rparr>"

definition gateway_for :: "flow_table \<Rightarrow> string \<Rightarrow> u16 \<Rightarrow> string option" where
  "gateway_for t node_id port =
     map_option af_gateway_id (hm_get (ft_flows t) (flow_key_new node_id port None))"

section \<open>Forwarding a packet\<close>

text \<open>
  The search loop of \<open>allocate_source_port\<close>: \<open>n\<close> iterations are left. The arithmetic is
  that of the code, \<open>u16\<close> and \<open>u32\<close>.
\<close>

fun search_source_port ::
  "(u16 \<Rightarrow> bool) \<Rightarrow> u16 \<Rightarrow> u16 \<Rightarrow> u32 \<Rightarrow> u32 \<Rightarrow> nat \<Rightarrow> u16 option" where
  "search_source_port used first start width offset 0 = None"
| "search_source_port used first start width offset (Suc n) =
     (let candidate = first + ucast ((ucast (start - first) + offset) mod width)
      in if \<not> used candidate then Some candidate
         else search_source_port used first start width (offset + 1) n)"

definition allocate_source_port ::
  "(allocation_key, flow_key) hmap \<Rightarrow> (cursor_key, u16) hmap \<Rightarrow> u16 \<times> u16 \<Rightarrow> transport \<Rightarrow>
   ipv4addr \<times> u16 \<Rightarrow> u16 option \<times> (cursor_key, u16) hmap" where
  "allocate_source_port allocations cursors ports transport target =
     (let first = fst ports; last_port = snd ports;
          width = (ucast (last_port - first) + 1 :: u32);
          cursor = (transport, fst target, snd target);
          start = (case hm_get cursors cursor of
                     Some port \<Rightarrow> if first \<le> port \<and> port \<le> last_port then port else first
                   | None \<Rightarrow> first);
          used = (\<lambda>candidate. hm_contains allocations (transport, fst target, snd target, candidate))
      in case search_source_port used first start width 0 (unat width) of
           Some candidate \<Rightarrow>
             (let next = (if candidate = last_port then first else candidate + 1)
              in (Some candidate, hm_insert cursor next cursors))
         | None \<Rightarrow> (None, cursors))"

definition port_range :: "flow_table \<Rightarrow> u16 \<times> u16" where
  "port_range t = (case ft_source_port_range t of Some r \<Rightarrow> r | None \<Rightarrow> SOURCE_PORT_RANGE)"

definition allocation_key_of :: "transport \<Rightarrow> allocation \<Rightarrow> allocation_key" where
  "allocation_key_of transport a =
     (transport, fst (al_target a), snd (al_target a), al_port a)"

definition forward_with_identity ::
  "flow_key \<Rightarrow> dialled \<Rightarrow> dns_cache \<Rightarrow> flow_table \<Rightarrow> forwarding \<times> flow_table" where
  "forward_with_identity key dialled dns_cache t =
     (case hm_get (ft_flows t) key of
        None \<Rightarrow> (NotAdmitted, t)
      | Some flow \<Rightarrow>
          (case resolve_rule (af_rules flow) (Some (dl_transport dialled))
                  (dl_destination_port dialled) dns_cache of
             Inl refused \<Rightarrow> (Refused refused, t)
           | Inr (address, internal_port) \<Rightarrow>
               (let target = (address, internal_port);
                    destination_port = (if internal_port \<noteq> dl_destination_port dialled
                                        then Some internal_port else None);
                    transport = dl_transport dialled;
                    move = (let by_allocation = (case af_allocation flow of
                                 Some a \<Rightarrow> hm_remove (allocation_key_of transport a) (ft_by_allocation t)
                               | None \<Rightarrow> ft_by_allocation t)
                            in case allocate_source_port by_allocation (ft_next_source_port t)
                                      (port_range t) transport target of
                                 (None, cursors) \<Rightarrow>
                                   (Refused NoFreeSourcePort,
                                    t\<lparr>ft_flows := hm_insert key (flow\<lparr>af_allocation := None\<rparr>) (ft_flows t),
                                      ft_by_allocation := by_allocation,
                                      ft_next_source_port := cursors\<rparr>)
                               | (Some source_port, cursors) \<Rightarrow>
                                   (Forward address destination_port (Some source_port),
                                    t\<lparr>ft_flows := hm_insert key (flow\<lparr>af_allocation :=
                                          Some \<lparr>al_target = target, al_port = source_port\<rparr>\<rparr>) (ft_flows t),
                                      ft_by_allocation := hm_insert
                                          (transport, fst target, snd target, source_port) key by_allocation,
                                      ft_next_source_port := cursors\<rparr>))
                in case af_allocation flow of
                     Some a \<Rightarrow>
                       if al_target a = target
                       then (Forward address destination_port (Some (al_port a)), t)
                       else move
                   | None \<Rightarrow> move)))"

definition legacy_flow_accepts :: "string \<Rightarrow> u16 \<Rightarrow> ipv4addr \<Rightarrow> flow_table \<Rightarrow> bool" where
  "legacy_flow_accepts node_id port destination t =
     (case hm_get (ft_flows t) (flow_key_new node_id port None) of
        None \<Rightarrow> True
      | Some flow \<Rightarrow>
          (case af_virtual_address flow of
             Some address \<Rightarrow> address = destination
           | None \<Rightarrow> node_id \<notin> set (ft_dialled_nodes t)))"

text \<open>The part of \<open>forward\<close> after the identity has been looked at: a flow without one.\<close>

definition forward_legacy ::
  "string \<Rightarrow> u16 \<Rightarrow> dialled option \<Rightarrow> u16 \<Rightarrow> dns_cache \<Rightarrow> flow_table \<Rightarrow> forwarding \<times> flow_table" where
  "forward_legacy node_id port dialled destination_port dns_cache t =
     (case hm_get (ft_flows t) (flow_key_new node_id port None) of
        None \<Rightarrow> (NotAdmitted, t)
      | Some flow \<Rightarrow>
          (let transport = map_option dl_transport dialled
           in case resolve_rule (af_rules flow) transport destination_port dns_cache of
                Inr (address, internal_port) \<Rightarrow>
                  if internal_port \<noteq> destination_port
                  then (Refused PortTranslationNeedsUpdatedNode, t)
                  else
                    (let flow = (case dialled of
                           Some d \<Rightarrow> flow\<lparr>af_virtual_address := Some (dl_gateway_address d)\<rparr>
                         | None \<Rightarrow> flow);
                         flow = (if af_served flow = None
                                 then flow\<lparr>af_served := Some (transport, destination_port)\<rparr> else flow)
                     in (Forward address None None,
                         t\<lparr>ft_flows := hm_insert (flow_key_new node_id port None) flow (ft_flows t)\<rparr>))
              | Inl refused \<Rightarrow> (Refused refused, t)))"

definition forward ::
  "string \<Rightarrow> u16 \<Rightarrow> dialled option \<Rightarrow> u16 \<Rightarrow> dns_cache \<Rightarrow> flow_table \<Rightarrow> forwarding \<times> flow_table" where
  "forward node_id port dialled destination_port dns_cache t =
     (case dialled of
        Some d \<Rightarrow>
          (let key = flow_key_new node_id port (Some d)
           in if hm_contains (ft_flows t) key then forward_with_identity key d dns_cache t
              else if \<not> legacy_flow_accepts node_id port (dl_gateway_address d) t
              then (NotAdmitted, t)
              else forward_legacy node_id port dialled destination_port dns_cache t)
      | None \<Rightarrow> forward_legacy node_id port dialled destination_port dns_cache t)"

section \<open>Routing a reply\<close>

definition node_for_port :: "flow_table \<Rightarrow> u16 \<Rightarrow> string option" where
  "node_for_port t port =
     (case hm_get (ft_nodes_by_port t) port of
        None \<Rightarrow> None
      | Some nodes \<Rightarrow> (case nodes of [node_id] \<Rightarrow> Some node_id | _ \<Rightarrow> None))"

text \<open>The flow a reply belongs to by its allocation, step 1 of \<open>route_reply\<close>.\<close>

definition dialled_route ::
  "transport option \<Rightarrow> ipv4addr option \<Rightarrow> u16 option \<Rightarrow> u16 \<Rightarrow> flow_table \<Rightarrow> (flow_key \<times> dialled) option" where
  "dialled_route transport source source_port destination_port t =
     (case (transport, source, source_port) of
        (Some tr, Some s, Some sp) \<Rightarrow>
          (case hm_get (ft_by_allocation t) (tr, s, sp, destination_port) of
             Some key \<Rightarrow>
               (case fk_dialled key of
                  Some d \<Rightarrow> if hm_contains (ft_flows t) key then Some (key, d) else None
                | None \<Rightarrow> None)
           | None \<Rightarrow> None)
      | _ \<Rightarrow> None)"

definition route_reply ::
  "transport option \<Rightarrow> ipv4addr option \<Rightarrow> u16 option \<Rightarrow> u16 \<Rightarrow> flow_table \<Rightarrow> reply_miss + reply_route" where
  "route_reply transport source source_port destination_port t =
     (case dialled_route transport source source_port destination_port t of
        Some (key, d) \<Rightarrow>
          Inr (Restore (fk_node_id key) (dl_gateway_address d) (Some (dl_destination_port d))
                 (Some (fk_port key)))
      | None \<Rightarrow>
          (case Option.bind source_port (node_for_outbound_port t) of
             Some node_id \<Rightarrow> Inr (Unchanged node_id)
           | None \<Rightarrow>
               (case node_for_control_channel_port t destination_port of
                  Some node_id \<Rightarrow> Inr (Unchanged node_id)
                | None \<Rightarrow>
                    (case node_for_port t destination_port of
                       None \<Rightarrow> Inl NoFlow
                     | Some node_id \<Rightarrow>
                         (case Option.bind (hm_get (ft_flows t)
                                  (flow_key_new node_id destination_port None)) af_virtual_address of
                            Some source \<Rightarrow> Inr (Restore node_id source None None)
                          | None \<Rightarrow> Inl (NoAddressYet node_id))))))"

section \<open>Packets waiting for their admission\<close>

definition buffer_pending ::
  "string \<Rightarrow> u16 \<Rightarrow> dialled option \<Rightarrow> bytes \<Rightarrow> instant \<Rightarrow> flow_table \<Rightarrow> flow_table" where
  "buffer_pending node_id port dialled packet now t =
     (let pending = hm_retain (\<lambda>_ (_, buffered_at). duration_since now buffered_at \<le> PENDING_PACKET_TTL)
                      (ft_pending t);
          key = flow_key_new node_id port dialled
      in if length pending \<ge> MAX_PENDING_PACKETS \<and> \<not> hm_contains pending key
         then t\<lparr>ft_pending := pending\<rparr>
         else t\<lparr>ft_pending := hm_insert key (packet, now) pending\<rparr>)"

definition pending_key :: "string \<Rightarrow> u16 \<Rightarrow> dialled option \<Rightarrow> flow_table \<Rightarrow> flow_key option" where
  "pending_key node_id port dialled t =
     (case dialled of
        Some _ \<Rightarrow> Some (flow_key_new node_id port dialled)
      | None \<Rightarrow>
          (let exact = flow_key_new node_id port None
           in if hm_contains (ft_pending t) exact then Some exact
              else find (\<lambda>key. fk_node_id key = node_id \<and> fk_port key = port) (hm_keys (ft_pending t))))"

definition take_pending ::
  "string \<Rightarrow> u16 \<Rightarrow> dialled option \<Rightarrow> instant \<Rightarrow> flow_table \<Rightarrow> bytes option \<times> flow_table" where
  "take_pending node_id port dialled now t =
     (case pending_key node_id port dialled t of
        None \<Rightarrow> (None, t)
      | Some key \<Rightarrow>
          (case hm_get (ft_pending t) key of
             None \<Rightarrow> (None, t)
           | Some (packet, buffered_at) \<Rightarrow>
               (if duration_since now buffered_at \<le> PENDING_PACKET_TTL then Some packet else None,
                t\<lparr>ft_pending := hm_remove key (ft_pending t)\<rparr>)))"

end
