(* ===== verification/Packet.thy ===== *)
theory Packet
  imports Flow_Table
begin

text \<open>
  The packet parsing and rewriting of \<open>src/src/tunnel.rs\<close>. A packet is a list of bytes, an index
  out of range is \<open>None\<close> (the panic of the code), a rewrite returns its Boolean with the packet it
  leaves. \<open>u16\<close> and \<open>u32\<close> are words of that width.
\<close>

unbundle bit_operations_syntax

section \<open>Reading a packet\<close>

text \<open>\<open>slice::get(i)\<close> and \<open>slice::get(a..b)\<close>.\<close>

definition get_byte :: "bytes \<Rightarrow> nat \<Rightarrow> u8 option" where
  "get_byte packet i = (if i < length packet then Some (packet ! i) else None)"

definition get_slice :: "bytes \<Rightarrow> nat \<Rightarrow> nat \<Rightarrow> bytes option" where
  "get_slice packet a b =
     (if a \<le> b \<and> b \<le> length packet then Some (take (b - a) (drop a packet)) else None)"

definition is_non_first_ipv4_fragment :: "bytes \<Rightarrow> bool" where
  "is_non_first_ipv4_fragment packet =
     (case (get_byte packet 6, get_byte packet 7) of
        (Some byte6, Some byte7) \<Rightarrow>
          (push_bit 8 (ucast (byte6 AND 0x1F)) OR ucast byte7 :: u16) \<noteq> 0
      | _ \<Rightarrow> True)"

text \<open>The version nibble and the header length in bytes of a first byte.\<close>

definition ip_version :: "u8 \<Rightarrow> u8" where
  "ip_version first_byte = drop_bit 4 first_byte"

definition ip_header_length :: "u8 \<Rightarrow> nat" where
  "ip_header_length first_byte = unat (first_byte AND 0x0F) * 4"

text \<open>The protocol and the offset of the transport header, the \<open>match\<close> of \<open>parse_l4_port\<close>.\<close>

definition l4_header :: "bytes \<Rightarrow> (u8 \<times> nat) option" where
  "l4_header packet = do {
     first_byte \<leftarrow> get_byte packet 0;
     if ip_version first_byte = 4 then
       (let ihl = ip_header_length first_byte
        in if ihl < 20 \<or> length packet < ihl + 4 then None
           else if is_non_first_ipv4_fragment packet then None
           else do { protocol \<leftarrow> get_byte packet 9; Some (protocol, ihl) })
     else if ip_version first_byte = 6 then
       (if length packet < 44 then None
        else do { protocol \<leftarrow> get_byte packet 6; Some (protocol, 40) })
     else None
   }"

definition parse_l4_port :: "bytes \<Rightarrow> nat \<Rightarrow> u16 option" where
  "parse_l4_port packet field_offset = do {
     (protocol, l4_offset) \<leftarrow> l4_header packet;
     if protocol \<noteq> 6 \<and> protocol \<noteq> 17 then None
     else do {
       port_bytes \<leftarrow> get_slice packet (l4_offset + field_offset) (l4_offset + field_offset + 2);
       (case port_bytes of [hi, lo] \<Rightarrow> Some (from_be_bytes hi lo) | _ \<Rightarrow> None)
     }
   }"

definition parse_source_port :: "bytes \<Rightarrow> u16 option" where
  "parse_source_port packet = parse_l4_port packet 0"

definition parse_destination_port :: "bytes \<Rightarrow> u16 option" where
  "parse_destination_port packet = parse_l4_port packet 2"

section \<open>Rewriting a packet\<close>

text \<open>Indexing out of range panics in Rust; \<open>None\<close> is the panic.\<close>

definition read_u16 :: "bytes \<Rightarrow> nat \<Rightarrow> u16 option" where
  "read_u16 packet offset =
     (case (get_byte packet offset, get_byte packet (offset + 1)) of
        (Some hi, Some lo) \<Rightarrow> Some (from_be_bytes hi lo)
      | _ \<Rightarrow> None)"

text \<open>\<open>packet[a..a + bs.len()].copy_from_slice(bs)\<close>.\<close>

definition copy_from_slice :: "bytes \<Rightarrow> nat \<Rightarrow> bytes \<Rightarrow> bytes option" where
  "copy_from_slice packet a bs =
     (if a + length bs \<le> length packet
      then Some (take a packet @ bs @ drop (a + length bs) packet) else None)"

definition write_u16 :: "bytes \<Rightarrow> nat \<Rightarrow> u16 \<Rightarrow> bytes option" where
  "write_u16 packet offset value = copy_from_slice packet offset [hi_byte value, lo_byte value]"

text \<open>The folding loop of \<open>checksum_adjust\<close>.\<close>

function fold_carries :: "u32 \<Rightarrow> u32" where
  "fold_carries s =
     (if drop_bit 16 s \<noteq> 0 then fold_carries ((s AND 0xFFFF) + drop_bit 16 s) else s)"
  by auto

lemma unat_drop_bit_16: "unat (drop_bit 16 (s :: u32)) = unat s div 65536"
  by (simp add: drop_bit_eq_div unat_div)

lemma fold_carries_step:
  assumes "drop_bit 16 (s :: u32) \<noteq> 0"
  shows "unat ((s AND 0xFFFF) + drop_bit 16 s) = unat s mod 65536 + unat s div 65536"
    and "unat s div 65536 \<noteq> 0"
proof -
  have m: "unat (s AND 0xFFFF) = unat s mod 65536"
  proof -
    have "s AND 0xFFFF = take_bit 16 s"
      using take_bit_eq_mask [of 16 s] by (simp add: mask_eq_exp_minus_1)
    then show ?thesis by (simp add: take_bit_eq_mod unat_mod)
  qed
  note d = unat_drop_bit_16 [of s]
  have "unat s < 4294967296" using unsigned_less [of s] by simp
  then have "unat s mod 65536 + unat s div 65536 < 4294967296"
    using mult_div_mod_eq [of 65536 "unat s"] by linarith
  then show "unat ((s AND 0xFFFF) + drop_bit 16 s) = unat s mod 65536 + unat s div 65536"
    by (simp add: unat_word_ariths m d)
  show "unat s div 65536 \<noteq> 0"
    using assms d by (metis unsigned_0 unsigned_word_eqI)
qed

termination fold_carries
proof (relation "measure unat")
  fix s :: u32
  assume "drop_bit 16 s \<noteq> 0"
  note st = fold_carries_step [OF this]
  have "unat s mod 65536 + unat s div 65536 < unat s"
    using st(2) mult_div_mod_eq [of 65536 "unat s"] by linarith
  then show "((s AND 0xFFFF) + drop_bit 16 s, s) \<in> measure unat"
    unfolding in_measure st(1) .
qed (rule wf_measure)

declare fold_carries.simps [simp del]

definition checksum_adjust :: "u16 \<Rightarrow> u16 \<Rightarrow> u16 \<Rightarrow> u16" where
  "checksum_adjust old_checksum old_word new_word =
     NOT (ucast (fold_carries (ucast (NOT old_checksum) + ucast (NOT old_word) + ucast new_word)))"

definition ipv4_tcp_or_udp :: "bytes \<Rightarrow> (u8 \<times> nat) option" where
  "ipv4_tcp_or_udp packet = do {
     first_byte \<leftarrow> get_byte packet 0;
     if ip_version first_byte \<noteq> 4 then None
     else
       (let ihl = ip_header_length first_byte
        in if ihl < 20 \<or> length packet < ihl \<or> is_non_first_ipv4_fragment packet then None
           else do {
             protocol \<leftarrow> get_byte packet 9;
             checksum_offset \<leftarrow> (if protocol = 6 then Some (ihl + 16)
                                 else if protocol = 17 then Some (ihl + 6) else None);
             if length packet \<ge> checksum_offset + 2 then Some (protocol, ihl) else None
           })
   }"

definition rewrite_ipv4_address :: "bytes \<Rightarrow> nat \<Rightarrow> ipv4addr \<Rightarrow> (bool \<times> bytes) option" where
  "rewrite_ipv4_address packet field_offset new_addr =
     (case get_byte packet 0 of
        None \<Rightarrow> Some (False, packet)
      | Some first_byte \<Rightarrow>
          if ip_version first_byte \<noteq> 4 then Some (False, packet)
          else
            (let ihl = ip_header_length first_byte
             in if ihl < 20 \<or> length packet < ihl then Some (False, packet)
                else if is_non_first_ipv4_fragment packet then Some (False, packet)
                else
                  (case get_byte packet 9 of
                     None \<Rightarrow> Some (False, packet)
                   | Some protocol \<Rightarrow>
                       if protocol \<noteq> 6 \<and> protocol \<noteq> 17 then Some (False, packet)
                       else
                         (let l4_checksum_offset = (if protocol = 6 then ihl + 16 else ihl + 6)
                          in if length packet < l4_checksum_offset + 2 then Some (False, packet)
                             else do {
                               old_hi \<leftarrow> read_u16 packet field_offset;
                               old_lo \<leftarrow> read_u16 packet (field_offset + 2);
                               let new_hi = from_be_bytes (oct1 new_addr) (oct2 new_addr);
                               let new_lo = from_be_bytes (oct3 new_addr) (oct4 new_addr);
                               ip_checksum \<leftarrow> read_u16 packet 10;
                               let ip_checksum = checksum_adjust ip_checksum old_hi new_hi;
                               let ip_checksum = checksum_adjust ip_checksum old_lo new_lo;
                               packet \<leftarrow> write_u16 packet 10 ip_checksum;
                               l4_checksum \<leftarrow> read_u16 packet l4_checksum_offset;
                               packet \<leftarrow>
                                 (if protocol = 6 \<or> l4_checksum \<noteq> 0 then
                                    (let l4_checksum = checksum_adjust l4_checksum old_hi new_hi;
                                         l4_checksum = checksum_adjust l4_checksum old_lo new_lo;
                                         l4_checksum = (if protocol = 17 \<and> l4_checksum = 0
                                                        then 0xFFFF else l4_checksum)
                                     in write_u16 packet l4_checksum_offset l4_checksum)
                                  else Some packet);
                               packet \<leftarrow> copy_from_slice packet field_offset (octets new_addr);
                               Some (True, packet)
                             }))))"

definition rewrite_destination_ipv4 :: "bytes \<Rightarrow> ipv4addr \<Rightarrow> (bool \<times> bytes) option" where
  "rewrite_destination_ipv4 packet new_dst = rewrite_ipv4_address packet 16 new_dst"

definition rewrite_source_ipv4 :: "bytes \<Rightarrow> ipv4addr \<Rightarrow> (bool \<times> bytes) option" where
  "rewrite_source_ipv4 packet new_src = rewrite_ipv4_address packet 12 new_src"

definition parse_ipv4_transport :: "bytes \<Rightarrow> transport option" where
  "parse_ipv4_transport packet = do {
     (protocol, _) \<leftarrow> ipv4_tcp_or_udp packet;
     transport_from_ip_protocol protocol
   }"

definition parse_destination_ipv4 :: "bytes \<Rightarrow> ipv4addr option" where
  "parse_destination_ipv4 packet = do {
     _ \<leftarrow> ipv4_tcp_or_udp packet;
     octets \<leftarrow> get_slice packet 16 20;
     ipv4_from_octets octets
   }"

definition parse_source_ipv4 :: "bytes \<Rightarrow> ipv4addr option" where
  "parse_source_ipv4 packet = do {
     _ \<leftarrow> ipv4_tcp_or_udp packet;
     octets \<leftarrow> get_slice packet 12 16;
     ipv4_from_octets octets
   }"

definition rewrite_l4_port :: "bytes \<Rightarrow> nat \<Rightarrow> u16 \<Rightarrow> (bool \<times> bytes) option" where
  "rewrite_l4_port packet field_offset new_port =
     (case ipv4_tcp_or_udp packet of
        None \<Rightarrow> Some (False, packet)
      | Some (protocol, ihl) \<Rightarrow>
          (let port_offset = ihl + field_offset;
               checksum_offset = (if protocol = 6 then ihl + 16 else ihl + 6)
           in do {
                old_port \<leftarrow> read_u16 packet port_offset;
                checksum \<leftarrow> read_u16 packet checksum_offset;
                packet \<leftarrow>
                  (if protocol = 6 \<or> checksum \<noteq> 0 then
                     (let checksum = checksum_adjust checksum old_port new_port;
                          checksum = (if protocol = 17 \<and> checksum = 0 then 0xFFFF else checksum)
                      in write_u16 packet checksum_offset checksum)
                   else Some packet);
                packet \<leftarrow> write_u16 packet port_offset new_port;
                Some (True, packet)
              }))"

definition rewrite_source_port :: "bytes \<Rightarrow> u16 \<Rightarrow> (bool \<times> bytes) option" where
  "rewrite_source_port packet new_port = rewrite_l4_port packet 0 new_port"

definition rewrite_destination_port :: "bytes \<Rightarrow> u16 \<Rightarrow> (bool \<times> bytes) option" where
  "rewrite_destination_port packet new_port = rewrite_l4_port packet 2 new_port"

end
