(* ===== verification/Packet_Props.thy ===== *)
theory Packet_Props
  imports Packet
begin

text \<open>
  What the parsing and rewriting of packets promises: no index is out of range, a packet that
  cannot be rewritten is left alone, a rewritten one reads back with exactly the new field, and the
  ones-complement sums its checksums cover are kept modulo 65535.
\<close>

section \<open>The ones-complement checksum\<close>

lemma fold_carries_mod: "unat (fold_carries s) mod 65535 = unat s mod 65535 \<and> unat (fold_carries s) < 65536"
proof (induction s rule: fold_carries.induct)
  case (1 s)
  show ?case
  proof (cases "drop_bit 16 s \<noteq> 0")
    case True
    have "unat s = (unat s mod 65536 + unat s div 65536) + 65535 * (unat s div 65536)"
      using mult_div_mod_eq [of 65536 "unat s"] by linarith
    then have "unat s mod 65535 = (unat s mod 65536 + unat s div 65536) mod 65535"
      by (metis mod_mult_self2)
    then show ?thesis
      using 1 [OF True] True by (subst (1 2) fold_carries.simps) (simp add: fold_carries_step)
  next
    case False
    then have "unat s div 65536 = 0" by (simp flip: unat_drop_bit_16)
    then show ?thesis using False by (subst (1 2) fold_carries.simps) (simp add: div_eq_0_iff)
  qed
qed

lemma unat_not_u16: "unat (NOT (w :: u16)) = 65535 - unat w"
proof -
  have "NOT w = -1 - w" by (simp add: not_eq_complement)
  moreover have "unat (-1 - w) = unat (-1 :: u16) - unat w"
    by (rule unat_sub) simp
  moreover have "unat (-1 :: u16) = 65535"
    by (simp only: unsigned_minus_1_eq_mask) (simp add: mask_eq_exp_minus_1)
  ultimately show ?thesis by simp
qed

lemma mod_add_right_cancel:
  fixes a b k :: nat
  assumes "(a + k) mod 65535 = (b + k) mod 65535"
  shows "a mod 65535 = b mod 65535"
proof -
  have "(a + k + 65534 * k) mod 65535 = (b + k + 65534 * k) mod 65535"
    using assms by (metis mod_add_left_eq)
  moreover have "a + k + 65534 * k = a + 65535 * k" "b + k + 65534 * k = b + 65535 * k" by simp_all
  ultimately show ?thesis by (metis mod_mult_self2)
qed

text \<open>The new checksum keeps the sum of the checksum and the word it covers, modulo 65535.\<close>

lemma checksum_adjust_sum:
  "(unat (checksum_adjust c m m') + unat m') mod 65535 = (unat c + unat m) mod 65535"
proof -
  let ?s = "ucast (NOT c) + ucast (NOT m) + ucast m' :: u32"
  have b: "unat c < 65536" "unat m < 65536" "unat m' < 65536" by (rule unat_u16_bound)+
  have s: "unat ?s = (65535 - unat c) + (65535 - unat m) + unat m'"
    using b by (simp add: unat_word_ariths unat_ucast_u16_u32 unat_not_u16)
  define n where "n = unat ?s"
  define f where "f = unat (fold_carries ?s)"
  have f: "f mod 65535 = n mod 65535" "f < 65536"
    using fold_carries_mod [of ?s] by (auto simp: f_def n_def)
  have n: "n = (65535 - unat c) + (65535 - unat m) + unat m'" using s by (simp add: n_def)
  have a: "unat (checksum_adjust c m m') = 65535 - f"
    using f(2) by (simp add: checksum_adjust_def unat_not_u16 unat_ucast_u32_u16 f_def)
  have "((65535 - f) + unat m' + n) mod 65535 = ((65535 - f) + unat m' + f) mod 65535"
    using f(1) by (metis mod_add_right_eq)
  also have "(65535 - f) + unat m' + f = 1 * 65535 + unat m'" using f(2) by linarith
  also have "(1 * 65535 + unat m') mod 65535 = (2 * 65535 + unat m') mod 65535"
    by (metis mod_mult_self3)
  also have "2 * 65535 + unat m' = unat c + unat m + n" using b n by linarith
  finally show ?thesis unfolding a by (rule mod_add_right_cancel)
qed


section \<open>The sum a checksum covers\<close>

text \<open>The sum of the 16-bit big-endian words of a byte sequence, an odd last byte padded with zero.\<close>

fun word_sum :: "bytes \<Rightarrow> nat" where
  "word_sum [] = 0"
| "word_sum [a] = unat a * 256"
| "word_sum (a # b # rest) = unat (from_be_bytes a b) + word_sum rest"

lemma word_sum_append: "even (length xs) \<Longrightarrow> word_sum (xs @ ys) = word_sum xs + word_sum ys"
  by (induction xs rule: word_sum.induct) auto

text \<open>A 16-bit word of a packet, and the packet with that word replaced.\<close>

definition word_at :: "bytes \<Rightarrow> nat \<Rightarrow> u16" where
  "word_at packet offset = from_be_bytes (packet ! offset) (packet ! (offset + 1))"

definition put16 :: "bytes \<Rightarrow> nat \<Rightarrow> u16 \<Rightarrow> bytes" where
  "put16 packet offset value =
     take offset packet @ [hi_byte value, lo_byte value] @ drop (offset + 2) packet"

lemma write_u16_eq [simp]:
  "offset + 2 \<le> length packet \<Longrightarrow> write_u16 packet offset value = Some (put16 packet offset value)"
  by (simp add: write_u16_def copy_from_slice_def put16_def)

lemma read_u16_eq [simp]:
  "offset + 2 \<le> length packet \<Longrightarrow> read_u16 packet offset = Some (word_at packet offset)"
  by (simp add: read_u16_def get_byte_def word_at_def)

lemma length_put16 [simp]: "offset + 2 \<le> length packet \<Longrightarrow> length (put16 packet offset value) = length packet"
  by (simp add: put16_def)

lemma nth_put16:
  assumes "offset + 2 \<le> length packet" "i < length packet"
  shows "put16 packet offset value ! i =
    (if i = offset then hi_byte value else if i = offset + 1 then lo_byte value else packet ! i)"
proof (cases "i < offset")
  case True
  then show ?thesis using assms by (simp add: put16_def nth_append)
next
  case False
  then obtain k where "i = offset + k" by (metis le_Suc_ex not_less)
  then show ?thesis using assms by (auto simp: put16_def nth_append nth_Cons split: nat.split)
qed

lemma word_at_put16:
  "offset + 2 \<le> length packet \<Longrightarrow> word_at (put16 packet offset value) offset = value"
  by (simp add: word_at_def nth_put16)

lemma word_at_put16_other:
  "offset + 2 \<le> length packet \<Longrightarrow> o' + 2 \<le> length packet \<Longrightarrow> o' + 2 \<le> offset \<or> offset + 2 \<le> o' \<Longrightarrow>
     word_at (put16 packet offset value) o' = word_at packet o'"
  by (auto simp: word_at_def nth_put16)

lemma put16_split:
  assumes "offset + 2 \<le> length packet"
  shows "packet = take offset packet @ [packet ! offset, packet ! (offset + 1)] @ drop (offset + 2) packet"
proof -
  have "drop offset packet = packet ! offset # packet ! (offset + 1) # drop (offset + 2) packet"
    using assms by (simp add: Cons_nth_drop_Suc)
  then show ?thesis using append_take_drop_id [of offset packet] by simp
qed

lemma word_sum_put16:
  assumes "offset + 2 \<le> length packet" "even offset"
  shows "word_sum (put16 packet offset value) + unat (word_at packet offset) = word_sum packet + unat value"
proof -
  have "even (length (take offset packet))" using assms by simp
  note app = word_sum_append [OF this]
  have "word_sum packet = word_sum (take offset packet) +
      (unat (word_at packet offset) + word_sum (drop (offset + 2) packet))"
    by (subst put16_split [OF assms(1)], subst app) (simp add: word_at_def)
  moreover have "word_sum (put16 packet offset value) = word_sum (take offset packet) +
      (unat value + word_sum (drop (offset + 2) packet))"
    unfolding put16_def by (subst app) simp
  ultimately show ?thesis by simp
qed

lemma take_put16:
  "offset + 2 \<le> n \<Longrightarrow> n \<le> length packet \<Longrightarrow> take n (put16 packet offset value) = put16 (take n packet) offset value"
  "n \<le> offset \<Longrightarrow> offset + 2 \<le> length packet \<Longrightarrow> take n (put16 packet offset value) = take n packet"
  by (rule nth_equalityI; simp add: nth_put16)+

lemma drop_put16:
  "n \<le> offset \<Longrightarrow> offset + 2 \<le> length packet \<Longrightarrow>
     drop n (put16 packet offset value) = put16 (drop n packet) (offset - n) value"
  "offset + 2 \<le> n \<Longrightarrow> n \<le> length packet \<Longrightarrow> drop n (put16 packet offset value) = drop n packet"
  by (rule nth_equalityI; auto simp: nth_put16)+


section \<open>What a rewrite does\<close>

definition l4_checksum_offset :: "u8 \<Rightarrow> nat \<Rightarrow> nat" where
  "l4_checksum_offset protocol ihl = (if protocol = 6 then ihl + 16 else ihl + 6)"

text \<open>The checksum written back: UDP sends \<open>0xFFFF\<close> for a computed zero.\<close>

definition l4_checksum :: "u8 \<Rightarrow> u16 \<Rightarrow> u16" where
  "l4_checksum protocol c = (if protocol = 17 \<and> c = 0 then 0xFFFF else c)"

lemma ipv4_tcp_or_udp_Some:
  assumes "ipv4_tcp_or_udp packet = Some (protocol, ihl)"
  shows "20 \<le> ihl" "even ihl" "protocol = 6 \<or> protocol = 17"
    "l4_checksum_offset protocol ihl + 2 \<le> length packet" "even (l4_checksum_offset protocol ihl)"
    "ihl + 8 \<le> length packet"
    "protocol = packet ! 9" "ihl = ip_header_length (packet ! 0)" "ip_version (packet ! 0) = 4"
    "\<not> is_non_first_ipv4_fragment packet"
  using assms by (auto simp: ipv4_tcp_or_udp_def Let_def get_byte_def ip_header_length_def
      l4_checksum_offset_def split: if_splits Option.bind_splits)

lemma ipv4_tcp_or_udp_iff:
  "ipv4_tcp_or_udp packet = Some (protocol, ihl) \<longleftrightarrow>
     packet \<noteq> [] \<and> ip_version (packet ! 0) = 4 \<and> ihl = ip_header_length (packet ! 0) \<and> 20 \<le> ihl \<and>
     \<not> is_non_first_ipv4_fragment packet \<and> protocol = packet ! 9 \<and> (protocol = 6 \<or> protocol = 17) \<and>
     l4_checksum_offset protocol ihl + 2 \<le> length packet"
  by (auto simp: ipv4_tcp_or_udp_def Let_def get_byte_def l4_checksum_offset_def
      split: if_splits Option.bind_splits)

definition ip_checksum_written :: "bytes \<Rightarrow> nat \<Rightarrow> ipv4addr \<Rightarrow> u16 \<Rightarrow> u16" where
  "ip_checksum_written packet offset a c =
     checksum_adjust (checksum_adjust c (word_at packet offset) (from_be_bytes (oct1 a) (oct2 a)))
       (word_at packet (offset + 2)) (from_be_bytes (oct3 a) (oct4 a))"

definition checksums_adjusted :: "bytes \<Rightarrow> u8 \<Rightarrow> nat \<Rightarrow> nat \<Rightarrow> ipv4addr \<Rightarrow> bytes" where
  "checksums_adjusted packet protocol ihl offset a =
     (let o4 = l4_checksum_offset protocol ihl;
          p1 = put16 packet 10 (ip_checksum_written packet offset a (word_at packet 10))
      in if protocol = 6 \<or> word_at packet o4 \<noteq> 0
         then put16 p1 o4 (l4_checksum protocol (ip_checksum_written packet offset a (word_at packet o4)))
         else p1)"

definition address_rewritten :: "bytes \<Rightarrow> u8 \<Rightarrow> nat \<Rightarrow> nat \<Rightarrow> ipv4addr \<Rightarrow> bytes" where
  "address_rewritten packet protocol ihl offset a =
     put16 (put16 (checksums_adjusted packet protocol ihl offset a) offset (from_be_bytes (oct1 a) (oct2 a)))
       (offset + 2) (from_be_bytes (oct3 a) (oct4 a))"

lemma copy_octets:
  assumes "offset + 4 \<le> length packet"
  shows "copy_from_slice packet offset (octets a) =
    Some (put16 (put16 packet offset (from_be_bytes (oct1 a) (oct2 a))) (offset + 2)
      (from_be_bytes (oct3 a) (oct4 a)))"
proof -
  have "take (offset + 2) (put16 packet offset w) = take offset packet @ [hi_byte w, lo_byte w]" for w
    using assms by (simp add: put16_def)
  moreover have "drop (offset + 2 + 2) (put16 packet offset w) = drop (offset + 4) packet" for w
    using assms by (simp add: drop_put16 add.assoc del: add_2_eq_Suc add_2_eq_Suc')
  ultimately have "put16 (put16 packet offset h) (offset + 2) l =
      take offset packet @ [hi_byte h, lo_byte h, hi_byte l, lo_byte l] @ drop (offset + 4) packet" for h l
    unfolding put16_def [of "put16 packet offset h"] by (simp only: append_assoc append_Cons append_Nil)
  moreover have "offset + length (octets a) = offset + 4" by simp
  ultimately show ?thesis
    using assms by (simp only: copy_from_slice_def if_True) (simp add: octets_def)
qed

lemma length_checksums_adjusted [simp]:
  "20 \<le> length packet \<Longrightarrow> l4_checksum_offset protocol ihl + 2 \<le> length packet \<Longrightarrow>
     length (checksums_adjusted packet protocol ihl offset a) = length packet"
  by (simp add: checksums_adjusted_def Let_def)

lemma rewrite_ipv4_address_eq:
  assumes "offset = 12 \<or> offset = 16"
  shows "rewrite_ipv4_address packet offset a =
    (case ipv4_tcp_or_udp packet of
       None \<Rightarrow> Some (False, packet)
     | Some (protocol, ihl) \<Rightarrow> Some (True, address_rewritten packet protocol ihl offset a))"
proof (cases "ipv4_tcp_or_udp packet")
  case None
  then show ?thesis
    unfolding rewrite_ipv4_address_def ipv4_tcp_or_udp_def Let_def
    by (cases "get_byte packet 0"; cases "get_byte packet 9") (auto split: if_splits)
next
  case (Some r)
  obtain protocol ihl where r: "r = (protocol, ihl)" by force
  note f = ipv4_tcp_or_udp_Some [OF Some [unfolded r]]
  have lens: "20 \<le> length packet" "ihl \<le> length packet" "offset + 4 \<le> length packet" "9 < length packet"
    "10 + 2 \<le> length packet" "offset + 2 \<le> length packet" "offset + 2 + 2 \<le> length packet" "0 < length packet"
    using f(1,6) assms by auto
  have o4: "(if protocol = 6 then ihl + 16 else ihl + 6) = l4_checksum_offset protocol ihl"
    by (simp add: l4_checksum_offset_def)
  have w: "word_at (put16 packet 10 c) (l4_checksum_offset protocol ihl) =
      word_at packet (l4_checksum_offset protocol ihl)" for c
    using lens f(1,4) by (intro word_at_put16_other) (auto simp: l4_checksum_offset_def)
  have g: "get_byte packet 0 = Some (packet ! 0)" "get_byte packet 9 = Some (packet ! 9)"
    using lens by (simp_all add: get_byte_def)
  have nl: "\<not> length packet < l4_checksum_offset protocol ihl + 2" using f(4) by simp
  have copy: "copy_from_slice q offset (octets a) =
      Some (put16 (put16 q offset (from_be_bytes (oct1 a) (oct2 a))) (offset + 2)
        (from_be_bytes (oct3 a) (oct4 a)))" if "length q = length packet" for q
    using that lens by (intro copy_octets) simp
  define o4 where "o4 = l4_checksum_offset protocol ihl"
  have q: "protocol \<noteq> 6 \<and> protocol \<noteq> 17 \<longleftrightarrow> False" "ihl < 20 \<or> length packet < ihl \<longleftrightarrow> False"
    "length packet < o4 + 2 \<longleftrightarrow> False" "is_non_first_ipv4_fragment packet \<longleftrightarrow> False"
    "o4 + 2 \<le> length packet" "(ip_version (packet ! 0) \<noteq> 4) \<longleftrightarrow> False"
    using f(1,3,4,9,10) lens(2) by (auto simp: o4_def)
  note w = w [folded o4_def]
  show ?thesis
    unfolding rewrite_ipv4_address_def Some r g option.case f(7) [symmetric] f(8) [symmetric] o4 Let_def
      prod.case q(1,2,3,4,6) if_False o4_def [symmetric]
    using q(5) lens
    by (cases "protocol = 6 \<or> word_at packet o4 \<noteq> 0")
      (simp_all add: w copy address_rewritten_def checksums_adjusted_def ip_checksum_written_def
        l4_checksum_def Let_def q(5) flip: o4_def del: add_2_eq_Suc add_2_eq_Suc')
qed


section \<open>A rewrite keeps the checksums right\<close>

lemma l4_checksum_mod [simp]: "unat (l4_checksum protocol c) mod 65535 = unat c mod 65535"
  by (simp add: l4_checksum_def)

lemma two_adjustments:
  fixes x y c h l u v m :: nat
  assumes "(x + l) mod m = (y + v) mod m" "(y + h) mod m = (c + u) mod m"
  shows "(x + h + l) mod m = (c + u + v) mod m"
proof -
  have "(x + h + l) mod m = ((x + l) + h) mod m" by (simp add: ac_simps)
  also have "\<dots> = ((y + v) + h) mod m" by (rule mod_add_cong) (simp_all only: assms(1))
  also have "\<dots> = ((y + h) + v) mod m" by (simp add: ac_simps)
  also have "\<dots> = ((c + u) + v) mod m" by (rule mod_add_cong) (simp_all only: assms(2))
  finally show ?thesis .
qed

lemma ip_checksum_written_sum:
  "(unat (ip_checksum_written packet offset a c) + unat (from_be_bytes (oct1 a) (oct2 a)) +
      unat (from_be_bytes (oct3 a) (oct4 a))) mod 65535 =
   (unat c + unat (word_at packet offset) + unat (word_at packet (offset + 2))) mod 65535"
  unfolding ip_checksum_written_def
  by (rule two_adjustments; rule checksum_adjust_sum)

lemma word_sum_put_address:
  assumes "offset + 4 \<le> length packet" "even offset"
  shows "word_sum (put16 (put16 packet offset h) (offset + 2) l) +
      (unat (word_at packet offset) + unat (word_at packet (offset + 2))) =
    word_sum packet + (unat h + unat l)"
proof -
  have "word_at (put16 packet offset h) (offset + 2) = word_at packet (offset + 2)"
    using assms by (intro word_at_put16_other) auto
  then show ?thesis
    using word_sum_put16 [of offset packet h] word_sum_put16 [of "offset + 2" "put16 packet offset h" l]
      assms by simp
qed

lemma mod_replace:
  fixes s s' k k' :: nat
  assumes "s' + k = s + k'" "k mod 65535 = k' mod 65535"
  shows "s' mod 65535 = s mod 65535"
proof -
  have "(s' + k) mod 65535 = (s + k') mod 65535" by (simp only: assms(1))
  also have "\<dots> = (s + k) mod 65535" by (rule mod_add_cong) (simp_all only: assms(2))
  finally show ?thesis by (rule mod_add_right_cancel)
qed

lemma rewritten_bounds:
  assumes "ipv4_tcp_or_udp packet = Some (protocol, ihl)" "offset = 12 \<or> offset = 16"
  shows "20 \<le> ihl" "even ihl" "offset + 4 \<le> ihl" "even offset" "12 \<le> offset" "20 \<le> length packet"
    "ihl + 6 \<le> l4_checksum_offset protocol ihl" "ihl \<le> length packet"
    "l4_checksum_offset protocol ihl + 2 \<le> length packet" "even (l4_checksum_offset protocol ihl)"
  using ipv4_tcp_or_udp_Some [OF assms(1)] assms(2) by (auto simp: l4_checksum_offset_def)

lemma length_rewritten:
  assumes "ipv4_tcp_or_udp packet = Some (protocol, ihl)" "offset = 12 \<or> offset = 16"
  shows "length (address_rewritten packet protocol ihl offset a) = length packet"
  using rewritten_bounds [OF assms] by (simp add: address_rewritten_def)

lemma take_checksums_adjusted:
  assumes "ipv4_tcp_or_udp packet = Some (protocol, ihl)" "offset = 12 \<or> offset = 16"
  shows "take ihl (checksums_adjusted packet protocol ihl offset a) =
    put16 (take ihl packet) 10 (ip_checksum_written packet offset a (word_at packet 10))"
  using rewritten_bounds [OF assms] by (simp add: checksums_adjusted_def Let_def take_put16)

lemma header_sum_kept:
  assumes "ipv4_tcp_or_udp packet = Some (protocol, ihl)" "offset = 12 \<or> offset = 16"
  shows "word_sum (take ihl (address_rewritten packet protocol ihl offset a)) mod 65535 =
    word_sum (take ihl packet) mod 65535"
proof -
  note b = rewritten_bounds [OF assms]
  let ?h = "from_be_bytes (oct1 a) (oct2 a)" and ?l = "from_be_bytes (oct3 a) (oct4 a)"
  define H where "H = take ihl packet"
  define c where "c = ip_checksum_written packet offset a (word_at packet 10)"
  define H1 where "H1 = put16 H 10 c"
  have len: "length H = ihl" "length H1 = ihl" using b by (simp_all add: H_def H1_def)
  have eq: "take ihl (address_rewritten packet protocol ihl offset a) =
      put16 (put16 H1 offset ?h) (offset + 2) ?l"
    unfolding address_rewritten_def H1_def H_def c_def take_checksums_adjusted [OF assms, symmetric]
    using b by (simp add: take_put16)
  have w: "word_at H o' = word_at packet o'" if "o' + 2 \<le> ihl" for o'
    using that by (simp add: word_at_def H_def)
  have w1: "word_at H1 o' = word_at packet o'" if "o' + 2 \<le> ihl" "12 \<le> o'" for o'
    unfolding H1_def using that w [of o'] len by (subst word_at_put16_other) auto
  have s1: "word_sum H1 + unat (word_at packet 10) = word_sum H + unat c"
    unfolding H1_def using word_sum_put16 [of 10 H c] len b(1) w [of 10] by simp
  have s2: "word_sum (put16 (put16 H1 offset ?h) (offset + 2) ?l) +
      (unat (word_at packet offset) + unat (word_at packet (offset + 2))) =
      word_sum H1 + (unat ?h + unat ?l)"
    using word_sum_put_address [of offset H1 ?h ?l] len b w1 [of offset] w1 [of "offset + 2"] by simp
  have "word_sum (put16 (put16 H1 offset ?h) (offset + 2) ?l) +
      (unat (word_at packet 10) + unat (word_at packet offset) + unat (word_at packet (offset + 2))) =
      word_sum H + (unat c + unat ?h + unat ?l)"
    using s1 s2 by linarith
  then show ?thesis
    unfolding eq H_def [symmetric]
    by (rule mod_replace) (simp only: c_def ip_checksum_written_sum)
qed

text \<open>The pseudo-header words a rewrite can change, and the segment.\<close>

definition l4_sum :: "bytes \<Rightarrow> nat \<Rightarrow> nat" where
  "l4_sum packet ihl = word_sum (take 8 (drop 12 packet)) + word_sum (drop ihl packet)"

lemma l4_sum_kept:
  assumes "ipv4_tcp_or_udp packet = Some (protocol, ihl)" "offset = 12 \<or> offset = 16"
    and "protocol = 6 \<or> word_at packet (l4_checksum_offset protocol ihl) \<noteq> 0"
  shows "l4_sum (address_rewritten packet protocol ihl offset a) ihl mod 65535 = l4_sum packet ihl mod 65535"
proof -
  note b = rewritten_bounds [OF assms(1,2)]
  let ?h = "from_be_bytes (oct1 a) (oct2 a)" and ?l = "from_be_bytes (oct3 a) (oct4 a)"
  let ?o4 = "l4_checksum_offset protocol ihl"
  define c where "c = ip_checksum_written packet offset a (word_at packet ?o4)"
  define A where "A = take 8 (drop 12 packet)"
  define D where "D = drop ihl packet"
  have adj: "checksums_adjusted packet protocol ihl offset a =
      put16 (put16 packet 10 (ip_checksum_written packet offset a (word_at packet 10))) ?o4 (l4_checksum protocol c)"
    using assms(3) by (simp add: checksums_adjusted_def c_def Let_def)
  have seg: "drop ihl (address_rewritten packet protocol ihl offset a) = put16 D (?o4 - ihl) (l4_checksum protocol c)"
    unfolding address_rewritten_def adj D_def using b by (simp add: drop_put16)
  have lenA: "length A = 8" using b by (simp add: A_def)
  have ps: "take 8 (drop 12 (address_rewritten packet protocol ihl offset a)) =
      put16 (put16 A (offset - 12) ?h) (offset - 12 + 2) ?l"
    unfolding address_rewritten_def adj A_def using b assms(2)
    by (elim disjE) (simp_all add: drop_put16 take_put16 numeral_2_eq_2)
  have wA: "word_at A (o' - 12) = word_at packet o'" if "12 \<le> o'" "o' + 2 \<le> 20" for o'
    using that b(6) by (simp add: word_at_def A_def)
  have wD: "word_at D (?o4 - ihl) = word_at packet ?o4"
    using b by (simp add: word_at_def D_def)
  have off: "offset + 4 \<le> 20" using assms(2) by auto
  have sA: "word_sum (put16 (put16 A (offset - 12) ?h) (offset - 12 + 2) ?l) +
      (unat (word_at packet offset) + unat (word_at packet (offset + 2))) = word_sum A + (unat ?h + unat ?l)"
  proof -
    have e: "offset + 2 - 12 = offset - 12 + 2" using b(5) by simp
    have "word_at A (offset - 12) = word_at packet offset"
      "word_at A (offset - 12 + 2) = word_at packet (offset + 2)"
      using wA [of offset] wA [of "offset + 2"] b(5) off unfolding e by simp_all
    moreover have "offset - 12 + 4 \<le> length A" using lenA off by simp
    moreover have "even (offset - 12)" using b(4) by simp
    ultimately show ?thesis using word_sum_put_address [of "offset - 12" A ?h ?l] by metis
  qed
  have sD: "word_sum (put16 D (?o4 - ihl) (l4_checksum protocol c)) + unat (word_at packet ?o4) =
      word_sum D + unat (l4_checksum protocol c)"
    using word_sum_put16 [of "?o4 - ihl" D "l4_checksum protocol c"] b wD by (simp add: D_def)
  have total: "l4_sum (address_rewritten packet protocol ihl offset a) ihl +
      (unat (word_at packet ?o4) + unat (word_at packet offset) + unat (word_at packet (offset + 2))) =
      l4_sum packet ihl + (unat (l4_checksum protocol c) + unat ?h + unat ?l)"
    using sA sD unfolding l4_sum_def seg ps A_def [symmetric] D_def [symmetric] by linarith
  have "(unat (l4_checksum protocol c) + unat ?h + unat ?l) mod 65535 = (unat c + unat ?h + unat ?l) mod 65535"
    by (intro mod_add_cong refl l4_checksum_mod)
  also have "\<dots> = (unat (word_at packet ?o4) + unat (word_at packet offset) + unat (word_at packet (offset + 2))) mod 65535"
    unfolding c_def by (rule ip_checksum_written_sum)
  finally show ?thesis by (rule mod_replace [OF total sym])
qed


section \<open>What the parsers read after a rewrite\<close>

lemma nth_address_rewritten:
  assumes "ipv4_tcp_or_udp packet = Some (protocol, ihl)" "offset = 12 \<or> offset = 16" "i < length packet"
  shows "address_rewritten packet protocol ihl offset a ! i =
    (if i = offset then oct1 a else if i = offset + 1 then oct2 a
     else if i = offset + 2 then oct3 a else if i = offset + 3 then oct4 a
     else checksums_adjusted packet protocol ihl offset a ! i)"
  using rewritten_bounds [OF assms(1,2)] assms(3)
  by (auto simp: address_rewritten_def nth_put16)

lemma nth_checksums_adjusted:
  assumes "ipv4_tcp_or_udp packet = Some (protocol, ihl)" "offset = 12 \<or> offset = 16" "i < length packet"
    and "i \<notin> {10, 11, l4_checksum_offset protocol ihl, l4_checksum_offset protocol ihl + 1}"
  shows "checksums_adjusted packet protocol ihl offset a ! i = packet ! i"
  using rewritten_bounds [OF assms(1,2)] assms(3,4)
  by (auto simp: checksums_adjusted_def Let_def nth_put16)

lemma ipv4_tcp_or_udp_cong:
  assumes "length q = length packet" "20 \<le> length packet"
    and "q ! 0 = packet ! 0" "q ! 6 = packet ! 6" "q ! 7 = packet ! 7" "q ! 9 = packet ! 9"
  shows "ipv4_tcp_or_udp q = ipv4_tcp_or_udp packet"
proof -
  have g: "get_byte q i = get_byte packet i" if "i \<in> {0, 6, 7, 9}" for i
    using assms that by (auto simp: get_byte_def)
  then have fr: "is_non_first_ipv4_fragment q = is_non_first_ipv4_fragment packet"
    by (simp add: is_non_first_ipv4_fragment_def)
  have g0: "get_byte q 0 = get_byte packet 0" and g9: "get_byte q 9 = get_byte packet 9"
    using g by simp_all
  show ?thesis unfolding ipv4_tcp_or_udp_def g0 g9 fr assms(1) ..
qed

lemma get_slice_4:
  "a + 4 \<le> length packet \<Longrightarrow>
     get_slice packet a (a + 4) = Some [packet ! a, packet ! (a + 1), packet ! (a + 2), packet ! (a + 3)]"
  by (auto simp: get_slice_def intro!: nth_equalityI simp: nth_Cons numeral_eq_Suc split: nat.split)

lemma get_slice_2:
  "a + 2 \<le> length packet \<Longrightarrow> get_slice packet a (a + 2) = Some [packet ! a, packet ! (a + 1)]"
  by (auto simp: get_slice_def intro!: nth_equalityI simp: nth_Cons numeral_eq_Suc split: nat.split)

lemma parse_addresses:
  assumes "ipv4_tcp_or_udp packet = Some (protocol, ihl)"
  shows "parse_destination_ipv4 packet = Some (Ipv4 (packet ! 16) (packet ! 17) (packet ! 18) (packet ! 19))"
    and "parse_source_ipv4 packet = Some (Ipv4 (packet ! 12) (packet ! 13) (packet ! 14) (packet ! 15))"
    and "parse_ipv4_transport packet = transport_from_ip_protocol protocol"
  using get_slice_4 [of 16 packet] get_slice_4 [of 12 packet] ipv4_tcp_or_udp_Some(1,6) [OF assms]
  by (simp_all add: parse_destination_ipv4_def parse_source_ipv4_def parse_ipv4_transport_def assms)

lemma parse_ports:
  assumes "ipv4_tcp_or_udp packet = Some (protocol, ihl)" "f \<le> 2"
  shows "parse_l4_port packet f = Some (word_at packet (ihl + f))"
proof -
  note b = ipv4_tcp_or_udp_Some [OF assms(1)]
  have g: "get_byte packet 0 = Some (packet ! 0)" "get_byte packet 9 = Some (packet ! 9)"
    using b(1,6) by (auto simp: get_byte_def)
  have "l4_header packet = Some (protocol, ihl)"
    unfolding l4_header_def g using b by (simp add: Let_def)
  then show ?thesis
    using b(3,6) assms(2) get_slice_2 [of "ihl + f" packet] by (auto simp: parse_l4_port_def word_at_def)
qed

text \<open>The bytes the parsers look at, left alone by a rewrite of one field and the checksums.\<close>

lemma address_rewritten_header:
  assumes "ipv4_tcp_or_udp packet = Some (protocol, ihl)" "offset = 12 \<or> offset = 16" "i < 10"
  shows "address_rewritten packet protocol ihl offset a ! i = packet ! i"
  using rewritten_bounds [OF assms(1,2)] assms nth_checksums_adjusted [OF assms(1,2), of i a]
  by (subst nth_address_rewritten [OF assms(1,2)]) auto

lemma address_rewritten_parse:
  assumes "ipv4_tcp_or_udp packet = Some (protocol, ihl)" "offset = 12 \<or> offset = 16"
  shows "ipv4_tcp_or_udp (address_rewritten packet protocol ihl offset a) = Some (protocol, ihl)"
  unfolding assms(1) [symmetric]
  using rewritten_bounds [OF assms]
  by (intro ipv4_tcp_or_udp_cong)
    (simp_all add: length_rewritten [OF assms] address_rewritten_header [OF assms])

lemma address_rewritten_ports:
  assumes "ipv4_tcp_or_udp packet = Some (protocol, ihl)" "offset = 12 \<or> offset = 16" "f \<le> 2"
  shows "parse_l4_port (address_rewritten packet protocol ihl offset a) f = parse_l4_port packet f"
proof -
  note b = rewritten_bounds [OF assms(1,2)]
  have "address_rewritten packet protocol ihl offset a ! i = packet ! i" if "i = ihl + f \<or> i = ihl + f + 1" for i
    using that b assms(3) by (auto simp: nth_address_rewritten [OF assms(1,2)] nth_checksums_adjusted [OF assms(1,2)])
  then show ?thesis
    unfolding parse_ports [OF assms(1,3)] parse_ports [OF address_rewritten_parse [OF assms(1,2)] assms(3)]
    by (simp add: word_at_def)
qed


section \<open>Rewriting a port\<close>

definition port_rewritten :: "bytes \<Rightarrow> u8 \<Rightarrow> nat \<Rightarrow> nat \<Rightarrow> u16 \<Rightarrow> bytes" where
  "port_rewritten packet protocol ihl f port =
     (let o4 = l4_checksum_offset protocol ihl; c = word_at packet o4
      in put16 (if protocol = 6 \<or> c \<noteq> 0
                then put16 packet o4 (l4_checksum protocol (checksum_adjust c (word_at packet (ihl + f)) port))
                else packet) (ihl + f) port)"

lemma port_bounds:
  assumes "ipv4_tcp_or_udp packet = Some (protocol, ihl)" "f = 0 \<or> f = 2"
  shows "20 \<le> ihl" "even ihl" "even f" "f \<le> 2" "ihl + f + 2 \<le> length packet" "ihl \<le> length packet"
    "ihl + f + 2 \<le> l4_checksum_offset protocol ihl"
    "l4_checksum_offset protocol ihl + 2 \<le> length packet" "even (l4_checksum_offset protocol ihl)"
    "ihl + 6 \<le> l4_checksum_offset protocol ihl"
  using ipv4_tcp_or_udp_Some [OF assms(1)] assms(2) by (auto simp: l4_checksum_offset_def)

lemma rewrite_l4_port_eq:
  assumes "f = 0 \<or> f = 2"
  shows "rewrite_l4_port packet f port =
    (case ipv4_tcp_or_udp packet of
       None \<Rightarrow> Some (False, packet)
     | Some (protocol, ihl) \<Rightarrow> Some (True, port_rewritten packet protocol ihl f port))"
proof (cases "ipv4_tcp_or_udp packet")
  case None
  then show ?thesis by (simp add: rewrite_l4_port_def)
next
  case (Some r)
  obtain protocol ihl where r: "r = (protocol, ihl)" by force
  define o4 where "o4 = l4_checksum_offset protocol ihl"
  note b = port_bounds [OF Some [unfolded r] assms, folded o4_def]
  have o4: "(if protocol = 6 then ihl + 16 else ihl + 6) = o4"
    by (simp add: l4_checksum_offset_def o4_def)
  show ?thesis
    unfolding rewrite_l4_port_def Some r option.case prod.case o4 Let_def
    using b by (cases "protocol = 6 \<or> word_at packet o4 \<noteq> 0")
      (simp_all add: port_rewritten_def l4_checksum_def Let_def flip: o4_def
        del: add_2_eq_Suc add_2_eq_Suc')
qed

lemma length_port_rewritten:
  assumes "ipv4_tcp_or_udp packet = Some (protocol, ihl)" "f = 0 \<or> f = 2"
  shows "length (port_rewritten packet protocol ihl f port) = length packet"
  using port_bounds [OF assms] by (simp add: port_rewritten_def Let_def)

lemma nth_port_rewritten:
  assumes "ipv4_tcp_or_udp packet = Some (protocol, ihl)" "f = 0 \<or> f = 2" "i < length packet"
    and "i \<notin> {l4_checksum_offset protocol ihl, l4_checksum_offset protocol ihl + 1, ihl + f, ihl + f + 1}"
  shows "port_rewritten packet protocol ihl f port ! i = packet ! i"
  using port_bounds [OF assms(1,2)] assms(3,4) by (auto simp: port_rewritten_def Let_def nth_put16)

lemma take_port_rewritten:
  assumes "ipv4_tcp_or_udp packet = Some (protocol, ihl)" "f = 0 \<or> f = 2" "n \<le> ihl"
  shows "take n (port_rewritten packet protocol ihl f port) = take n packet"
  using port_bounds [OF assms(1,2)] assms(3) by (simp add: port_rewritten_def Let_def take_put16)

lemma word_at_port_rewritten:
  assumes "ipv4_tcp_or_udp packet = Some (protocol, ihl)" "f = 0 \<or> f = 2" "f' = 0 \<or> f' = 2"
  shows "word_at (port_rewritten packet protocol ihl f port) (ihl + f') =
    (if f' = f then port else word_at packet (ihl + f'))"
proof -
  note b = port_bounds [OF assms(1,2)]
  show ?thesis
  proof (cases "f' = f")
    case True
    then show ?thesis using b by (simp add: port_rewritten_def Let_def word_at_put16)
  next
    case False
    then show ?thesis using b assms(2,3)
      by (auto simp: port_rewritten_def Let_def word_at_put16_other)
  qed
qed

lemma port_rewritten_parse:
  assumes "ipv4_tcp_or_udp packet = Some (protocol, ihl)" "f = 0 \<or> f = 2"
  shows "ipv4_tcp_or_udp (port_rewritten packet protocol ihl f port) = Some (protocol, ihl)"
  unfolding assms(1) [symmetric]
proof (rule ipv4_tcp_or_udp_cong)
  note b = port_bounds [OF assms]
  have e: "port_rewritten packet protocol ihl f port ! i = packet ! i" if "i < 20" for i
    using that b by (intro nth_port_rewritten [OF assms]) auto
  show "length (port_rewritten packet protocol ihl f port) = length packet"
    by (rule length_port_rewritten [OF assms])
  show "20 \<le> length packet" using b by simp
qed (use port_bounds [OF assms] in \<open>auto intro!: nth_port_rewritten [OF assms]\<close>)

lemma port_l4_sum_kept:
  assumes "ipv4_tcp_or_udp packet = Some (protocol, ihl)" "f = 0 \<or> f = 2"
    and "protocol = 6 \<or> word_at packet (l4_checksum_offset protocol ihl) \<noteq> 0"
  shows "l4_sum (port_rewritten packet protocol ihl f port) ihl mod 65535 = l4_sum packet ihl mod 65535"
proof -
  define o4 where "o4 = l4_checksum_offset protocol ihl"
  note b = port_bounds [OF assms(1,2), folded o4_def]
  define c where "c = checksum_adjust (word_at packet o4) (word_at packet (ihl + f)) port"
  define D where "D = drop ihl packet"
  define D1 where "D1 = put16 D (o4 - ihl) (l4_checksum protocol c)"
  have q: "port_rewritten packet protocol ihl f port =
      put16 (put16 packet o4 (l4_checksum protocol c)) (ihl + f) port"
    using assms(3) by (simp add: port_rewritten_def c_def Let_def o4_def)
  have seg: "drop ihl (port_rewritten packet protocol ihl f port) = put16 D1 f port"
    unfolding q D1_def D_def using b by (simp add: drop_put16)
  have ps: "take 8 (drop 12 (port_rewritten packet protocol ihl f port)) = take 8 (drop 12 packet)"
    using take_port_rewritten [OF assms(1,2), of 20 port] b by (simp add: take_drop)
  have wD: "word_at D (o' - ihl) = word_at packet o'" if "ihl \<le> o'" "o' + 2 \<le> length packet" for o'
    using that by (simp add: word_at_def D_def)
  have lenD: "length D = length packet - ihl" "length D1 = length packet - ihl"
    using b by (simp_all add: D_def D1_def)
  have sD1: "word_sum D1 + unat (word_at packet o4) = word_sum D + unat (l4_checksum protocol c)"
    unfolding D1_def using word_sum_put16 [of "o4 - ihl" D "l4_checksum protocol c"] b lenD wD [of o4] by simp
  have "word_at D1 f = word_at D f"
    unfolding D1_def using b lenD by (intro word_at_put16_other) auto
  also have "\<dots> = word_at packet (ihl + f)" using wD [of "ihl + f"] b by simp
  finally have sD2: "word_sum (put16 D1 f port) + unat (word_at packet (ihl + f)) = word_sum D1 + unat port"
    using word_sum_put16 [of f D1 port] b lenD by simp
  have total: "l4_sum (port_rewritten packet protocol ihl f port) ihl +
      (unat (word_at packet o4) + unat (word_at packet (ihl + f))) =
      l4_sum packet ihl + (unat (l4_checksum protocol c) + unat port)"
    using sD1 sD2 unfolding l4_sum_def seg ps D_def [symmetric] by linarith
  have "(unat (l4_checksum protocol c) + unat port) mod 65535 = (unat c + unat port) mod 65535"
    by (intro mod_add_cong refl l4_checksum_mod)
  also have "\<dots> = (unat (word_at packet o4) + unat (word_at packet (ihl + f))) mod 65535"
    unfolding c_def by (rule checksum_adjust_sum)
  finally show ?thesis by (rule mod_replace [OF total sym])
qed


section \<open>Properties\<close>

text \<open>
  The bytes a rewrite may write, by the layout of RFC 791, 793 and 768: the header checksum, the two
  addresses, the two ports, and the checksum of TCP at 16 or of UDP at 6 bytes into its header.
\<close>

definition rewritten_field :: "bytes \<Rightarrow> nat \<Rightarrow> bool" where
  "rewritten_field packet i \<longleftrightarrow>
     (let ihl = 4 * (unat (packet ! 0) mod 16);
          checksum = ihl + (if packet ! 9 = 6 then 16 else 6)
      in (10 \<le> i \<and> i < 20) \<or>
         20 \<le> ihl \<and> (ihl \<le> i \<and> i < ihl + 4 \<or> checksum \<le> i \<and> i < checksum + 2))"

definition same_elsewhere :: "bytes \<Rightarrow> bytes \<Rightarrow> bool" where
  "same_elsewhere q packet \<longleftrightarrow>
     length q = length packet \<and> (\<forall>i < length packet. \<not> rewritten_field packet i \<longrightarrow> q ! i = packet ! i)"

lemma same_elsewhere_refl [simp]: "same_elsewhere packet packet"
  by (simp add: same_elsewhere_def)

lemma rewritten_field_low: "i < 10 \<Longrightarrow> \<not> rewritten_field packet i"
  by (simp add: rewritten_field_def Let_def)

lemma same_elsewhere_trans:
  assumes "same_elsewhere r q" "same_elsewhere q packet"
  shows "same_elsewhere r packet"
proof -
  have low: "q ! i = packet ! i" if "i < 10" "i < length packet" for i
    using assms(2) that rewritten_field_low [of i packet] by (simp add: same_elsewhere_def)
  have field: "rewritten_field q i = rewritten_field packet i" if "i < length packet" for i
  proof (cases "i < 10")
    case False
    with that have "9 < length packet" by simp
    then have "q ! 0 = packet ! 0" "q ! 9 = packet ! 9" using low [of 0] low [of 9] by fastforce+
    then show ?thesis by (simp add: rewritten_field_def)
  qed (simp add: rewritten_field_low)
  show ?thesis
    using assms field unfolding same_elsewhere_def by (metis (no_types))
qed

lemma rewritten_field_iff:
  assumes "ipv4_tcp_or_udp packet = Some (protocol, ihl)"
  shows "rewritten_field packet i \<longleftrightarrow> 10 \<le> i \<and> i < 20 \<or> ihl \<le> i \<and> i < ihl + 4 \<or>
    i = l4_checksum_offset protocol ihl \<or> i = l4_checksum_offset protocol ihl + 1"
proof -
  have "unat (packet ! 0 AND 0x0F) = unat (packet ! 0) mod 16"
    using arg_cong [OF take_bit_eq_mask [of 4 "packet ! 0"], of unat]
    by (simp add: mask_eq_exp_minus_1 unsigned_take_bit_eq take_bit_eq_mod unat_mod)
  then have "4 * (unat (packet ! 0) mod 16) = ihl"
    using ipv4_tcp_or_udp_Some(8) [OF assms] by (simp add: ip_header_length_def)
  then show ?thesis
    using ipv4_tcp_or_udp_Some(1,7) [OF assms]
    by (auto simp: rewritten_field_def Let_def l4_checksum_offset_def)
qed

text \<open>What the parsers read of a packet that is the same elsewhere.\<close>

definition reads_as ::
  "bytes \<Rightarrow> bytes \<Rightarrow> ipv4addr option \<Rightarrow> ipv4addr option \<Rightarrow> u16 option \<Rightarrow> u16 option \<Rightarrow> bool" where
  "reads_as q packet source destination source_port destination_port \<longleftrightarrow>
     same_elsewhere q packet \<and> parse_ipv4_transport q = parse_ipv4_transport packet \<and>
     parse_source_ipv4 q = source \<and> parse_destination_ipv4 q = destination \<and>
     parse_source_port q = source_port \<and> parse_destination_port q = destination_port"

lemma address_rewritten_elsewhere:
  assumes "ipv4_tcp_or_udp packet = Some (protocol, ihl)" "offset = 12 \<or> offset = 16"
  shows "same_elsewhere (address_rewritten packet protocol ihl offset a) packet"
  unfolding same_elsewhere_def
proof (intro conjI allI impI)
  fix i assume i: "i < length packet" "\<not> rewritten_field packet i"
  then have "i \<notin> {10, 11, l4_checksum_offset protocol ihl, l4_checksum_offset protocol ihl + 1}"
    "i \<notin> {offset, offset + 1, offset + 2, offset + 3}"
    using assms(2) by (auto simp: rewritten_field_iff [OF assms(1)])
  then show "address_rewritten packet protocol ihl offset a ! i = packet ! i"
    using nth_address_rewritten [OF assms i(1)] nth_checksums_adjusted [OF assms i(1)] by simp
qed (rule length_rewritten [OF assms])

lemma port_rewritten_elsewhere:
  assumes "ipv4_tcp_or_udp packet = Some (protocol, ihl)" "f = 0 \<or> f = 2"
  shows "same_elsewhere (port_rewritten packet protocol ihl f port) packet"
  using length_port_rewritten [OF assms, of port] assms(2)
  by (auto simp: same_elsewhere_def rewritten_field_iff [OF assms(1)] intro!: nth_port_rewritten [OF assms])

lemma address_rewritten_reads:
  assumes "ipv4_tcp_or_udp packet = Some (protocol, ihl)"
  shows "reads_as (address_rewritten packet protocol ihl 16 a) packet (parse_source_ipv4 packet) (Some a)
      (parse_source_port packet) (parse_destination_port packet)"
    and "reads_as (address_rewritten packet protocol ihl 12 a) packet (Some a) (parse_destination_ipv4 packet)
      (parse_source_port packet) (parse_destination_port packet)"
proof -
  note b = rewritten_bounds [OF assms]
  have o4: "26 \<le> l4_checksum_offset protocol ihl" "20 \<le> length packet" using b(1,6,7) [of 12] by auto
  have n: "address_rewritten packet protocol ihl 16 a ! i =
      (if i = 16 then oct1 a else if i = 17 then oct2 a else if i = 18 then oct3 a else if i = 19 then oct4 a
       else packet ! i)"
    "address_rewritten packet protocol ihl 12 a ! i =
      (if i = 12 then oct1 a else if i = 13 then oct2 a else if i = 14 then oct3 a else if i = 15 then oct4 a
       else packet ! i)" if "12 \<le> i" "i < 20" for i
    using that o4 by (simp_all add: nth_address_rewritten [OF assms] nth_checksums_adjusted [OF assms])
  show "reads_as (address_rewritten packet protocol ihl 16 a) packet (parse_source_ipv4 packet) (Some a)
      (parse_source_port packet) (parse_destination_port packet)"
    using address_rewritten_elsewhere [OF assms, of 16 a] address_rewritten_ports [OF assms, of 16 _ a]
    by (simp add: reads_as_def parse_addresses [OF assms] n parse_source_port_def parse_destination_port_def
        parse_addresses [OF address_rewritten_parse [OF assms]])
  show "reads_as (address_rewritten packet protocol ihl 12 a) packet (Some a) (parse_destination_ipv4 packet)
      (parse_source_port packet) (parse_destination_port packet)"
    using address_rewritten_elsewhere [OF assms, of 12 a] address_rewritten_ports [OF assms, of 12 _ a]
    by (simp add: reads_as_def parse_addresses [OF assms] n parse_source_port_def parse_destination_port_def
        parse_addresses [OF address_rewritten_parse [OF assms]])
qed

lemma port_rewritten_reads:
  assumes "ipv4_tcp_or_udp packet = Some (protocol, ihl)"
  shows "reads_as (port_rewritten packet protocol ihl 0 port) packet (parse_source_ipv4 packet)
      (parse_destination_ipv4 packet) (Some port) (parse_destination_port packet)"
    and "reads_as (port_rewritten packet protocol ihl 2 port) packet (parse_source_ipv4 packet)
      (parse_destination_ipv4 packet) (parse_source_port packet) (Some port)"
proof -
  have n: "port_rewritten packet protocol ihl f port ! i = packet ! i" if "f = 0 \<or> f = 2" "i < 20" for f i
    using that port_bounds [OF assms that(1)] by (intro nth_port_rewritten [OF assms]) auto
  show "reads_as (port_rewritten packet protocol ihl 0 port) packet (parse_source_ipv4 packet)
      (parse_destination_ipv4 packet) (Some port) (parse_destination_port packet)"
    using word_at_port_rewritten [OF assms, of 0 0 port] word_at_port_rewritten [OF assms, of 0 2 port]
      port_rewritten_elsewhere [OF assms, of 0 port]
    by (simp add: reads_as_def parse_addresses [OF assms] n parse_source_port_def parse_destination_port_def
        parse_addresses [OF port_rewritten_parse [OF assms]] parse_ports [OF assms]
        parse_ports [OF port_rewritten_parse [OF assms]])
  show "reads_as (port_rewritten packet protocol ihl 2 port) packet (parse_source_ipv4 packet)
      (parse_destination_ipv4 packet) (parse_source_port packet) (Some port)"
    using word_at_port_rewritten [OF assms, of 2 0 port] word_at_port_rewritten [OF assms, of 2 2 port]
      port_rewritten_elsewhere [OF assms, of 2 port]
    by (simp add: reads_as_def parse_addresses [OF assms] n parse_source_port_def parse_destination_port_def
        parse_addresses [OF port_rewritten_parse [OF assms]] parse_ports [OF assms]
        parse_ports [OF port_rewritten_parse [OF assms]])
qed

text \<open>
  C32: each rewrite of an IPv4 packet with a whole TCP or UDP header: the rewritten address or
  port reads back as what was written, the other address and ports read as before, and every
  byte outside the addresses, the ports and the IPv4 and TCP or UDP checksums, and the
  packet's length, is unchanged
\<close>

theorem rewrites_read_back:
  assumes "ipv4_tcp_or_udp packet = Some (protocol, ihl)"
  shows "(\<exists>q. rewrite_destination_ipv4 packet a = Some (True, q) \<and>
      reads_as q packet (parse_source_ipv4 packet) (Some a)
        (parse_source_port packet) (parse_destination_port packet)) \<and>
    (\<exists>q. rewrite_source_ipv4 packet a = Some (True, q) \<and>
      reads_as q packet (Some a) (parse_destination_ipv4 packet)
        (parse_source_port packet) (parse_destination_port packet)) \<and>
    (\<exists>q. rewrite_source_port packet port = Some (True, q) \<and>
      reads_as q packet (parse_source_ipv4 packet) (parse_destination_ipv4 packet)
        (Some port) (parse_destination_port packet)) \<and>
    (\<exists>q. rewrite_destination_port packet port = Some (True, q) \<and>
      reads_as q packet (parse_source_ipv4 packet) (parse_destination_ipv4 packet)
        (parse_source_port packet) (Some port))"
  using address_rewritten_reads [OF assms] port_rewritten_reads [OF assms]
  by (simp add: rewrite_destination_ipv4_def rewrite_source_ipv4_def rewrite_source_port_def
      rewrite_destination_port_def rewrite_ipv4_address_eq rewrite_l4_port_eq assms)

text \<open>The checksums of a packet with this header, and their being kept.\<close>

definition checksums_kept :: "bytes \<Rightarrow> bytes \<Rightarrow> u8 \<Rightarrow> nat \<Rightarrow> bool" where
  "checksums_kept q packet protocol ihl \<longleftrightarrow>
     word_sum (take ihl q) mod 65535 = word_sum (take ihl packet) mod 65535 \<and>
     (if protocol = 17 \<and> word_at packet (ihl + 6) = 0 then word_at q (ihl + 6) = 0
      else l4_sum q ihl mod 65535 = l4_sum packet ihl mod 65535 \<and>
        (protocol = 6 \<or> word_at q (ihl + 6) \<noteq> 0))"

lemma l4_checksum_17: "l4_checksum 17 c \<noteq> 0"
  by (simp add: l4_checksum_def)

lemma address_rewritten_udp:
  assumes "ipv4_tcp_or_udp packet = Some (17, ihl)" "offset = 12 \<or> offset = 16"
  shows "word_at (address_rewritten packet 17 ihl offset a) (ihl + 6) = 0 \<longleftrightarrow> word_at packet (ihl + 6) = 0"
proof -
  note b = rewritten_bounds [OF assms]
  have o4: "l4_checksum_offset 17 ihl = ihl + 6" by (simp add: l4_checksum_offset_def)
  have "word_at (address_rewritten packet 17 ihl offset a) (ihl + 6) =
      word_at (checksums_adjusted packet 17 ihl offset a) (ihl + 6)"
    using b by (simp add: address_rewritten_def word_at_put16_other o4)
  then show ?thesis
    using b l4_checksum_17
    by (simp add: checksums_adjusted_def Let_def o4 word_at_put16 word_at_put16_other)
qed

lemma port_rewritten_udp:
  assumes "ipv4_tcp_or_udp packet = Some (17, ihl)" "f = 0 \<or> f = 2"
  shows "word_at (port_rewritten packet 17 ihl f port) (ihl + 6) = 0 \<longleftrightarrow> word_at packet (ihl + 6) = 0"
  using port_bounds [OF assms] l4_checksum_17
  by (simp add: port_rewritten_def Let_def l4_checksum_offset_def word_at_put16 word_at_put16_other)

lemma address_checksums_kept:
  assumes "ipv4_tcp_or_udp packet = Some (protocol, ihl)" "offset = 12 \<or> offset = 16"
  shows "checksums_kept (address_rewritten packet protocol ihl offset a) packet protocol ihl"
  using header_sum_kept [OF assms, of a] l4_sum_kept [OF assms, of a] ipv4_tcp_or_udp_Some(3) [OF assms(1)]
    address_rewritten_udp [of packet ihl offset a] assms
  by (auto simp: checksums_kept_def l4_checksum_offset_def)

lemma port_checksums_kept:
  assumes "ipv4_tcp_or_udp packet = Some (protocol, ihl)" "f = 0 \<or> f = 2"
  shows "checksums_kept (port_rewritten packet protocol ihl f port) packet protocol ihl"
  using take_port_rewritten [OF assms order_refl, of port] port_l4_sum_kept [OF assms, of port]
    ipv4_tcp_or_udp_Some(3) [OF assms(1)] port_rewritten_udp [of packet ihl f port] assms
  by (auto simp: checksums_kept_def l4_checksum_offset_def)

text \<open>
  C31: the incremental updates keep the IPv4 header checksum and the TCP or UDP checksum
  right: a packet that carried correct ones before a rewrite carries correct ones after
\<close>

theorem rewrites_keep_checksums:
  assumes "ipv4_tcp_or_udp packet = Some (protocol, ihl)"
  shows "(\<exists>q. rewrite_destination_ipv4 packet a = Some (True, q) \<and> checksums_kept q packet protocol ihl) \<and>
    (\<exists>q. rewrite_source_ipv4 packet a = Some (True, q) \<and> checksums_kept q packet protocol ihl) \<and>
    (\<exists>q. rewrite_source_port packet port = Some (True, q) \<and> checksums_kept q packet protocol ihl) \<and>
    (\<exists>q. rewrite_destination_port packet port = Some (True, q) \<and> checksums_kept q packet protocol ihl)"
  using address_checksums_kept [OF assms] port_checksums_kept [OF assms]
  by (simp add: rewrite_destination_ipv4_def rewrite_source_ipv4_def rewrite_source_port_def
      rewrite_destination_port_def rewrite_ipv4_address_eq rewrite_l4_port_eq assms)

theorem rewrites_refuse_untouched:
  "(rewrite_destination_ipv4 packet a = Some (False, packet) \<longleftrightarrow> ipv4_tcp_or_udp packet = None) \<and>
   (rewrite_source_ipv4 packet a = Some (False, packet) \<longleftrightarrow> ipv4_tcp_or_udp packet = None) \<and>
   (rewrite_source_port packet port = Some (False, packet) \<longleftrightarrow> ipv4_tcp_or_udp packet = None) \<and>
   (rewrite_destination_port packet port = Some (False, packet) \<longleftrightarrow> ipv4_tcp_or_udp packet = None) \<and>
   rewrite_destination_ipv4 packet a \<noteq> None \<and> rewrite_source_ipv4 packet a \<noteq> None \<and>
   rewrite_source_port packet port \<noteq> None \<and> rewrite_destination_port packet port \<noteq> None"
  by (simp add: rewrite_destination_ipv4_def rewrite_source_ipv4_def rewrite_source_port_def
      rewrite_destination_port_def rewrite_ipv4_address_eq rewrite_l4_port_eq split: option.split) auto

text \<open>A TCP SYN from 10.0.0.1:40100 to 100.64.0.9:443.\<close>

definition ex_packet :: bytes where
  "ex_packet = [0x45, 0, 0, 40, 0, 0, 0x40, 0, 64, 6, 0x39, 0x85, 10, 0, 0, 1, 100, 64, 0, 9,
     0x9C, 0xA4, 0x01, 0xBB, 0, 0, 0, 1, 0, 0, 0, 0, 0x50, 2, 0xFF, 0xFF, 0x12, 0x34, 0, 0]"

lemma ex_packet_parsed: "ipv4_tcp_or_udp ex_packet = Some (6, 20)"
  by code_simp

lemma rewrites_read_back_witness:
  "\<exists>q. rewrite_destination_ipv4 ex_packet (Ipv4 10 0 0 5) = Some (True, q) \<and>
     parse_destination_ipv4 q = Some (Ipv4 10 0 0 5) \<and> parse_source_port q = Some 40100"
proof -
  have "parse_source_port ex_packet = Some 40100" by code_simp
  then show ?thesis
    using rewrites_read_back [OF ex_packet_parsed, of "Ipv4 10 0 0 5" 0] by (auto simp: reads_as_def)
qed

lemma rewrites_keep_checksums_witness:
  "\<exists>q. rewrite_source_port ex_packet 1024 = Some (True, q) \<and> l4_sum q 20 mod 65535 = l4_sum ex_packet 20 mod 65535"
  using rewrites_keep_checksums [OF ex_packet_parsed, of "Ipv4 10 0 0 5" 1024] by (auto simp: checksums_kept_def)

end
