(* ===== verification/Source_Ports.thy ===== *)
theory Source_Ports
  imports Flow_Table
begin

text \<open>
  The search for a free source port (\<open>FlowTable::allocate_source_port\<close>): its candidates run
  through the whole range once, whatever the cursor, so it fails only when every port of the range
  is taken; a port it returns is free and in the range.
\<close>

section \<open>Source-port search\<close>

text \<open>The candidate of one iteration of the search, in the natural numbers.\<close>

definition candidate_at :: "u16 \<Rightarrow> u16 \<Rightarrow> u32 \<Rightarrow> nat \<Rightarrow> u16" where
  "candidate_at first start width k =
     first + ucast ((ucast (start - first) + of_nat k) mod width)"

lemma search_source_port_candidates:
  "search_source_port used first start width (of_nat k) n =
     map_option (candidate_at first start width) (find (\<lambda>i. \<not> used (candidate_at first start width i)) [k..<k + n])"
proof (induction n arbitrary: k)
  case 0
  then show ?case by simp
next
  case (Suc n)
  have up: "[k..<k + Suc n] = k # [Suc k..<Suc k + n]"
    by (simp add: upt_conv_Cons)
  have step: "(of_nat k :: u32) + 1 = of_nat (Suc k)" by simp
  show ?case
    unfolding up search_source_port.simps Let_def step
    using Suc.IH [of "Suc k"] by (simp add: candidate_at_def)
qed

lemma unat_width:
  fixes first last :: u16
  assumes "first \<le> last"
  shows "unat (ucast (last - first) + 1 :: u32) = unat last - unat first + 1"
proof -
  have l: "unat last < 65536" by (rule unat_u16_bound)
  have d: "unat (last - first) = unat last - unat first"
    using assms by (simp add: unat_sub)
  have u: "unat (ucast (last - first) :: u32) = unat last - unat first"
    by (simp add: unat_ucast_u16_u32 d)
  show ?thesis
    using l u by (subst unat_word_ariths) simp
qed

lemma unat_candidate_at:
  fixes first last start :: u16
  assumes "first \<le> start" "start \<le> last" "k < 65536"
  shows "unat (candidate_at first start (ucast (last - first) + 1) k) =
    unat first + (unat start - unat first + k) mod (unat last - unat first + 1)"
proof -
  let ?w = "ucast (last - first) + 1 :: u32"
  have fl: "first \<le> last" using assms by simp
  have l: "unat last < 65536" "unat start < 65536" by (rule unat_u16_bound)+
  have ord: "unat first \<le> unat start" "unat start \<le> unat last"
    using assms by (simp_all add: word_le_nat_alt)
  have d: "unat (start - first) = unat start - unat first"
    using assms by (simp add: unat_sub)
  have u: "unat (ucast (start - first) :: u32) = unat start - unat first"
    by (simp add: unat_ucast_u16_u32 d)
  have s: "unat ((ucast (start - first) :: u32) + of_nat k) = unat start - unat first + k"
    using l assms(3) u by (subst unat_word_ariths) (simp add: unat_of_nat)
  have m: "unat (((ucast (start - first) :: u32) + of_nat k) mod ?w) =
      (unat start - unat first + k) mod (unat last - unat first + 1)"
    by (simp add: unat_mod s unat_width [OF fl])
  have lt: "(unat start - unat first + k) mod (unat last - unat first + 1) < unat last - unat first + 1"
    by simp
  have c: "unat (ucast (((ucast (start - first) :: u32) + of_nat k) mod ?w) :: u16) =
      (unat start - unat first + k) mod (unat last - unat first + 1)"
    using unat_ucast_u32_u16 [of "((ucast (start - first) :: u32) + of_nat k) mod ?w"] m lt l ord by linarith
  have "unat first + (unat start - unat first + k) mod (unat last - unat first + 1) < 65536"
    using lt l ord by linarith
  moreover have "(65536 :: nat) = 2 ^ LENGTH(16)" by simp
  ultimately have b:
    "unat first + (unat start - unat first + k) mod (unat last - unat first + 1) < 2 ^ LENGTH(16)"
    by (simp only:)
  show ?thesis
    unfolding candidate_at_def by (simp only: unat_word_ariths(1) c mod_less [OF b])
qed

lemma candidate_in_range:
  fixes first last start :: u16
  assumes "first \<le> start" "start \<le> last" "k < 65536"
  shows "first \<le> candidate_at first start (ucast (last - first) + 1) k"
    and "candidate_at first start (ucast (last - first) + 1) k \<le> last"
proof -
  let ?c = "candidate_at first start (ucast (last - first) + 1) k"
  have ord: "unat first \<le> unat start" "unat start \<le> unat last"
    using assms by (simp_all add: word_le_nat_alt)
  have "unat ?c = unat first + (unat start - unat first + k) mod (unat last - unat first + 1)"
    using unat_candidate_at [OF assms] .
  moreover have "(unat start - unat first + k) mod (unat last - unat first + 1) < unat last - unat first + 1"
    by simp
  ultimately have "unat first \<le> unat ?c" "unat ?c \<le> unat last" using ord by linarith+
  then show "first \<le> ?c" "?c \<le> last" by (simp_all add: word_le_nat_alt)
qed

lemma every_port_is_a_candidate:
  fixes first last start p :: u16
  assumes "first \<le> start" "start \<le> last" "first \<le> p" "p \<le> last"
  shows "\<exists>k < unat last - unat first + 1. candidate_at first start (ucast (last - first) + 1) k = p"
proof -
  let ?W = "unat last - unat first + 1"
  have ord: "unat first \<le> unat start" "unat start \<le> unat last" "unat first \<le> unat p" "unat p \<le> unat last"
    using assms by (simp_all add: word_le_nat_alt)
  have l: "unat last < 65536" by (rule unat_u16_bound)
  let ?s = "unat start - unat first" and ?q = "unat p - unat first"
  define k where "k = (if ?s \<le> ?q then ?q - ?s else ?q + ?W - ?s)"
  have kW: "k < ?W" using ord unfolding k_def by auto
  have "(?s + k) mod ?W = ?q"
  proof (cases "?s \<le> ?q")
    case True
    then have "?s + k = ?q" by (simp add: k_def)
    moreover have "?q < ?W" using ord by linarith
    ultimately show ?thesis by simp
  next
    case False
    then have "?s + k = ?q + ?W" using ord by (simp add: k_def)
    moreover have "?q < ?W" using ord by linarith
    ultimately show ?thesis by (metis mod_add_self2 mod_less)
  qed
  moreover have "k < 65536" using kW l by linarith
  ultimately have "unat (candidate_at first start (ucast (last - first) + 1) k) = unat p"
    using unat_candidate_at [OF assms(1,2), of k] ord by simp
  with kW show ?thesis by (blast intro: word_unat_eqI)
qed

text \<open>
  The start of the search lies in the range, so the search succeeds exactly when a port of the
  range is free, with a free port of the range.
\<close>

definition range_ok :: "u16 \<times> u16 \<Rightarrow> bool" where
  "range_ok r \<longleftrightarrow> fst r \<le> snd r"

definition in_range :: "u16 \<times> u16 \<Rightarrow> u16 \<Rightarrow> bool" where
  "in_range r p \<longleftrightarrow> fst r \<le> p \<and> p \<le> snd r"

lemma allocate_source_port_Some:
  assumes "range_ok r"
    and "allocate_source_port allocs cursors r tr target = (Some p, cursors')"
  shows "in_range r p \<and> \<not> hm_contains allocs (tr, fst target, snd target, p)"
proof -
  obtain first last where r: "r = (first, last)" by force
  define start where "start = (case hm_get cursors (tr, fst target, snd target) of
      Some port \<Rightarrow> if first \<le> port \<and> port \<le> last then port else first | None \<Rightarrow> first)"
  have fl: "first \<le> last" using assms(1) r by (simp add: range_ok_def)
  then have st: "first \<le> start" "start \<le> last" by (auto simp: start_def split: option.splits)
  let ?w = "ucast (last - first) + 1 :: u32"
  let ?used = "\<lambda>c. hm_contains allocs (tr, fst target, snd target, c)"
  have "search_source_port ?used first start ?w 0 (unat ?w) = Some p"
    using assms(2) by (auto simp: allocate_source_port_def r start_def Let_def split: option.splits)
  then have m: "map_option (candidate_at first start ?w)
      (find (\<lambda>i. \<not> ?used (candidate_at first start ?w i)) [0..<unat ?w]) = Some p"
    using search_source_port_candidates [of ?used first start ?w 0 "unat ?w"] by simp
  then obtain k where f: "find (\<lambda>i. \<not> ?used (candidate_at first start ?w i)) [0..<unat ?w] = Some k"
    and p: "candidate_at first start ?w k = p"
    using map_option_eq_Some [THEN iffD1, OF m] by blast
  from f have k: "k < unat ?w" "candidate_at first start ?w k = p" "\<not> ?used p"
    using p by (auto simp: find_Some_iff)
  have "unat last < 65536" by (rule unat_u16_bound)
  then have "k < 65536" using k(1) unat_width [OF fl] by simp
  then show ?thesis
    using candidate_in_range [OF st] k by (auto simp: in_range_def r)
qed

lemma allocate_source_port_None:
  assumes "range_ok r"
  shows "fst (allocate_source_port allocs cursors r tr target) = None \<longleftrightarrow>
    (\<forall>p. in_range r p \<longrightarrow> hm_contains allocs (tr, fst target, snd target, p))"
proof -
  obtain first last where r: "r = (first, last)" by force
  define start where "start = (case hm_get cursors (tr, fst target, snd target) of
      Some port \<Rightarrow> if first \<le> port \<and> port \<le> last then port else first | None \<Rightarrow> first)"
  have fl: "first \<le> last" using assms(1) r by (simp add: range_ok_def)
  then have st: "first \<le> start" "start \<le> last" by (auto simp: start_def split: option.splits)
  let ?w = "ucast (last - first) + 1 :: u32"
  let ?used = "\<lambda>c. hm_contains allocs (tr, fst target, snd target, c)"
  have w: "unat ?w = unat last - unat first + 1" by (rule unat_width [OF fl])
  have l: "unat last < 65536" by (rule unat_u16_bound)
  have "fst (allocate_source_port allocs cursors r tr target) = None \<longleftrightarrow>
      search_source_port ?used first start ?w 0 (unat ?w) = None"
    by (auto simp: allocate_source_port_def r start_def Let_def split: option.splits)
  also have "\<dots> \<longleftrightarrow> (\<forall>k < unat ?w. ?used (candidate_at first start ?w k))"
    using search_source_port_candidates [of ?used first start ?w 0 "unat ?w"]
    by (auto simp: find_None_iff)
  also have "\<dots> \<longleftrightarrow> (\<forall>p. in_range r p \<longrightarrow> ?used p)"
  proof
    assume all: "\<forall>k < unat ?w. ?used (candidate_at first start ?w k)"
    show "\<forall>p. in_range r p \<longrightarrow> ?used p"
      using every_port_is_a_candidate [OF st] all unfolding in_range_def r w by force
  next
    assume all: "\<forall>p. in_range r p \<longrightarrow> ?used p"
    show "\<forall>k < unat ?w. ?used (candidate_at first start ?w k)"
    proof (intro allI impI)
      fix k assume "k < unat ?w"
      then have "k < 65536" using w l by linarith
      then show "?used (candidate_at first start ?w k)"
        using all candidate_in_range [OF st] by (simp add: in_range_def r)
    qed
  qed
  finally show ?thesis .
qed

lemma allocate_source_port_None_cursors:
  "allocate_source_port allocs cursors r tr target = (None, cursors') \<Longrightarrow> cursors' = cursors"
  by (auto simp: allocate_source_port_def Let_def split: option.splits)

lemma allocate_source_port_hm_ok:
  "hm_ok cursors \<Longrightarrow> hm_ok (snd (allocate_source_port allocs cursors r tr target))"
  by (auto simp: allocate_source_port_def Let_def hm_oks split: option.splits)

end
