(* ===== verification/Flow_Table_Inv.thy ===== *)
theory Flow_Table_Inv
  imports Source_Ports
begin

text \<open>
  The representation invariant \<open>ft_inv\<close> of the flow table: the reply index is the exact inverse of
  the allocations the flows own, the port index lists exactly the flows without an identity, the
  bounded tables stay within their bounds. Removal of flows, one or many, keeps it.
\<close>

section \<open>The invariant\<close>

text \<open>A flow owns the allocation key of its dialled transport and its allocation.\<close>

definition owns :: "(flow_key, admitted_flow) hmap \<Rightarrow> flow_key \<Rightarrow> allocation_key \<Rightarrow> bool" where
  "owns flows key ak \<longleftrightarrow>
     (case (fk_dialled key, Option.bind (hm_get flows key) af_allocation) of
        (Some d, Some a) \<Rightarrow> ak = allocation_key_of (dl_transport d) a
      | _ \<Rightarrow> False)"

text \<open>\<open>dialled_by_allocation\<close> is exactly the inverse of the allocations of the flows.\<close>

definition alloc_ok :: "(flow_key, admitted_flow) hmap \<Rightarrow> (allocation_key, flow_key) hmap \<Rightarrow> bool" where
  "alloc_ok flows by_alloc \<longleftrightarrow> hm_ok by_alloc \<and>
     (\<forall>ak key. hm_get by_alloc ak = Some key \<longleftrightarrow> owns flows key ak)"

text \<open>\<open>nodes_by_port\<close> is exactly the index of the flows without an identity.\<close>

definition nodes_at :: "(u16, string list) hmap \<Rightarrow> u16 \<Rightarrow> string list" where
  "nodes_at index port = (case hm_get index port of None \<Rightarrow> [] | Some nodes \<Rightarrow> nodes)"

definition index_ok :: "(flow_key, admitted_flow) hmap \<Rightarrow> (u16, string list) hmap \<Rightarrow> bool" where
  "index_ok flows index \<longleftrightarrow> hm_ok index \<and>
     (\<forall>port. hm_get index port \<noteq> Some [] \<and> distinct (nodes_at index port)) \<and>
     (\<forall>node_id port. node_id \<in> set (nodes_at index port) \<longleftrightarrow>
        hm_contains flows (flow_key_new node_id port None))"

text \<open>What an entry of \<open>flows\<close> looks like, with and without an identity.\<close>

definition flow_ok :: "u16 \<times> u16 \<Rightarrow> string list \<Rightarrow> flow_key \<Rightarrow> admitted_flow \<Rightarrow> bool" where
  "flow_ok r dialled_nodes key flow \<longleftrightarrow>
     (case fk_dialled key of
        Some d \<Rightarrow> af_virtual_address flow = Some (dl_gateway_address d) \<and> af_served flow = None \<and>
          fk_node_id key \<in> set dialled_nodes \<and>
          (\<forall>a. af_allocation flow = Some a \<longrightarrow> in_range r (al_port a))
      | None \<Rightarrow> af_allocation flow = None)"

definition flows_ok :: "u16 \<times> u16 \<Rightarrow> string list \<Rightarrow> (flow_key, admitted_flow) hmap \<Rightarrow> bool" where
  "flows_ok r dialled_nodes flows \<longleftrightarrow> hm_ok flows \<and>
     (\<forall>key flow. hm_get flows key = Some flow \<longrightarrow> flow_ok r dialled_nodes key flow)"

text \<open>A bounded port table: its order lists its keys once, at most 256 of them.\<close>

definition port_table_ok :: "(u16, string) hmap \<times> u16 list \<Rightarrow> bool" where
  "port_table_ok mo \<longleftrightarrow> hm_ok (fst mo) \<and> distinct (snd mo) \<and>
     (\<forall>port. port \<in> set (snd mo) \<longleftrightarrow> hm_contains (fst mo) port) \<and>
     length (snd mo) \<le> MAX_TRACKED_CONTROL_CHANNEL_PORTS"

definition pending_ok :: "(flow_key, bytes \<times> instant) hmap \<Rightarrow> bool" where
  "pending_ok pending \<longleftrightarrow> hm_ok pending \<and> length pending \<le> MAX_PENDING_PACKETS"

text \<open>A flow is never both admitted and remembered as ended by a rule change.\<close>

definition ended_ok :: "(flow_key, admitted_flow) hmap \<Rightarrow> (flow_key, instant) hmap \<Rightarrow> bool" where
  "ended_ok flows ended \<longleftrightarrow> hm_ok ended \<and> length ended \<le> MAX_RULE_ENDED_FLOWS \<and>
     (\<forall>key. hm_contains ended key \<longrightarrow> \<not> hm_contains flows key)"

definition ft_inv :: "flow_table \<Rightarrow> bool" where
  "ft_inv t \<longleftrightarrow>
     range_ok (port_range t) \<and> distinct (ft_dialled_nodes t) \<and>
     flows_ok (port_range t) (ft_dialled_nodes t) (ft_flows t) \<and>
     alloc_ok (ft_flows t) (ft_by_allocation t) \<and>
     index_ok (ft_flows t) (ft_nodes_by_port t) \<and>
     ended_ok (ft_flows t) (ft_rule_ended t) \<and>
     pending_ok (ft_pending t) \<and>
     port_table_ok (ft_control_ports t, ft_control_order t) \<and>
     port_table_ok (ft_outbound_ports t, ft_outbound_order t) \<and>
     hm_ok (ft_recently_released t) \<and> hm_ok (ft_next_source_port t) \<and> hm_ok (ft_gateway_rules t)"

lemma port_range_update [simp]:
  "port_range (t\<lparr>ft_flows := a\<rparr>) = port_range t"
  "port_range (t\<lparr>ft_nodes_by_port := b\<rparr>) = port_range t"
  "port_range (t\<lparr>ft_control_ports := c\<rparr>) = port_range t"
  "port_range (t\<lparr>ft_control_order := d\<rparr>) = port_range t"
  "port_range (t\<lparr>ft_outbound_ports := c\<rparr>) = port_range t"
  "port_range (t\<lparr>ft_outbound_order := d\<rparr>) = port_range t"
  "port_range (t\<lparr>ft_pending := e\<rparr>) = port_range t"
  "port_range (t\<lparr>ft_recently_released := f\<rparr>) = port_range t"
  "port_range (t\<lparr>ft_by_allocation := g\<rparr>) = port_range t"
  "port_range (t\<lparr>ft_next_source_port := h\<rparr>) = port_range t"
  "port_range (t\<lparr>ft_dialled_nodes := i\<rparr>) = port_range t"
  "port_range (t\<lparr>ft_gateway_rules := j\<rparr>) = port_range t"
  "port_range (t\<lparr>ft_rule_ended := k\<rparr>) = port_range t"
  by (simp_all add: port_range_def)

lemma flow_key_eqI:
  "fk_node_id k = n \<Longrightarrow> fk_port k = p \<Longrightarrow> fk_dialled k = d \<Longrightarrow> k = flow_key_new n p d"
  by (cases k) (simp add: flow_key_new_def)

lemma flow_key_new_inject [simp]:
  "flow_key_new n p d = flow_key_new n' p' d' \<longleftrightarrow> n = n' \<and> p = p' \<and> d = d'"
  by (simp add: flow_key_new_def)

lemma flow_key_new_sel [simp]:
  "fk_node_id (flow_key_new n p d) = n" "fk_port (flow_key_new n p d) = p"
  "fk_dialled (flow_key_new n p d) = d"
  by (simp_all add: flow_key_new_def)

lemma hm_contains_simps [simp]:
  "hm_contains (hm_insert k v m) k' \<longleftrightarrow> k' = k \<or> hm_contains m k'"
  "hm_contains (hm_remove k m) k' \<longleftrightarrow> k' \<noteq> k \<and> hm_contains m k'"
  "hm_contains (hm_map f m) k' \<longleftrightarrow> hm_contains m k'"
  "\<not> hm_contains [] k'"
  by (auto simp: hm_contains_def hm_simps)

lemma nodes_at_simps [simp]:
  "nodes_at (hm_insert p ns index) p' = (if p' = p then ns else nodes_at index p')"
  "nodes_at (hm_remove p index) p' = (if p' = p then [] else nodes_at index p')"
  by (simp_all add: nodes_at_def hm_simps)

lemma ft_inv_new: "ft_inv flow_table_new"
  by (simp add: ft_inv_def flow_table_new_def range_ok_def port_range_def SOURCE_PORT_RANGE_def
      flows_ok_def alloc_ok_def owns_def index_ok_def nodes_at_def ended_ok_def pending_ok_def
      port_table_ok_def hm_contains_def split: option.splits)

section \<open>Removing a flow\<close>

lemma index_ok_deindex:
  assumes "index_ok flows index" "fk_dialled key = None" "hm_contains flows key"
  shows "index_ok (hm_remove key flows)
    (case hm_get index (fk_port key) of
       None \<Rightarrow> index
     | Some nodes \<Rightarrow>
         (let nodes = hs_remove (fk_node_id key) nodes
          in if nodes = [] then hm_remove (fk_port key) index
             else hm_insert (fk_port key) nodes index))"
proof -
  have key: "key = flow_key_new (fk_node_id key) (fk_port key) None"
    using assms(2) by (intro flow_key_eqI) auto
  have other: "flow_key_new n p None = key \<longleftrightarrow> n = fk_node_id key \<and> p = fk_port key" for n p
    by (subst key) simp
  obtain nodes where nodes: "hm_get index (fk_port key) = Some nodes"
    using assms key unfolding index_ok_def nodes_at_def
    by (metis empty_iff list.set(1) option.case_eq_if option.collapse)
  have mem: "n \<in> set nodes \<longleftrightarrow> hm_contains flows (flow_key_new n (fk_port key) None)" for n
    using assms(1) nodes unfolding index_ok_def nodes_at_def by (metis option.simps(5))
  have gone: "hs_remove (fk_node_id key) nodes = [] \<Longrightarrow> hm_contains flows (flow_key_new n (fk_port key) None)
      \<Longrightarrow> n = fk_node_id key" for n
    using mem [of n] by (metis Diff_iff empty_iff insertE list.set(1) set_hs_remove)
  have dist: "distinct nodes"
    using assms(1) nodes unfolding index_ok_def nodes_at_def by (metis option.simps(5))
  show ?thesis
    using assms(1) nodes mem gone dist unfolding index_ok_def
    by (auto simp: Let_def hm_oks hm_simps other)
qed

lemma index_ok_remove_dialled:
  "index_ok flows index \<Longrightarrow> fk_dialled key = Some d \<Longrightarrow> index_ok (hm_remove key flows) index"
  by (auto simp: index_ok_def flow_key_new_def)

lemma owns_hm_remove: "owns (hm_remove key flows) k ak \<longleftrightarrow> k \<noteq> key \<and> owns flows k ak"
  by (auto simp: owns_def hm_simps split: option.splits)

lemma alloc_ok_remove_owned:
  assumes "alloc_ok flows ba" "fk_dialled key = Some d" "hm_get flows key = Some flow"
    "af_allocation flow = Some a"
  shows "alloc_ok (hm_remove key flows) (hm_remove (allocation_key_of (dl_transport d) a) ba)"
proof -
  let ?ak = "allocation_key_of (dl_transport d) a"
  have only: "owns flows key ak \<longleftrightarrow> ak = ?ak" for ak
    using assms(2-4) by (simp add: owns_def)
  have uniq: "owns flows k ?ak \<longleftrightarrow> k = key" for k
    using assms(1) only unfolding alloc_ok_def by (metis option.inject)
  have inverse: "hm_get ba ak = Some k \<longleftrightarrow> owns flows k ak" for ak k
    using assms(1) unfolding alloc_ok_def by (elim conjE) (erule allE, erule allE)
  have "hm_get (hm_remove ?ak ba) ak = Some k \<longleftrightarrow> owns (hm_remove key flows) k ak" for ak k
    by (cases "ak = ?ak"; cases "k = key") (simp_all add: hm_simps owns_hm_remove inverse only uniq)
  then show ?thesis using assms(1) by (simp add: alloc_ok_def hm_oks)
qed

lemma alloc_ok_remove_unowned:
  assumes "alloc_ok flows ba" "hm_get flows key = Some flow"
    "fk_dialled key = None \<or> af_allocation flow = None"
  shows "alloc_ok (hm_remove key flows) ba"
  using assms unfolding alloc_ok_def
  by (auto simp: hm_simps owns_def split: option.splits if_splits)

lemma flows_ok_remove: "flows_ok r dn flows \<Longrightarrow> flows_ok r dn (hm_remove key flows)"
  by (simp add: flows_ok_def hm_oks hm_simps)

lemma ended_ok_remove: "ended_ok flows ended \<Longrightarrow> ended_ok (hm_remove key flows) ended"
  by (auto simp: ended_ok_def)

text \<open>\<open>remove_flow\<close> field by field: only the flow, its allocation and its index entry change.\<close>

lemma remove_flow_frame [simp]:
  "ft_control_ports (remove_flow key t) = ft_control_ports t"
  "ft_control_order (remove_flow key t) = ft_control_order t"
  "ft_outbound_ports (remove_flow key t) = ft_outbound_ports t"
  "ft_outbound_order (remove_flow key t) = ft_outbound_order t"
  "ft_pending (remove_flow key t) = ft_pending t"
  "ft_recently_released (remove_flow key t) = ft_recently_released t"
  "ft_next_source_port (remove_flow key t) = ft_next_source_port t"
  "ft_source_port_range (remove_flow key t) = ft_source_port_range t"
  "ft_dialled_nodes (remove_flow key t) = ft_dialled_nodes t"
  "ft_gateway_rules (remove_flow key t) = ft_gateway_rules t"
  "ft_rule_ended (remove_flow key t) = ft_rule_ended t"
  by (simp_all add: remove_flow_def deindex_def Let_def split: option.splits)

lemma port_range_remove_flow [simp]: "port_range (remove_flow key t) = port_range t"
  by (simp add: port_range_def)

lemma remove_flow_flows:
  "hm_get (ft_flows (remove_flow key t)) k = (if k = key then None else hm_get (ft_flows t) k)"
  by (auto simp: remove_flow_def deindex_def Let_def hm_simps split: option.splits)

lemma remove_flow_inv:
  assumes "ft_inv t"
  shows "ft_inv (remove_flow key t)"
proof (cases "hm_get (ft_flows t) key")
  case None
  then show ?thesis using assms by (simp add: remove_flow_def)
next
  case (Some flow)
  have fl: "ft_flows (remove_flow key t) = hm_remove key (ft_flows t)"
    using Some by (auto simp: remove_flow_def deindex_def Let_def split: option.splits)
  have ix: "index_ok (hm_remove key (ft_flows t)) (ft_nodes_by_port (remove_flow key t))"
  proof (cases "fk_dialled key")
    case None
    have "ft_nodes_by_port (remove_flow key t) =
        (case hm_get (ft_nodes_by_port t) (fk_port key) of
           None \<Rightarrow> ft_nodes_by_port t
         | Some nodes \<Rightarrow>
             (let nodes = hs_remove (fk_node_id key) nodes
              in if nodes = [] then hm_remove (fk_port key) (ft_nodes_by_port t)
                 else hm_insert (fk_port key) nodes (ft_nodes_by_port t)))"
      using Some None by (auto simp: remove_flow_def deindex_def Let_def split: option.splits)
    then show ?thesis
      using index_ok_deindex [of "ft_flows t" "ft_nodes_by_port t" key] assms Some None
      by (simp add: ft_inv_def hm_contains_def)
  next
    case (Some d)
    then show ?thesis
      using \<open>hm_get (ft_flows t) key = Some flow\<close> assms
      by (auto simp: remove_flow_def Let_def ft_inv_def index_ok_remove_dialled split: option.splits)
  qed
  have al: "alloc_ok (hm_remove key (ft_flows t)) (ft_by_allocation (remove_flow key t))"
  proof (cases "fk_dialled key")
    case None
    then show ?thesis
      using Some assms alloc_ok_remove_unowned [of "ft_flows t" "ft_by_allocation t" key flow]
      by (auto simp: remove_flow_def deindex_def Let_def ft_inv_def split: option.splits)
  next
    case (Some d)
    then show ?thesis
      using \<open>hm_get (ft_flows t) key = Some flow\<close> assms
        alloc_ok_remove_unowned [of "ft_flows t" "ft_by_allocation t" key flow]
        alloc_ok_remove_owned [of "ft_flows t" "ft_by_allocation t" key d flow]
      by (auto simp: remove_flow_def Let_def ft_inv_def allocation_key_of_def split: option.splits)
  qed
  show ?thesis
    using assms al ix unfolding ft_inv_def fl
    by (simp add: flows_ok_remove ended_ok_remove)
qed

text \<open>Removing many.\<close>

lemma fold_remove_flow_frame [simp]:
  "ft_control_ports (fold remove_flow ks t) = ft_control_ports t"
  "ft_control_order (fold remove_flow ks t) = ft_control_order t"
  "ft_outbound_ports (fold remove_flow ks t) = ft_outbound_ports t"
  "ft_outbound_order (fold remove_flow ks t) = ft_outbound_order t"
  "ft_pending (fold remove_flow ks t) = ft_pending t"
  "ft_recently_released (fold remove_flow ks t) = ft_recently_released t"
  "ft_next_source_port (fold remove_flow ks t) = ft_next_source_port t"
  "ft_source_port_range (fold remove_flow ks t) = ft_source_port_range t"
  "ft_dialled_nodes (fold remove_flow ks t) = ft_dialled_nodes t"
  "ft_gateway_rules (fold remove_flow ks t) = ft_gateway_rules t"
  "ft_rule_ended (fold remove_flow ks t) = ft_rule_ended t"
  "port_range (fold remove_flow ks t) = port_range t"
  by (induction ks arbitrary: t) simp_all

lemma fold_remove_flow_flows:
  "hm_get (ft_flows (fold remove_flow ks t)) k = (if k \<in> set ks then None else hm_get (ft_flows t) k)"
  by (induction ks arbitrary: t) (auto simp: remove_flow_flows)

lemma fold_remove_flow_inv: "ft_inv t \<Longrightarrow> ft_inv (fold remove_flow ks t)"
  by (induction ks arbitrary: t) (auto simp: remove_flow_inv)

lemma ft_inv_flows_hm_ok: "ft_inv t \<Longrightarrow> hm_ok (ft_flows t)"
  by (simp add: ft_inv_def flows_ok_def)

lemma set_keys_where:
  "hm_ok (ft_flows t) \<Longrightarrow>
     key \<in> set (keys_where p t) \<longleftrightarrow> (\<exists>flow. hm_get (ft_flows t) key = Some flow \<and> p key flow)"
  by (force simp: keys_where_def hm_get_mem)

lemma distinct_keys_where: "hm_ok (ft_flows t) \<Longrightarrow> distinct (keys_where p t)"
  by (simp add: keys_where_def hm_ok_def distinct_map_filter)

text \<open>\<open>remove_flows_where\<close> removes exactly the flows selected, and counts them.\<close>

lemma remove_flows_where_flows:
  assumes "hm_ok (ft_flows t)"
  shows "hm_get (ft_flows (snd (remove_flows_where p t))) k =
    (case hm_get (ft_flows t) k of None \<Rightarrow> None | Some flow \<Rightarrow> if p k flow then None else Some flow)"
  using set_keys_where [OF assms, of k p]
  by (auto simp: remove_flows_where_def Let_def fold_remove_flow_flows split: option.splits)

lemma remove_flows_where_count:
  assumes "hm_ok (ft_flows t)"
  shows "fst (remove_flows_where p t) =
    card {k. \<exists>flow. hm_get (ft_flows t) k = Some flow \<and> p k flow}"
proof -
  have "{k. \<exists>flow. hm_get (ft_flows t) k = Some flow \<and> p k flow} = set (keys_where p t)"
    using set_keys_where [OF assms] by blast
  then show ?thesis
    using distinct_card [OF distinct_keys_where [OF assms, of p]]
    by (simp add: remove_flows_where_def Let_def)
qed

lemma remove_flows_where_inv: "ft_inv t \<Longrightarrow> ft_inv (snd (remove_flows_where p t))"
  by (simp add: remove_flows_where_def Let_def fold_remove_flow_inv)

lemma remove_flows_where_frame [simp]:
  "ft_control_ports (snd (remove_flows_where p t)) = ft_control_ports t"
  "ft_control_order (snd (remove_flows_where p t)) = ft_control_order t"
  "ft_outbound_ports (snd (remove_flows_where p t)) = ft_outbound_ports t"
  "ft_outbound_order (snd (remove_flows_where p t)) = ft_outbound_order t"
  "ft_pending (snd (remove_flows_where p t)) = ft_pending t"
  "ft_recently_released (snd (remove_flows_where p t)) = ft_recently_released t"
  "ft_next_source_port (snd (remove_flows_where p t)) = ft_next_source_port t"
  "ft_source_port_range (snd (remove_flows_where p t)) = ft_source_port_range t"
  "ft_dialled_nodes (snd (remove_flows_where p t)) = ft_dialled_nodes t"
  "ft_gateway_rules (snd (remove_flows_where p t)) = ft_gateway_rules t"
  "ft_rule_ended (snd (remove_flows_where p t)) = ft_rule_ended t"
  "port_range (snd (remove_flows_where p t)) = port_range t"
  by (simp_all add: remove_flows_where_def Let_def)

end
