(* ===== verification/Flow_Table_Ops.thy ===== *)
theory Flow_Table_Ops
  imports Flow_Table_Inv
begin

text \<open>
  Admission, release, eviction and the rule refresh: each keeps \<open>ft_inv\<close>, with what it leaves in
  \<open>flows\<close> as an equation for look-ups.
\<close>

section \<open>Admitting a flow\<close>

lemma owns_insert_fresh:
  "hm_get flows key = None \<Longrightarrow> af_allocation flow = None \<Longrightarrow>
     owns (hm_insert key flow flows) k ak \<longleftrightarrow> owns flows k ak"
  by (auto simp: owns_def hm_simps split: option.splits)

lemma index_ok_admit:
  assumes "index_ok flows index" "hm_get flows (flow_key_new node_id port None) = None"
  shows "index_ok (hm_insert (flow_key_new node_id port None) flow flows)
    (hm_insert port (hs_insert node_id (nodes_at index port)) index)"
proof -
  have ne: "hs_insert node_id (nodes_at index port) \<noteq> []"
    by (metis list.distinct(1) insert_not_empty list.set(1) set_hs_insert)
  show ?thesis
    using assms(1) ne unfolding index_ok_def
    by (auto simp: hm_oks hm_simps)
qed

lemma index_ok_insert_dialled:
  "index_ok flows index \<Longrightarrow> fk_dialled key = Some d \<Longrightarrow> index_ok (hm_insert key flow flows) index"
  by (auto simp: index_ok_def)

lemma ended_ok_admit:
  "ended_ok flows ended \<Longrightarrow> ended_ok (hm_insert key flow flows) (hm_remove key ended)"
  using length_hm_remove_le [of key ended] by (auto simp: ended_ok_def hm_oks)

lemma flows_ok_insert:
  "flows_ok r dn flows \<Longrightarrow> flow_ok r dn key flow \<Longrightarrow> flows_ok r dn (hm_insert key flow flows)"
  by (auto simp: flows_ok_def hm_oks hm_simps)

lemma flows_ok_more_nodes:
  assumes "flows_ok r dn flows" "set dn \<subseteq> set dn'"
  shows "flows_ok r dn' flows"
proof -
  have "flow_ok r dn k flow \<Longrightarrow> flow_ok r dn' k flow" for k flow
    using assms(2) by (cases "fk_dialled k") (auto simp: flow_ok_def)
  then show ?thesis using assms(1) by (simp add: flows_ok_def)
qed

text \<open>What \<open>admit_flow\<close> leaves, in terms of the table without a flow under the key.\<close>

definition new_flow :: "dialled option \<Rightarrow> string \<Rightarrow> string \<Rightarrow> string \<Rightarrow> port_rule list \<Rightarrow> admitted_flow" where
  "new_flow dialled gateway_id flow_id device rules =
     \<lparr>af_gateway_id = gateway_id, af_flow_id = flow_id, af_device_public_key = device,
      af_rules = rules, af_virtual_address = map_option dl_gateway_address dialled,
      af_allocation = None, af_served = None\<rparr>"

lemma admit_flow_eq:
  "admit_flow node_id port dialled gateway_id flow_id device rules t =
     (let key = flow_key_new node_id port dialled; t' = remove_flow key t
      in t'\<lparr>ft_rule_ended := hm_remove key (ft_rule_ended t'),
            ft_dialled_nodes := (if dialled = None then ft_dialled_nodes t'
                                 else hs_insert node_id (ft_dialled_nodes t')),
            ft_nodes_by_port := (if dialled = None
               then hm_insert port (hs_insert node_id (nodes_at (ft_nodes_by_port t') port))
                      (ft_nodes_by_port t')
               else ft_nodes_by_port t'),
            ft_flows := hm_insert key (new_flow dialled gateway_id flow_id device rules) (ft_flows t')\<rparr>)"
  by (simp add: admit_flow_def Let_def flow_key_new_def nodes_at_def new_flow_def split: option.splits)

lemma admit_flow_flows:
  "hm_get (ft_flows (admit_flow n p d g f dev rules t)) k =
     (if k = flow_key_new n p d then Some (new_flow d g f dev rules) else hm_get (ft_flows t) k)"
  by (auto simp: admit_flow_eq Let_def hm_simps remove_flow_flows)

lemma admit_flow_frame [simp]:
  "ft_control_ports (admit_flow n p d g f dev rules t) = ft_control_ports t"
  "ft_control_order (admit_flow n p d g f dev rules t) = ft_control_order t"
  "ft_outbound_ports (admit_flow n p d g f dev rules t) = ft_outbound_ports t"
  "ft_outbound_order (admit_flow n p d g f dev rules t) = ft_outbound_order t"
  "ft_pending (admit_flow n p d g f dev rules t) = ft_pending t"
  "ft_recently_released (admit_flow n p d g f dev rules t) = ft_recently_released t"
  "ft_next_source_port (admit_flow n p d g f dev rules t) = ft_next_source_port t"
  "ft_source_port_range (admit_flow n p d g f dev rules t) = ft_source_port_range t"
  "ft_gateway_rules (admit_flow n p d g f dev rules t) = ft_gateway_rules t"
  "port_range (admit_flow n p d g f dev rules t) = port_range t"
  by (simp_all add: admit_flow_eq Let_def)

lemma admit_flow_inv:
  assumes "ft_inv t"
  shows "ft_inv (admit_flow node_id port dialled gateway_id flow_id device rules t)"
proof -
  define key where "key = flow_key_new node_id port dialled"
  define t' where "t' = remove_flow key t"
  have i: "ft_inv t'" using assms by (simp add: t'_def remove_flow_inv)
  have none: "hm_get (ft_flows t') key = None" by (simp add: t'_def remove_flow_flows)
  let ?f = "new_flow dialled gateway_id flow_id device rules"
  let ?dn = "if dialled = None then ft_dialled_nodes t' else hs_insert node_id (ft_dialled_nodes t')"
  have dn: "flows_ok (port_range t') ?dn (ft_flows t')"
    using i by (auto simp: ft_inv_def intro: flows_ok_more_nodes)
  have fo: "flow_ok (port_range t') ?dn key ?f"
    by (auto simp: flow_ok_def key_def new_flow_def split: option.splits)
  have al: "alloc_ok (hm_insert key ?f (ft_flows t')) (ft_by_allocation t')"
    using i none by (simp add: ft_inv_def alloc_ok_def owns_insert_fresh new_flow_def)
  have ix: "index_ok (hm_insert key ?f (ft_flows t')) (if dialled = None
      then hm_insert port (hs_insert node_id (nodes_at (ft_nodes_by_port t') port)) (ft_nodes_by_port t')
      else ft_nodes_by_port t')"
  proof (cases dialled)
    case None
    then show ?thesis
      using i none index_ok_admit [of "ft_flows t'" "ft_nodes_by_port t'" node_id port]
      by (simp add: ft_inv_def key_def)
  next
    case (Some d)
    then show ?thesis
      using i index_ok_insert_dialled [of "ft_flows t'" "ft_nodes_by_port t'" key d]
      by (simp add: ft_inv_def key_def)
  qed
  have "distinct ?dn" using i by (simp add: ft_inv_def)
  then show ?thesis
    unfolding admit_flow_eq Let_def key_def [symmetric] t'_def [symmetric]
    using i al ix flows_ok_insert [OF dn fo]
    by (simp add: ft_inv_def ended_ok_admit del: distinct_hs_insert)
qed

section \<open>Release and eviction\<close>

lemma release_eq:
  "release flow_id now t =
     (let t' = snd (remove_flows_where (\<lambda>_ flow. af_flow_id flow = flow_id) t)
      in t'\<lparr>ft_recently_released := hm_insert flow_id now
            (hm_retain (\<lambda>_ released_at. duration_since now released_at \<le> RELEASED_FLOW_MEMORY)
              (ft_recently_released t))\<rparr>)"
  by (simp add: release_def Let_def split_beta)

lemma release_inv: "ft_inv t \<Longrightarrow> ft_inv (release flow_id now t)"
  using remove_flows_where_inv [of t "\<lambda>_ flow. af_flow_id flow = flow_id"]
  by (simp add: release_eq Let_def ft_inv_def hm_oks)

lemma port_table_ok_forget:
  assumes "port_table_ok mo"
  shows "port_table_ok (forget_node_ports node_id mo)"
proof -
  obtain m order where mo: "mo = (m, order)" by force
  let ?m = "hm_retain (\<lambda>_ owner. owner \<noteq> node_id) m"
  have "hm_contains ?m port \<Longrightarrow> hm_contains m port" for port
    using assms by (auto simp: mo port_table_ok_def hm_contains_def hm_simps split: option.splits)
  moreover have "length (filter (hm_contains ?m) order) \<le> MAX_TRACKED_CONTROL_CHANNEL_PORTS"
    using assms by (intro le_trans [OF length_filter_le]) (simp add: mo port_table_ok_def)
  ultimately show ?thesis
    using assms by (auto simp: mo forget_node_ports_def Let_def port_table_ok_def hm_oks)
qed

lemma evict_node_eq:
  "evict_node node_id t =
     (let t' = snd (remove_flows_where (\<lambda>key _. fk_node_id key = node_id) t);
          c = forget_node_ports node_id (ft_control_ports t, ft_control_order t);
          ob = forget_node_ports node_id (ft_outbound_ports t, ft_outbound_order t)
      in t'\<lparr>ft_dialled_nodes := hs_remove node_id (ft_dialled_nodes t),
            ft_control_ports := fst c, ft_control_order := snd c,
            ft_outbound_ports := fst ob, ft_outbound_order := snd ob\<rparr>)"
  by (simp add: evict_node_def Let_def split_beta)

lemma flows_ok_evict:
  assumes "flows_ok r dn flows" "\<And>k. fk_node_id k = node_id \<Longrightarrow> hm_get flows' k = None"
    "hm_ok flows'" "\<And>k flow. hm_get flows' k = Some flow \<Longrightarrow> hm_get flows k = Some flow"
  shows "flows_ok r (hs_remove node_id dn) flows'"
proof -
  have "flow_ok r (hs_remove node_id dn) k flow" if "hm_get flows' k = Some flow" for k flow
  proof -
    have "fk_node_id k \<noteq> node_id" using assms(2) that by force
    moreover have "flow_ok r dn k flow"
      using assms(1,4) that by (simp add: flows_ok_def)
    ultimately show ?thesis by (auto simp: flow_ok_def split: option.splits)
  qed
  then show ?thesis using assms(3) by (simp add: flows_ok_def)
qed

lemma evict_node_inv:
  assumes "ft_inv t"
  shows "ft_inv (evict_node node_id t)"
proof -
  let ?p = "\<lambda>key (_ :: admitted_flow). fk_node_id key = node_id"
  let ?t = "snd (remove_flows_where ?p t)"
  have i: "ft_inv ?t" using assms by (rule remove_flows_where_inv)
  have gone: "\<And>k. fk_node_id k = node_id \<Longrightarrow> hm_get (ft_flows ?t) k = None"
    using remove_flows_where_flows [OF ft_inv_flows_hm_ok [OF assms], of ?p]
    by (simp split: option.splits)
  have "flows_ok (port_range t) (hs_remove node_id (ft_dialled_nodes t)) (ft_flows ?t)"
    using i gone by (intro flows_ok_evict [of _ "ft_dialled_nodes t" "ft_flows ?t"])
      (auto simp: ft_inv_def flows_ok_def)
  then show ?thesis
    using i assms port_table_ok_forget [of "(ft_control_ports t, ft_control_order t)" node_id]
      port_table_ok_forget [of "(ft_outbound_ports t, ft_outbound_order t)" node_id]
    by (simp add: evict_node_eq Let_def ft_inv_def)
qed

lemma evict_gateway_device_inv: "ft_inv t \<Longrightarrow> ft_inv (snd (evict_gateway_device g dev t))"
  by (simp add: evict_gateway_device_def remove_flows_where_inv)

section \<open>Rule refresh\<close>

lemma min_by_key_in: "min_by_key f xs = Some x \<Longrightarrow> x \<in> set xs"
  by (induction xs arbitrary: x) (auto split: option.splits if_splits)

lemma min_by_key_None: "min_by_key f xs = None \<longleftrightarrow> xs = []"
  by (cases xs) (auto split: option.splits)

lemma min_by_key_least: "min_by_key f xs = Some x \<Longrightarrow> y \<in> set xs \<Longrightarrow> f x \<le> f y"
  by (induction xs arbitrary: x y)
    (auto simp: min_by_key_None split: option.splits if_splits, fastforce+)

definition ended_room :: "(flow_key, instant) hmap \<Rightarrow> (flow_key, instant) hmap" where
  "ended_room ended = (if length ended \<ge> MAX_RULE_ENDED_FLOWS
     then (case min_by_key snd ended of Some (oldest, _) \<Rightarrow> hm_remove oldest ended | None \<Rightarrow> ended)
     else ended)"

lemma length_ended_room: "length ended \<le> MAX_RULE_ENDED_FLOWS \<Longrightarrow>
    length (ended_room ended) < MAX_RULE_ENDED_FLOWS"
proof (cases "length ended \<ge> MAX_RULE_ENDED_FLOWS")
  case True
  assume le: "length ended \<le> MAX_RULE_ENDED_FLOWS"
  from True have "ended \<noteq> []" by (auto simp: MAX_RULE_ENDED_FLOWS_def)
  then obtain k v where m: "min_by_key snd ended = Some (k, v)"
    by (metis min_by_key_None not_None_eq surj_pair)
  then have "hm_contains ended k"
    using min_by_key_in [OF m] map_of_eq_None_iff [of ended k]
    by (force simp: hm_contains_def hm_get_def)
  then show ?thesis
    using True le m length_hm_remove_less [of ended k] by (simp add: ended_room_def)
qed (simp add: ended_room_def)

lemma hm_ok_ended_room [hm_oks]: "hm_ok ended \<Longrightarrow> hm_ok (ended_room ended)"
  by (simp add: ended_room_def hm_oks split: option.split)

lemma hm_contains_ended_room: "hm_contains (ended_room ended) k \<Longrightarrow> hm_contains ended k"
  by (auto simp: ended_room_def split: if_splits option.splits)

lemma remember_rule_ended_eq:
  "remember_rule_ended now key t = t\<lparr>ft_rule_ended := hm_insert key now (ended_room
     (hm_retain (\<lambda>_ seen. duration_since now seen \<le> RULE_ENDED_FLOW_MEMORY) (ft_rule_ended t)))\<rparr>"
  by (simp add: remember_rule_ended_def ended_room_def Let_def)

lemma ended_ok_remember:
  assumes "ended_ok flows ended" "\<not> hm_contains flows key"
  shows "ended_ok flows (hm_insert key now (ended_room (hm_retain p ended)))"
proof -
  have "length (ended_room (hm_retain p ended)) < MAX_RULE_ENDED_FLOWS"
    using assms length_hm_retain [of p ended] by (intro length_ended_room) (simp add: ended_ok_def)
  then have "length (hm_insert key now (ended_room (hm_retain p ended))) \<le> MAX_RULE_ENDED_FLOWS"
    by (simp add: length_hm_insert)
  moreover have "hm_contains ended k" if "hm_contains (ended_room (hm_retain p ended)) k" for k
    using assms hm_contains_ended_room [OF that]
    by (auto simp: ended_ok_def hm_contains_def hm_simps split: option.splits)
  ultimately show ?thesis
    using assms by (auto simp: ended_ok_def hm_oks)
qed

lemma remember_rule_ended_frame [simp]:
  "ft_flows (remember_rule_ended now key t) = ft_flows t"
  "ft_gateway_rules (remember_rule_ended now key t) = ft_gateway_rules t"
  "ft_by_allocation (remember_rule_ended now key t) = ft_by_allocation t"
  by (simp_all add: remember_rule_ended_eq)

lemma remember_rule_ended_inv:
  "ft_inv t \<Longrightarrow> \<not> hm_contains (ft_flows t) key \<Longrightarrow> ft_inv (remember_rule_ended now key t)"
  by (simp add: remember_rule_ended_eq ft_inv_def ended_ok_remember)

lemma fold_remember_rule_ended:
  "ft_inv t \<Longrightarrow> \<forall>key \<in> set ks. \<not> hm_contains (ft_flows t) key \<Longrightarrow>
     ft_inv (fold (remember_rule_ended now) ks t) \<and>
     ft_flows (fold (remember_rule_ended now) ks t) = ft_flows t \<and>
     ft_gateway_rules (fold (remember_rule_ended now) ks t) = ft_gateway_rules t"
  by (induction ks arbitrary: t) (auto simp: remember_rule_ended_inv)

section \<open>Rule refresh, continued\<close>

definition with_rules :: "string \<Rightarrow> port_rule list \<Rightarrow> admitted_flow \<Rightarrow> admitted_flow" where
  "with_rules gateway_id rules flow =
     (if af_gateway_id flow = gateway_id then flow\<lparr>af_rules := rules\<rparr> else flow)"

lemma with_rules_sel [simp]:
  "af_gateway_id (with_rules g rules flow) = af_gateway_id flow"
  "af_flow_id (with_rules g rules flow) = af_flow_id flow"
  "af_device_public_key (with_rules g rules flow) = af_device_public_key flow"
  "af_virtual_address (with_rules g rules flow) = af_virtual_address flow"
  "af_allocation (with_rules g rules flow) = af_allocation flow"
  "af_served (with_rules g rules flow) = af_served flow"
  by (simp_all add: with_rules_def)

lemma still_served_with_rules [simp]:
  "still_served key (with_rules g rules flow) rules' = still_served key flow rules'"
  unfolding still_served_def by simp

lemma flow_ok_with_rules [simp]: "flow_ok r dn key (with_rules g rules flow) = flow_ok r dn key flow"
  by (cases "fk_dialled key") (simp_all add: flow_ok_def)

definition refreshed :: "string \<Rightarrow> port_rule list \<Rightarrow> flow_table \<Rightarrow> flow_table" where
  "refreshed gateway_id rules t =
     t\<lparr>ft_gateway_rules := hm_insert gateway_id rules (ft_gateway_rules t),
       ft_flows := hm_map (\<lambda>_. with_rules gateway_id rules) (ft_flows t)\<rparr>"

definition unserved :: "string \<Rightarrow> port_rule list \<Rightarrow> flow_key \<Rightarrow> admitted_flow \<Rightarrow> bool" where
  "unserved gateway_id rules key flow \<longleftrightarrow>
     af_gateway_id flow = gateway_id \<and> \<not> still_served key flow rules"

lemma owns_hm_map:
  assumes "\<And>flow. af_allocation (f flow) = af_allocation flow"
  shows "owns (hm_map (\<lambda>_. f) flows) key ak \<longleftrightarrow> owns flows key ak"
  using assms by (cases "hm_get flows key") (simp_all add: owns_def hm_simps)

lemma refreshed_inv: "ft_inv t \<Longrightarrow> ft_inv (refreshed g rules t)"
proof -
  assume i: "ft_inv t"
  have "alloc_ok (hm_map (\<lambda>_. with_rules g rules) (ft_flows t)) (ft_by_allocation t)"
    using i by (simp add: ft_inv_def alloc_ok_def owns_hm_map)
  moreover have "flows_ok (port_range t) (ft_dialled_nodes t) (hm_map (\<lambda>_. with_rules g rules) (ft_flows t))"
    using i by (auto simp: ft_inv_def flows_ok_def hm_oks hm_simps)
  ultimately show ?thesis
    using i by (simp add: ft_inv_def refreshed_def index_ok_def ended_ok_def hm_oks)
qed

lemma update_rules_eq:
  "update_rules g rules now t =
     (let t' = refreshed g rules t;
          ended = filter (\<lambda>(key, flow). unserved g rules key flow) (ft_flows t')
      in (map (\<lambda>(_, flow). \<lparr>re_flow_id = af_flow_id flow,
                 re_device_public_key = af_device_public_key flow\<rparr>) ended,
          if ended = [] then t'
          else fold (remember_rule_ended now) (map fst ended)
                 (snd (remove_flows_where (unserved g rules) t'))))"
  by (simp add: update_rules_def refreshed_def with_rules_def [abs_def] unserved_def [abs_def]
      keys_where_def Let_def split_beta)

lemma remove_flows_where_none:
  "filter (\<lambda>(key, flow). p key flow) (ft_flows t) = [] \<Longrightarrow> snd (remove_flows_where p t) = t"
  by (simp add: remove_flows_where_def keys_where_def)

lemma update_rules_tail:
  "snd (update_rules g rules now t) =
     fold (remember_rule_ended now) (keys_where (unserved g rules) (refreshed g rules t))
       (snd (remove_flows_where (unserved g rules) (refreshed g rules t)))"
  by (simp add: update_rules_eq Let_def keys_where_def remove_flows_where_none)

lemma update_rules_all:
  assumes "ft_inv t"
  shows "ft_inv (snd (update_rules g rules now t)) \<and>
    ft_flows (snd (update_rules g rules now t)) =
      ft_flows (snd (remove_flows_where (unserved g rules) (refreshed g rules t))) \<and>
    ft_gateway_rules (snd (update_rules g rules now t)) = hm_insert g rules (ft_gateway_rules t)"
proof -
  let ?t = "refreshed g rules t" and ?p = "unserved g rules"
  have i: "ft_inv ?t" using assms by (rule refreshed_inv)
  note ok = ft_inv_flows_hm_ok [OF i]
  have "\<forall>key \<in> set (keys_where ?p ?t). \<not> hm_contains (ft_flows (snd (remove_flows_where ?p ?t))) key"
    by (auto simp: set_keys_where [OF ok] hm_contains_def remove_flows_where_flows [OF ok])
  from fold_remember_rule_ended [OF remove_flows_where_inv [OF i] this]
  show ?thesis unfolding update_rules_tail by (simp add: refreshed_def)
qed

lemma update_rules_inv: "ft_inv t \<Longrightarrow> ft_inv (snd (update_rules g rules now t))"
  using update_rules_all by blast

text \<open>A flow of another gateway is untouched; one of this gateway gets the new rules or is gone.\<close>

lemma update_rules_flows:
  assumes "ft_inv t"
  shows "hm_get (ft_flows (snd (update_rules g rules now t))) key =
    (case hm_get (ft_flows t) key of
       None \<Rightarrow> None
     | Some flow \<Rightarrow> if unserved g rules key flow then None else Some (with_rules g rules flow))"
proof -
  have ok: "hm_ok (ft_flows (refreshed g rules t))"
    using assms ft_inv_flows_hm_ok refreshed_inv by blast
  have "unserved g rules key (with_rules g rules flow) = unserved g rules key flow" for flow
    by (simp add: unserved_def)
  then show ?thesis
    using update_rules_all [OF assms, of g rules now] remove_flows_where_flows [OF ok]
    by (auto simp: refreshed_def hm_simps split: option.splits)
qed

lemma update_rules_reports:
  assumes "ft_inv t"
  shows "set (fst (update_rules g rules now t)) =
    {\<lparr>re_flow_id = af_flow_id flow, re_device_public_key = af_device_public_key flow\<rparr> | key flow.
       hm_get (ft_flows t) key = Some flow \<and> unserved g rules key flow}"
proof -
  have ok: "hm_ok (ft_flows t)" using assms by (rule ft_inv_flows_hm_ok)
  have "unserved g rules key (with_rules g rules flow) = unserved g rules key flow" for key flow
    by (simp add: unserved_def)
  then show ?thesis
    unfolding update_rules_eq Let_def refreshed_def hm_get_mem [OF ok]
    by (force simp: hm_map_def)
qed

lemma check_rule_ended_inv: "ft_inv t \<Longrightarrow> ft_inv (snd (check_rule_ended now keys t))"
proof (induction keys arbitrary: t)
  case Nil
  then show ?case by simp
next
  case (Cons key keys)
  have r: "ft_inv (t\<lparr>ft_rule_ended := hm_remove key (ft_rule_ended t)\<rparr>)"
    using Cons.prems le_trans [OF length_hm_remove_le] by (auto simp: ft_inv_def ended_ok_def hm_oks)
  have "ft_inv (t\<lparr>ft_rule_ended := hm_insert key now (ft_rule_ended t)\<rparr>)"
    if "hm_get (ft_rule_ended t) key = Some seen" for seen
    using Cons.prems that
    by (auto simp: ft_inv_def ended_ok_def hm_oks length_hm_insert hm_contains_def hm_simps)
  then show ?case using Cons r by (simp split: option.split)
qed

lemma check_rule_ended_flows [simp]: "ft_flows (snd (check_rule_ended now keys t)) = ft_flows t"
  by (induction keys arbitrary: t) (auto split: option.splits)

lemma check_rule_ended_admitted:
  assumes "ft_inv t" "\<forall>key \<in> set keys. hm_contains (ft_flows t) key"
  shows "check_rule_ended now keys t = (False, t)"
  using assms(2)
proof (induction keys)
  case (Cons key keys)
  then have "hm_get (ft_rule_ended t) key = None"
    using assms(1) by (auto simp: ft_inv_def ended_ok_def hm_contains_def)
  then show ?case using Cons by simp
qed simp

lemma is_rule_ended_inv: "ft_inv t \<Longrightarrow> ft_inv (snd (is_rule_ended n p d now t))"
  unfolding is_rule_ended_def by (rule check_rule_ended_inv)

lemma retain_gateway_rules_inv: "ft_inv t \<Longrightarrow> ft_inv (retain_gateway_rules keep t)"
  by (simp add: retain_gateway_rules_def ft_inv_def hm_oks)

section \<open>Control-channel ports\<close>

lemma port_table_ok_empty: "port_table_ok ([], [])"
  by (simp add: port_table_ok_def)

lemma port_table_ok_record:
  assumes "port_table_ok mo"
  shows "port_table_ok (record_bounded_port node_id port mo)"
proof -
  obtain m order where mo: "mo = (m, order)" by force
  have a: "hm_ok m" "distinct order" "\<And>p. p \<in> set order \<longleftrightarrow> hm_contains m p"
    "length order \<le> MAX_TRACKED_CONTROL_CHANNEL_PORTS"
    using assms by (simp_all add: mo port_table_ok_def)
  show ?thesis
  proof (cases "hm_get m port = None")
    case False
    then show ?thesis
      using a by (auto simp: mo record_bounded_port_def Let_def port_table_ok_def hm_oks hm_contains_def hm_simps)
  next
    case True
    then have f: "port \<notin> set order" using a(3) by (simp add: hm_contains_def)
    show ?thesis
    proof (cases order)
      case Nil
      then show ?thesis
        using a True by (auto simp: mo record_bounded_port_def Let_def port_table_ok_def hm_oks
            MAX_TRACKED_CONTROL_CHANNEL_PORTS_def)
    next
      case (Cons oldest order')
      then show ?thesis
        using a True f
        by (auto simp: mo record_bounded_port_def Let_def port_table_ok_def hm_oks)
    qed
  qed
qed

lemma record_control_channel_port_inv: "ft_inv t \<Longrightarrow> ft_inv (record_control_channel_port n p t)"
  using port_table_ok_record [of "(ft_control_ports t, ft_control_order t)" n p]
  by (simp add: record_control_channel_port_def split_beta ft_inv_def)

lemma record_outbound_control_channel_port_inv:
  "ft_inv t \<Longrightarrow> ft_inv (record_outbound_control_channel_port n p t)"
  using port_table_ok_record [of "(ft_outbound_ports t, ft_outbound_order t)" n p]
  by (simp add: record_outbound_control_channel_port_def split_beta ft_inv_def)

section \<open>Packets waiting for their admission\<close>

lemma buffer_pending_inv: "ft_inv t \<Longrightarrow> ft_inv (buffer_pending n p d packet now t)"
proof -
  assume i: "ft_inv t"
  let ?p = "hm_retain (\<lambda>_ (_, at). duration_since now at \<le> PENDING_PACKET_TTL) (ft_pending t)"
  have "pending_ok ?p"
    using i le_trans [OF length_hm_retain] by (auto simp: ft_inv_def pending_ok_def hm_oks)
  then show ?thesis
    using i by (auto simp: buffer_pending_def Let_def ft_inv_def pending_ok_def hm_oks length_hm_insert)
qed

lemma take_pending_inv: "ft_inv t \<Longrightarrow> ft_inv (snd (take_pending n p d now t))"
  using le_trans [OF length_hm_remove_le]
  by (auto simp: take_pending_def ft_inv_def pending_ok_def hm_oks split: option.splits)

end
