(* ===== verification/Flow_Forward.thy ===== *)
theory Flow_Forward
  imports Flow_Table_Ops
begin

text \<open>
  Forwarding (\<open>FlowTable::forward\<close>) and its reply route: both keep \<open>ft_inv\<close>, a forwarded flow
  owns the allocation it was forwarded by, and the reply index finds exactly that flow.
\<close>

section \<open>Forwarding keeps the invariant\<close>

lemma ft_inv_flow_ok:
  "ft_inv t \<Longrightarrow> hm_get (ft_flows t) key = Some flow \<Longrightarrow>
     flow_ok (port_range t) (ft_dialled_nodes t) key flow"
  by (simp add: ft_inv_def flows_ok_def)

lemma index_ok_replace:
  "index_ok flows index \<Longrightarrow> hm_contains flows key \<Longrightarrow> index_ok (hm_insert key flow flows) index"
  unfolding index_ok_def by auto

lemma ft_inv_replace:
  assumes "ft_inv t" "hm_get (ft_flows t) key = Some flow"
    "flow_ok (port_range t) (ft_dialled_nodes t) key flow'"
    "alloc_ok (hm_insert key flow' (ft_flows t)) ba" "hm_ok cursors"
  shows "ft_inv (t\<lparr>ft_flows := hm_insert key flow' (ft_flows t), ft_by_allocation := ba,
    ft_next_source_port := cursors\<rparr>)"
proof -
  have c: "hm_contains (ft_flows t) key" using assms(2) by (simp add: hm_contains_def)
  have e: "ended_ok (hm_insert key flow' (ft_flows t)) (ft_rule_ended t)"
    using assms(1) c by (auto simp: ft_inv_def ended_ok_def)
  show ?thesis
    using assms e c by (simp add: ft_inv_def flows_ok_insert index_ok_replace)
qed

lemma alloc_okD: "alloc_ok flows ba \<Longrightarrow> hm_get ba ak = Some k \<longleftrightarrow> owns flows k ak"
  unfolding alloc_ok_def by (elim conjE) (erule allE, erule allE)

lemma alloc_okI:
  "hm_ok ba \<Longrightarrow> (\<And>ak k. hm_get ba ak = Some k \<longleftrightarrow> owns flows k ak) \<Longrightarrow> alloc_ok flows ba"
  unfolding alloc_ok_def by (intro conjI allI)

text \<open>The old allocation of a flow given back, and a new one taken.\<close>

definition without_allocation ::
  "transport \<Rightarrow> admitted_flow \<Rightarrow> (allocation_key, flow_key) hmap \<Rightarrow> (allocation_key, flow_key) hmap" where
  "without_allocation transport flow ba =
     (case af_allocation flow of
        Some a \<Rightarrow> hm_remove (allocation_key_of transport a) ba | None \<Rightarrow> ba)"

lemma without_allocation_get:
  assumes "alloc_ok flows ba" "fk_dialled key = Some d" "hm_get flows key = Some flow"
  shows "hm_get (without_allocation (dl_transport d) flow ba) ak = Some k \<longleftrightarrow>
    k \<noteq> key \<and> owns flows k ak"
proof (cases "af_allocation flow")
  case None
  then have "alloc_ok (hm_remove key flows) ba"
    using assms by (intro alloc_ok_remove_unowned [of flows ba key flow]) simp_all
  from alloc_okD [OF this] show ?thesis by (simp add: None without_allocation_def owns_hm_remove)
next
  case (Some a)
  then show ?thesis
    using alloc_okD [OF alloc_ok_remove_owned [OF assms Some]]
    by (simp add: without_allocation_def owns_hm_remove)
qed

lemma hm_ok_without_allocation [hm_oks]: "hm_ok ba \<Longrightarrow> hm_ok (without_allocation tr flow ba)"
  by (simp add: without_allocation_def hm_oks split: option.split)

lemma owns_insert:
  "owns (hm_insert key flow flows) k ak \<longleftrightarrow>
     (if k = key then (case (fk_dialled key, af_allocation flow) of
          (Some d, Some a) \<Rightarrow> ak = allocation_key_of (dl_transport d) a | _ \<Rightarrow> False)
      else owns flows k ak)"
  by (cases "k = key") (simp_all add: owns_def hm_simps)

lemma alloc_ok_give_back:
  assumes "alloc_ok flows ba" "fk_dialled key = Some d" "hm_get flows key = Some flow"
  shows "alloc_ok (hm_insert key (flow\<lparr>af_allocation := None\<rparr>) flows)
    (without_allocation (dl_transport d) flow ba)"
proof (rule alloc_okI)
  show "hm_ok (without_allocation (dl_transport d) flow ba)"
    using assms(1) by (simp add: alloc_ok_def hm_oks)
  show "hm_get (without_allocation (dl_transport d) flow ba) ak = Some k \<longleftrightarrow>
      owns (hm_insert key (flow\<lparr>af_allocation := None\<rparr>) flows) k ak" for ak k
    using without_allocation_get [OF assms, of ak k] assms(2) by (simp add: owns_insert)
qed

lemma alloc_ok_move:
  assumes "alloc_ok flows ba" "fk_dialled key = Some d" "hm_get flows key = Some flow"
    and free: "\<not> hm_contains (without_allocation (dl_transport d) flow ba)
      (allocation_key_of (dl_transport d) a)"
  shows "alloc_ok (hm_insert key (flow\<lparr>af_allocation := Some a\<rparr>) flows)
    (hm_insert (allocation_key_of (dl_transport d) a) key
      (without_allocation (dl_transport d) flow ba))"
proof -
  let ?ak = "allocation_key_of (dl_transport d) a"
  have n: "\<not> (k \<noteq> key \<and> owns flows k ?ak)" for k
    using free without_allocation_get [OF assms(1-3), of ?ak k] by (auto simp: hm_contains_def)
  have inverse: "hm_get (hm_insert ?ak key (without_allocation (dl_transport d) flow ba)) ak = Some k \<longleftrightarrow>
      owns (hm_insert key (flow\<lparr>af_allocation := Some a\<rparr>) flows) k ak" for ak k
    using n [of k] assms(2)
    by (cases "ak = ?ak"; cases "k = key")
      (simp_all add: hm_get_insert without_allocation_get [OF assms(1-3)] owns_insert)
  show ?thesis
    by (rule alloc_okI [OF _ inverse]) (use assms(1) in \<open>simp add: alloc_ok_def hm_oks\<close>)
qed

text \<open>
  \<open>forward_with_identity\<close> on a flow of the table: the rule decides, an allocation for the same
  target is kept, any other is given back and a new one is looked for.
\<close>

definition destination_change :: "u16 \<Rightarrow> u16 \<Rightarrow> u16 option" where
  "destination_change internal external = (if internal \<noteq> external then Some internal else None)"

lemma forward_with_identity_eq:
  assumes "hm_get (ft_flows t) key = Some flow"
  shows "forward_with_identity key d cache t =
    (case resolve_rule (af_rules flow) (Some (dl_transport d)) (dl_destination_port d) cache of
       Inl refused \<Rightarrow> (Refused refused, t)
     | Inr target \<Rightarrow>
         (let change = destination_change (snd target) (dl_destination_port d);
              ba = without_allocation (dl_transport d) flow (ft_by_allocation t)
          in if \<exists>a. af_allocation flow = Some a \<and> al_target a = target
             then (Forward (fst target) change (map_option al_port (af_allocation flow)), t)
             else (case allocate_source_port ba (ft_next_source_port t) (port_range t)
                          (dl_transport d) target of
                     (None, cursors) \<Rightarrow>
                       (Refused NoFreeSourcePort,
                        t\<lparr>ft_flows := hm_insert key (flow\<lparr>af_allocation := None\<rparr>) (ft_flows t),
                          ft_by_allocation := ba, ft_next_source_port := cursors\<rparr>)
                   | (Some p, cursors) \<Rightarrow>
                       (Forward (fst target) change (Some p),
                        t\<lparr>ft_flows := hm_insert key
                              (flow\<lparr>af_allocation := Some \<lparr>al_target = target, al_port = p\<rparr>\<rparr>) (ft_flows t),
                          ft_by_allocation := hm_insert
                              (allocation_key_of (dl_transport d) \<lparr>al_target = target, al_port = p\<rparr>) key ba,
                          ft_next_source_port := cursors\<rparr>))))"
  using assms
  by (auto simp: forward_with_identity_def without_allocation_def destination_change_def Let_def
      allocation_key_of_def split: sum.split option.split prod.split)

lemma forward_with_identity_inv:
  assumes "ft_inv t" "fk_dialled key = Some d"
  shows "ft_inv (snd (forward_with_identity key d cache t))"
proof (cases "hm_get (ft_flows t) key")
  case None
  then show ?thesis using assms by (simp add: forward_with_identity_def)
next
  case (Some flow)
  let ?ba = "without_allocation (dl_transport d) flow (ft_by_allocation t)"
  have r: "range_ok (port_range t)" and al: "alloc_ok (ft_flows t) (ft_by_allocation t)"
    and cu: "hm_ok (ft_next_source_port t)"
    using assms(1) by (simp_all add: ft_inv_def)
  have fo: "flow_ok (port_range t) (ft_dialled_nodes t) key flow"
    using assms(1) Some by (simp add: ft_inv_def flows_ok_def)
  have give_back: "ft_inv (t\<lparr>ft_flows := hm_insert key (flow\<lparr>af_allocation := None\<rparr>) (ft_flows t),
      ft_by_allocation := ?ba, ft_next_source_port := cursors\<rparr>)" if "hm_ok cursors" for cursors
    using fo assms(2)
    by (intro ft_inv_replace [OF assms(1) Some _ alloc_ok_give_back [OF al assms(2) Some] that])
      (simp add: flow_ok_def)
  have move: "ft_inv (t\<lparr>ft_flows := hm_insert key
        (flow\<lparr>af_allocation := Some \<lparr>al_target = target, al_port = p\<rparr>\<rparr>) (ft_flows t),
      ft_by_allocation := hm_insert
        (allocation_key_of (dl_transport d) \<lparr>al_target = target, al_port = p\<rparr>) key ?ba,
      ft_next_source_port := cursors\<rparr>)"
    if a: "allocate_source_port ?ba (ft_next_source_port t) (port_range t) (dl_transport d) target
      = (Some p, cursors)" for target p cursors
  proof -
    note s = allocate_source_port_Some [OF r a]
    have "hm_ok cursors"
      using allocate_source_port_hm_ok [OF cu, of ?ba "port_range t" "dl_transport d" target] a by simp
    moreover have "flow_ok (port_range t) (ft_dialled_nodes t) key
        (flow\<lparr>af_allocation := Some \<lparr>al_target = target, al_port = p\<rparr>\<rparr>)"
      using fo assms(2) s by (simp add: flow_ok_def)
    ultimately show ?thesis
      using s by (intro ft_inv_replace [OF assms(1) Some _ alloc_ok_move [OF al assms(2) Some]])
        (simp_all add: allocation_key_of_def)
  qed
  have none: "hm_ok cursors"
    if "allocate_source_port ?ba (ft_next_source_port t) (port_range t) (dl_transport d) target
      = (None, cursors)" for target cursors
    using allocate_source_port_None_cursors [OF that] cu by simp
  show ?thesis
    unfolding forward_with_identity_eq [OF Some]
    using assms(1) give_back move none
    by (auto simp: Let_def split: sum.split prod.split option.split)
qed

lemma forward_legacy_inv:
  assumes "ft_inv t"
  shows "ft_inv (snd (forward_legacy n p d dp cache t))"
proof -
  have "ft_inv (t\<lparr>ft_flows := hm_insert (flow_key_new n p None) flow' (ft_flows t)\<rparr>)"
    if "hm_get (ft_flows t) (flow_key_new n p None) = Some flow"
      and "af_allocation flow' = af_allocation flow" for flow flow'
  proof -
    have al: "alloc_ok (hm_insert (flow_key_new n p None) flow' (ft_flows t)) (ft_by_allocation t)"
    proof (rule alloc_okI)
      have ok: "alloc_ok (ft_flows t) (ft_by_allocation t)" using assms by (simp add: ft_inv_def)
      then show "hm_ok (ft_by_allocation t)" by (simp add: alloc_ok_def)
      show "hm_get (ft_by_allocation t) ak = Some k \<longleftrightarrow>
          owns (hm_insert (flow_key_new n p None) flow' (ft_flows t)) k ak" for ak k
        unfolding alloc_okD [OF ok] by (simp add: owns_insert) (simp add: owns_def)
    qed
    have "flow_ok (port_range t) (ft_dialled_nodes t) (flow_key_new n p None) flow'"
      using ft_inv_flow_ok [OF assms that(1)] that(2) by (simp add: flow_ok_def)
    from ft_inv_replace [OF assms that(1) this al, of "ft_next_source_port t"]
    show ?thesis using assms by (simp add: ft_inv_def)
  qed
  then show ?thesis
    using assms by (auto simp: forward_legacy_def Let_def split: option.split sum.split)
qed

lemma forward_inv: "ft_inv t \<Longrightarrow> ft_inv (snd (forward n p d dp cache t))"
  by (auto simp: forward_def Let_def forward_with_identity_inv forward_legacy_inv split: option.split)


section \<open>What forwarding decides\<close>

lemma ft_inv_alloc: "ft_inv t \<Longrightarrow> alloc_ok (ft_flows t) (ft_by_allocation t)"
  by (simp add: ft_inv_def)

lemma ft_inv_by_allocation:
  "ft_inv t \<Longrightarrow> hm_get (ft_by_allocation t) ak = Some key \<longleftrightarrow> owns (ft_flows t) key ak"
  by (rule alloc_okD) (rule ft_inv_alloc)

lemma owns_iff:
  "owns flows key ak \<longleftrightarrow> (\<exists>d flow a. fk_dialled key = Some d \<and> hm_get flows key = Some flow \<and>
     af_allocation flow = Some a \<and> ak = allocation_key_of (dl_transport d) a)"
  by (cases "hm_get flows key") (auto simp: owns_def split: option.splits)

lemma resolve_rule_Inr:
  "resolve_rule rules tr port cache = Inr (a, ip) \<longleftrightarrow>
     (\<exists>rule. rules_for rules tr port = [rule] \<and> dns_resolve cache (pr_internal_host rule) = Some a \<and>
       ip = pr_internal_port rule)"
  by (auto simp: resolve_rule_def split: list.splits option.splits)

lemma resolve_rule_Inl:
  "resolve_rule rules tr port cache = Inl r \<Longrightarrow>
     r \<in> {PortNotConfigured, AmbiguousEndpoint, HostUnresolved}"
  by (auto simp: resolve_rule_def split: list.splits option.splits)

text \<open>A forwarded dialled flow owns the allocation it was forwarded by.\<close>

lemma forward_with_identity_owns:
  assumes "ft_inv t" "fk_dialled key = Some d"
    and "forward_with_identity key d cache t = (Forward a change sp, t')"
  shows "\<exists>flow rule p. hm_get (ft_flows t) key = Some flow \<and>
    rules_for (af_rules flow) (Some (dl_transport d)) (dl_destination_port d) = [rule] \<and>
    dns_resolve cache (pr_internal_host rule) = Some a \<and> sp = Some p \<and>
    change = destination_change (pr_internal_port rule) (dl_destination_port d) \<and>
    in_range (port_range t) p \<and>
    owns (ft_flows t') key (dl_transport d, a, pr_internal_port rule, p)"
proof -
  obtain flow where f: "hm_get (ft_flows t) key = Some flow"
    using assms(3) by (auto simp: forward_with_identity_def split: option.splits)
  obtain ip where res: "resolve_rule (af_rules flow) (Some (dl_transport d)) (dl_destination_port d) cache
      = Inr (a, ip)" and ch: "change = destination_change ip (dl_destination_port d)"
    using assms(3) unfolding forward_with_identity_eq [OF f]
    by (auto simp: Let_def split: sum.splits if_splits prod.splits option.splits)
  obtain rule where rule: "rules_for (af_rules flow) (Some (dl_transport d)) (dl_destination_port d) = [rule]"
    "dns_resolve cache (pr_internal_host rule) = Some a" "ip = pr_internal_port rule"
    using res by (auto simp: resolve_rule_Inr)
  have r: "range_ok (port_range t)" using assms(1) by (simp add: ft_inv_def)
  show ?thesis
  proof (cases "\<exists>al. af_allocation flow = Some al \<and> al_target al = (a, ip)")
    case True
    then obtain al where al: "af_allocation flow = Some al" "al_target al = (a, ip)" by blast
    have "in_range (port_range t) (al_port al)"
      using ft_inv_flow_ok [OF assms(1) f] al assms(2) by (simp add: flow_ok_def)
    then show ?thesis
      using assms(2,3) f rule al ch res unfolding forward_with_identity_eq [OF f]
      by (auto simp: owns_iff allocation_key_of_def Let_def)
  next
    case False
    then obtain p cursors where ap: "allocate_source_port
        (without_allocation (dl_transport d) flow (ft_by_allocation t))
        (ft_next_source_port t) (port_range t) (dl_transport d) (a, ip) = (Some p, cursors)"
      "sp = Some p"
      and t': "t' = t\<lparr>ft_flows := hm_insert key
          (flow\<lparr>af_allocation := Some \<lparr>al_target = (a, ip), al_port = p\<rparr>\<rparr>) (ft_flows t),
        ft_by_allocation := hm_insert
          (allocation_key_of (dl_transport d) \<lparr>al_target = (a, ip), al_port = p\<rparr>) key
          (without_allocation (dl_transport d) flow (ft_by_allocation t)),
        ft_next_source_port := cursors\<rparr>"
      using assms(3) res unfolding forward_with_identity_eq [OF f]
      by (auto simp: Let_def split: option.splits prod.splits if_splits)
    show ?thesis
      using allocate_source_port_Some [OF r ap(1)] f rule ch ap(2) assms(2)
      by (auto simp: t' owns_insert allocation_key_of_def)
  qed
qed

text \<open>The dialled branch of \<open>route_reply\<close> finds exactly the flow that owns the allocation.\<close>

lemma dialled_route_owner:
  assumes "ft_inv t" "owns (ft_flows t) key (tr, s, sp, port)" "fk_dialled key = Some d"
  shows "dialled_route (Some tr) (Some s) (Some sp) port t = Some (key, d)"
  using assms ft_inv_by_allocation [OF assms(1), of "(tr, s, sp, port)" key]
  by (auto simp: dialled_route_def hm_contains_def owns_iff)

lemma dialled_route_Some:
  assumes "ft_inv t" "dialled_route tr s sp port t = Some (key, d)"
  shows "\<exists>tr' s' sp'. tr = Some tr' \<and> s = Some s' \<and> sp = Some sp' \<and> fk_dialled key = Some d \<and>
    owns (ft_flows t) key (tr', s', sp', port)"
  using assms(2) ft_inv_by_allocation [OF assms(1)]
  by (auto simp: dialled_route_def split: option.splits if_splits)

end
