(* ===== verification/Flow_Machine.thy ===== *)
theory Flow_Machine
  imports Flow_Forward
begin

text \<open>
  The flow table as a machine: its operations as events, the abstract admission table they
  implement, and the simulation. \<open>ft_run\<close> interprets the interface of an implementing machine, so
  the invariant and the abstraction hold after every sequence of operations.
\<close>

section \<open>The operations of the table as events\<close>

datatype ft_event =
    EvAdmit string u16 "dialled option" string string string "port_rule list"
  | EvRelease string instant
  | EvEvictNode string
  | EvEvictDevice string string
  | EvUpdateRules string "port_rule list" instant
  | EvRetainRules "string list"
  | EvIsRuleEnded string u16 "dialled option" instant
  | EvForward string u16 "dialled option" u16 dns_cache
  | EvBuffer string u16 "dialled option" bytes instant
  | EvTake string u16 "dialled option" instant
  | EvControlPort string u16
  | EvOutboundPort string u16

fun ft_step :: "ft_event \<Rightarrow> flow_table \<Rightarrow> flow_table" where
  "ft_step (EvAdmit n p d g f dev rules) t = admit_flow n p d g f dev rules t"
| "ft_step (EvRelease f now) t = release f now t"
| "ft_step (EvEvictNode n) t = evict_node n t"
| "ft_step (EvEvictDevice g dev) t = snd (evict_gateway_device g dev t)"
| "ft_step (EvUpdateRules g rules now) t = snd (update_rules g rules now t)"
| "ft_step (EvRetainRules gs) t = retain_gateway_rules (\<lambda>g. g \<in> set gs) t"
| "ft_step (EvIsRuleEnded n p d now) t = snd (is_rule_ended n p d now t)"
| "ft_step (EvForward n p d dp cache) t = snd (forward n p d dp cache t)"
| "ft_step (EvBuffer n p d packet now) t = buffer_pending n p d packet now t"
| "ft_step (EvTake n p d now) t = snd (take_pending n p d now t)"
| "ft_step (EvControlPort n p) t = record_control_channel_port n p t"
| "ft_step (EvOutboundPort n p) t = record_outbound_control_channel_port n p t"

lemma ft_step_inv: "ft_inv t \<Longrightarrow> ft_inv (ft_step e t)"
  by (cases e) (simp_all add: admit_flow_inv release_inv evict_node_inv evict_gateway_device_inv
      update_rules_inv retain_gateway_rules_inv is_rule_ended_inv forward_inv buffer_pending_inv
      take_pending_inv record_control_channel_port_inv record_outbound_control_channel_port_inv)

section \<open>The admission table the operations implement\<close>

text \<open>
  What a flow table promises, with its indexes, allocations and bounded tables left out: which
  flows are admitted and under what rules, which rules each gateway has, which nodes dial with an
  identity.
\<close>

record admission =
  ad_gateway :: string
  ad_flow_id :: string
  ad_device :: string
  ad_rules :: "port_rule list"
  ad_address :: "ipv4addr option"
  ad_served :: "(transport option \<times> u16) option"

record admission_table =
  at_flows :: "flow_key \<rightharpoonup> admission"
  at_rules :: "string \<rightharpoonup> port_rule list"
  at_dialled :: "string set"

definition admission_of :: "admitted_flow \<Rightarrow> admission" where
  "admission_of flow = \<lparr>ad_gateway = af_gateway_id flow, ad_flow_id = af_flow_id flow,
     ad_device = af_device_public_key flow, ad_rules = af_rules flow,
     ad_address = af_virtual_address flow, ad_served = af_served flow\<rparr>"

definition admissions :: "flow_table \<Rightarrow> admission_table" where
  "admissions t = \<lparr>at_flows = (\<lambda>key. map_option admission_of (hm_get (ft_flows t) key)),
     at_rules = (\<lambda>g. hm_get (ft_gateway_rules t) g), at_dialled = set (ft_dialled_nodes t)\<rparr>"

definition no_admissions :: admission_table where
  "no_admissions = \<lparr>at_flows = Map.empty, at_rules = Map.empty, at_dialled = {}\<rparr>"

definition keep_flows :: "(flow_key \<Rightarrow> admission \<Rightarrow> bool) \<Rightarrow> admission_table \<Rightarrow> admission_table" where
  "keep_flows p a = a\<lparr>at_flows := (\<lambda>key. case at_flows a key of
     None \<Rightarrow> None | Some f \<Rightarrow> if p key f then Some f else None)\<rparr>"

definition ad_still_served :: "flow_key \<Rightarrow> admission \<Rightarrow> port_rule list \<Rightarrow> bool" where
  "ad_still_served key f rules = (case (fk_dialled key, ad_served f) of
     (Some d, _) \<Rightarrow> matching_rule rules (Some (dl_transport d)) (dl_destination_port d) \<noteq> None
   | (None, Some (tr, port)) \<Rightarrow>
       (case matching_rule rules tr port of None \<Rightarrow> False | Some rule \<Rightarrow> pr_internal_port rule = port)
   | (None, None) \<Rightarrow> True)"

text \<open>The flow a packet belongs to: one with its identity, else one without that accepts it.\<close>

definition at_lookup :: "string \<Rightarrow> u16 \<Rightarrow> dialled option \<Rightarrow> admission_table \<Rightarrow> (flow_key \<times> admission) option" where
  "at_lookup n p d a =
     (let key = flow_key_new n p d; legacy = flow_key_new n p None
      in case (d, at_flows a key) of
           (Some _, Some f) \<Rightarrow> Some (key, f)
         | (None, Some f) \<Rightarrow> Some (legacy, f)
         | (None, None) \<Rightarrow> None
         | (Some dl, None) \<Rightarrow>
             (case at_flows a legacy of
                None \<Rightarrow> None
              | Some f \<Rightarrow>
                  if (case ad_address f of Some addr \<Rightarrow> addr = dl_gateway_address dl
                                         | None \<Rightarrow> n \<notin> at_dialled a)
                  then Some (legacy, f) else None))"

definition at_forward ::
  "string \<Rightarrow> u16 \<Rightarrow> dialled option \<Rightarrow> u16 \<Rightarrow> dns_cache \<Rightarrow> admission_table \<Rightarrow> forwarding" where
  "at_forward n p d dp cache a =
     (case at_lookup n p d a of
        None \<Rightarrow> NotAdmitted
      | Some (key, f) \<Rightarrow>
          (case fk_dialled key of
             Some dl \<Rightarrow>
               (case resolve_rule (ad_rules f) (Some (dl_transport dl)) (dl_destination_port dl) cache of
                  Inl r \<Rightarrow> Refused r
                | Inr (addr, ip) \<Rightarrow> Forward addr (destination_change ip (dl_destination_port dl)) None)
           | None \<Rightarrow>
               (case resolve_rule (ad_rules f) (map_option dl_transport d) dp cache of
                  Inl r \<Rightarrow> Refused r
                | Inr (addr, ip) \<Rightarrow>
                    if ip \<noteq> dp then Refused PortTranslationNeedsUpdatedNode
                    else Forward addr None None)))"

text \<open>What a forwarded packet leaves: a flow without an identity learns what it was dialled by.\<close>

definition at_touch ::
  "string \<Rightarrow> u16 \<Rightarrow> dialled option \<Rightarrow> u16 \<Rightarrow> dns_cache \<Rightarrow> admission_table \<Rightarrow> admission_table" where
  "at_touch n p d dp cache a =
     (case at_lookup n p d a of
        None \<Rightarrow> a
      | Some (key, f) \<Rightarrow>
          (case (fk_dialled key, at_forward n p d dp cache a) of
             (None, Forward _ _ _) \<Rightarrow>
               a\<lparr>at_flows := (at_flows a)(key \<mapsto>
                 f\<lparr>ad_address := (case d of Some dl \<Rightarrow> Some (dl_gateway_address dl) | None \<Rightarrow> ad_address f),
                   ad_served := (if ad_served f = None then Some (map_option dl_transport d, dp)
                                 else ad_served f)\<rparr>)\<rparr>
           | _ \<Rightarrow> a))"

fun at_step :: "ft_event \<Rightarrow> admission_table \<Rightarrow> admission_table" where
  "at_step (EvAdmit n p d g f dev rules) a =
     a\<lparr>at_flows := (at_flows a)(flow_key_new n p d \<mapsto>
         \<lparr>ad_gateway = g, ad_flow_id = f, ad_device = dev, ad_rules = rules,
          ad_address = map_option dl_gateway_address d, ad_served = None\<rparr>),
       at_dialled := (if d = None then at_dialled a else insert n (at_dialled a))\<rparr>"
| "at_step (EvRelease f now) a = keep_flows (\<lambda>_ x. ad_flow_id x \<noteq> f) a"
| "at_step (EvEvictNode n) a =
     (keep_flows (\<lambda>key _. fk_node_id key \<noteq> n) a)\<lparr>at_dialled := at_dialled a - {n}\<rparr>"
| "at_step (EvEvictDevice g dev) a =
     keep_flows (\<lambda>_ x. \<not> (ad_gateway x = g \<and> ad_device x = dev)) a"
| "at_step (EvUpdateRules g rules now) a =
     (let kept = keep_flows (\<lambda>key x. ad_gateway x = g \<longrightarrow> ad_still_served key x rules) a
      in kept\<lparr>at_rules := (at_rules a)(g \<mapsto> rules),
              at_flows := (\<lambda>key. map_option (\<lambda>x. if ad_gateway x = g then x\<lparr>ad_rules := rules\<rparr> else x)
                             (at_flows kept key))\<rparr>)"
| "at_step (EvRetainRules gs) a = a\<lparr>at_rules := (at_rules a) |` set gs\<rparr>"
| "at_step (EvForward n p d dp cache) a = at_touch n p d dp cache a"
| "at_step _ a = a"


section \<open>The table implements it\<close>

lemma admission_table_eqI:
  "(\<And>key. at_flows a key = at_flows b key) \<Longrightarrow> (\<And>g. at_rules a g = at_rules b g) \<Longrightarrow>
     at_dialled a = at_dialled b \<Longrightarrow> a = (b :: admission_table)"
  by (cases a; cases b) auto

lemma admissions_sel [simp]:
  "at_flows (admissions t) key = map_option admission_of (hm_get (ft_flows t) key)"
  "at_rules (admissions t) g = hm_get (ft_gateway_rules t) g"
  "at_dialled (admissions t) = set (ft_dialled_nodes t)"
  by (simp_all add: admissions_def)

lemma admission_of_sel [simp]:
  "ad_gateway (admission_of f) = af_gateway_id f" "ad_flow_id (admission_of f) = af_flow_id f"
  "ad_device (admission_of f) = af_device_public_key f" "ad_rules (admission_of f) = af_rules f"
  "ad_address (admission_of f) = af_virtual_address f" "ad_served (admission_of f) = af_served f"
  by (simp_all add: admission_of_def)

lemma admissions_new: "admissions flow_table_new = no_admissions"
  by (simp add: admissions_def no_admissions_def flow_table_new_def)

lemma admissions_cong:
  "ft_flows t = ft_flows t' \<Longrightarrow> ft_gateway_rules t = ft_gateway_rules t' \<Longrightarrow>
     ft_dialled_nodes t = ft_dialled_nodes t' \<Longrightarrow> admissions t = admissions t'"
  by (simp add: admissions_def)

lemma admissions_admit:
  "admissions (admit_flow n p d g f dev rules t) = at_step (EvAdmit n p d g f dev rules) (admissions t)"
proof (rule admission_table_eqI)
  show "at_dialled (admissions (admit_flow n p d g f dev rules t)) =
      at_dialled (at_step (EvAdmit n p d g f dev rules) (admissions t))"
    by (simp add: admit_flow_eq Let_def)
qed (simp_all add: admit_flow_flows new_flow_def admission_of_def)

lemma at_flows_keep_flows [simp]:
  "at_flows (keep_flows p a) key = (case at_flows a key of
     None \<Rightarrow> None | Some f \<Rightarrow> if p key f then Some f else None)"
  "at_rules (keep_flows p a) = at_rules a" "at_dialled (keep_flows p a) = at_dialled a"
  by (simp_all add: keep_flows_def)

lemma admissions_remove_where:
  assumes "ft_inv t" "\<And>key f. p key f \<longleftrightarrow> \<not> q key (admission_of f)"
  shows "admissions (snd (remove_flows_where p t)) = keep_flows q (admissions t)"
  by (rule admission_table_eqI)
    (auto simp: remove_flows_where_flows [OF ft_inv_flows_hm_ok [OF assms(1)]] assms(2) split: option.split)

lemma admissions_release:
  "ft_inv t \<Longrightarrow> admissions (release f now t) = at_step (EvRelease f now) (admissions t)"
  using admissions_remove_where [of t "\<lambda>_ x. af_flow_id x = f" "\<lambda>_ x. ad_flow_id x \<noteq> f"]
  by (simp add: release_eq Let_def admissions_def)

lemma admissions_evict_node:
  "ft_inv t \<Longrightarrow> admissions (evict_node n t) = at_step (EvEvictNode n) (admissions t)"
  using admissions_remove_where [of t "\<lambda>key _. fk_node_id key = n" "\<lambda>key _. fk_node_id key \<noteq> n"]
  by (simp add: evict_node_eq Let_def admissions_def keep_flows_def)

lemma admissions_evict_device:
  "ft_inv t \<Longrightarrow> admissions (snd (evict_gateway_device g dev t)) = at_step (EvEvictDevice g dev) (admissions t)"
  unfolding evict_gateway_device_def at_step.simps
  by (rule admissions_remove_where) simp_all

lemma ad_still_served_of [simp]: "ad_still_served key (admission_of f) rules = still_served key f rules"
  unfolding ad_still_served_def still_served_def by simp

lemma fold_remember_dialled [simp]:
  "ft_dialled_nodes (fold (remember_rule_ended now) ks t) = ft_dialled_nodes t"
  by (induction ks arbitrary: t) (simp_all add: remember_rule_ended_eq)

lemma admissions_update_rules:
  assumes "ft_inv t"
  shows "admissions (snd (update_rules g rules now t)) = at_step (EvUpdateRules g rules now) (admissions t)"
proof (rule admission_table_eqI)
  fix key
  show "at_flows (admissions (snd (update_rules g rules now t))) key =
      at_flows (at_step (EvUpdateRules g rules now) (admissions t)) key"
    by (auto simp: update_rules_flows [OF assms] unserved_def with_rules_def Let_def
        split: option.split)
next
  fix k
  show "at_rules (admissions (snd (update_rules g rules now t))) k =
      at_rules (at_step (EvUpdateRules g rules now) (admissions t)) k"
    using update_rules_all [OF assms, of g rules now] by (simp add: hm_simps Let_def)
next
  show "at_dialled (admissions (snd (update_rules g rules now t))) =
      at_dialled (at_step (EvUpdateRules g rules now) (admissions t))"
    by (simp add: update_rules_tail refreshed_def Let_def)
qed

lemma admissions_retain:
  "ft_inv t \<Longrightarrow> admissions (retain_gateway_rules (\<lambda>g. g \<in> set gs) t) = at_step (EvRetainRules gs) (admissions t)"
  by (rule admission_table_eqI)
    (auto simp: retain_gateway_rules_def ft_inv_def hm_simps restrict_map_def split: option.split)

lemma check_rule_ended_frame [simp]:
  "ft_gateway_rules (snd (check_rule_ended now ks t)) = ft_gateway_rules t"
  "ft_dialled_nodes (snd (check_rule_ended now ks t)) = ft_dialled_nodes t"
  by (induction ks arbitrary: t) (auto split: option.splits)

lemma admissions_is_rule_ended: "admissions (snd (is_rule_ended n p d now t)) = admissions t"
  unfolding is_rule_ended_def
  by (rule admissions_cong) (rule check_rule_ended_flows check_rule_ended_frame)+

lemma admissions_buffer: "admissions (buffer_pending n p d packet now t) = admissions t"
  by (rule admissions_cong) (simp_all add: buffer_pending_def Let_def)

lemma admissions_take: "admissions (snd (take_pending n p d now t)) = admissions t"
  by (rule admissions_cong) (simp_all add: take_pending_def split: option.split)

lemma admissions_ports:
  "admissions (record_control_channel_port n p t) = admissions t"
  "admissions (record_outbound_control_channel_port n p t) = admissions t"
  by (rule admissions_cong;
      simp add: record_control_channel_port_def record_outbound_control_channel_port_def split_beta)+

text \<open>A dialled flow is forwarded without a change to what was admitted.\<close>

lemma admissions_replace:
  assumes "hm_get (ft_flows t) key = Some flow" "admission_of flow' = admission_of flow"
  shows "admissions (t\<lparr>ft_flows := hm_insert key flow' (ft_flows t), ft_by_allocation := ba,
    ft_next_source_port := cursors\<rparr>) = admissions t"
  using assms by (intro admission_table_eqI) (auto simp: hm_simps)

lemma admissions_forward_with_identity:
  "admissions (snd (forward_with_identity key d cache t)) = admissions t"
proof (cases "hm_get (ft_flows t) key")
  case None
  then show ?thesis by (simp add: forward_with_identity_def)
next
  case (Some flow)
  have "admission_of (flow\<lparr>af_allocation := x\<rparr>) = admission_of flow" for x
    by (simp add: admission_of_def)
  then show ?thesis
    unfolding forward_with_identity_eq [OF Some]
    by (auto simp: Let_def admissions_replace [OF Some] split: sum.split option.split prod.split)
qed


lemma forward_lookup:
  "at_lookup n p d (admissions t) =
     (case d of
        Some dl \<Rightarrow>
          if hm_contains (ft_flows t) (flow_key_new n p d)
          then map_option (\<lambda>f. (flow_key_new n p d, admission_of f)) (hm_get (ft_flows t) (flow_key_new n p d))
          else if legacy_flow_accepts n p (dl_gateway_address dl) t
          then map_option (\<lambda>f. (flow_key_new n p None, admission_of f)) (hm_get (ft_flows t) (flow_key_new n p None))
          else None
      | None \<Rightarrow> map_option (\<lambda>f. (flow_key_new n p None, admission_of f)) (hm_get (ft_flows t) (flow_key_new n p None)))"
  by (auto simp: at_lookup_def Let_def legacy_flow_accepts_def hm_contains_def split: option.split)

text \<open>The verdict with the source port left out, which the admission table does not decide.\<close>

definition verdict :: "forwarding \<Rightarrow> forwarding" where
  "verdict f = (case f of Forward a change _ \<Rightarrow> Forward a change None | _ \<Rightarrow> f)"

definition at_forward_legacy ::
  "admission \<Rightarrow> dialled option \<Rightarrow> u16 \<Rightarrow> dns_cache \<Rightarrow> forwarding" where
  "at_forward_legacy f d dp cache =
     (case resolve_rule (ad_rules f) (map_option dl_transport d) dp cache of
        Inl r \<Rightarrow> Refused r
      | Inr (addr, ip) \<Rightarrow>
          if ip \<noteq> dp then Refused PortTranslationNeedsUpdatedNode else Forward addr None None)"

lemma forward_legacy_verdict:
  assumes "hm_get (ft_flows t) (flow_key_new n p None) = Some flow"
  shows "fst (forward_legacy n p d dp cache t) = at_forward_legacy (admission_of flow) d dp cache"
  using assms by (auto simp: forward_legacy_def at_forward_legacy_def Let_def split: sum.split)

lemma forward_legacy_admissions:
  assumes "hm_get (ft_flows t) (flow_key_new n p None) = Some flow"
  shows "admissions (snd (forward_legacy n p d dp cache t)) =
    (case at_forward_legacy (admission_of flow) d dp cache of
       Forward _ _ _ \<Rightarrow> (admissions t)\<lparr>at_flows := (at_flows (admissions t))(flow_key_new n p None \<mapsto>
         (admission_of flow)\<lparr>
           ad_address := (case d of Some dl \<Rightarrow> Some (dl_gateway_address dl)
                          | None \<Rightarrow> ad_address (admission_of flow)),
           ad_served := (if af_served flow = None then Some (map_option dl_transport d, dp)
                         else af_served flow)\<rparr>)\<rparr>
     | _ \<Rightarrow> admissions t)"
proof (cases "resolve_rule (af_rules flow) (map_option dl_transport d) dp cache")
  case (Inl r)
  then show ?thesis using assms by (simp add: forward_legacy_def at_forward_legacy_def Let_def)
next
  case (Inr target)
  obtain addr ip where target: "target = (addr, ip)" by force
  show ?thesis
  proof (cases "ip = dp")
    case False
    then show ?thesis using assms Inr target by (simp add: forward_legacy_def at_forward_legacy_def Let_def)
  next
    case True
    then show ?thesis
      using assms Inr target
      by (intro admission_table_eqI)
        (auto simp: forward_legacy_def at_forward_legacy_def Let_def hm_simps admission_of_def
          split: option.split)
  qed
qed

lemma forward_with_identity_verdict:
  assumes "hm_get (ft_flows t) key = Some flow"
    "fst (forward_with_identity key dl cache t) \<noteq> Refused NoFreeSourcePort"
  shows "verdict (fst (forward_with_identity key dl cache t)) =
    (case resolve_rule (af_rules flow) (Some (dl_transport dl)) (dl_destination_port dl) cache of
       Inl r \<Rightarrow> Refused r
     | Inr (addr, ip) \<Rightarrow> Forward addr (destination_change ip (dl_destination_port dl)) None)"
  using assms(2) unfolding forward_with_identity_eq [OF assms(1)]
  by (auto simp: verdict_def Let_def split: sum.split option.splits prod.splits if_splits)

lemma at_forward_legacy_key:
  "at_lookup n p d a = Some (key, f) \<Longrightarrow> fk_dialled key = None \<Longrightarrow>
     at_forward n p d dp cache a = at_forward_legacy f d dp cache"
  by (simp add: at_forward_def at_forward_legacy_def)

lemma at_forward_legacy_verdict [simp]:
  "verdict (at_forward_legacy f d dp cache) = at_forward_legacy f d dp cache"
  by (auto simp: verdict_def at_forward_legacy_def split: sum.split)

lemma forward_eq:
  "forward n p d dp cache t =
     (case d of
        Some dl \<Rightarrow>
          if hm_contains (ft_flows t) (flow_key_new n p d)
          then forward_with_identity (flow_key_new n p d) dl cache t
          else if legacy_flow_accepts n p (dl_gateway_address dl) t
          then forward_legacy n p d dp cache t
          else (NotAdmitted, t)
      | None \<Rightarrow> forward_legacy n p d dp cache t)"
  by (auto simp: forward_def Let_def split: option.split)

lemma forward_legacy_absent:
  "hm_get (ft_flows t) (flow_key_new n p None) = None \<Longrightarrow>
     forward_legacy n p d dp cache t = (NotAdmitted, t)"
  by (simp add: forward_legacy_def)

lemma forward_by_legacy:
  assumes "at_lookup n p d (admissions t) = Some (key, f)" "fk_dialled key = None"
  shows "\<exists>flow. hm_get (ft_flows t) (flow_key_new n p None) = Some flow \<and> key = flow_key_new n p None \<and>
    f = admission_of flow \<and> forward n p d dp cache t = forward_legacy n p d dp cache t"
  using assms unfolding forward_lookup forward_eq
  by (auto split: option.splits if_splits)

lemma forward_by_identity:
  assumes "at_lookup n p d (admissions t) = Some (key, f)" "fk_dialled key = Some dl"
  shows "\<exists>flow. hm_get (ft_flows t) key = Some flow \<and> key = flow_key_new n p d \<and> d = Some dl \<and>
    f = admission_of flow \<and> forward n p d dp cache t = forward_with_identity key dl cache t"
  using assms unfolding forward_lookup forward_eq
  by (auto split: option.splits if_splits)

lemma forward_by_none:
  assumes "at_lookup n p d (admissions t) = None"
  shows "forward n p d dp cache t = (NotAdmitted, t)"
  using assms unfolding forward_lookup forward_eq
  by (auto simp: forward_legacy_absent hm_contains_def split: option.splits if_splits)

text \<open>The decision of \<open>forward\<close> is the decision of the admission table, ports permitting.\<close>

lemma forward_decides:
  assumes "fst (forward n p d dp cache t) \<noteq> Refused NoFreeSourcePort"
  shows "verdict (fst (forward n p d dp cache t)) = at_forward n p d dp cache (admissions t)"
proof (cases "at_lookup n p d (admissions t)")
  case None
  then show ?thesis by (simp add: forward_by_none at_forward_def verdict_def)
next
  case (Some kf)
  obtain key f where kf: "kf = (key, f)" by force
  note l = Some [unfolded kf]
  show ?thesis
  proof (cases "fk_dialled key")
    case None
    from forward_by_legacy [OF l None, of dp cache] at_forward_legacy_key [OF l None, of dp cache] show ?thesis
      by (auto simp: forward_legacy_verdict)
  next
    case (Some dl)
    from forward_by_identity [OF l Some, of dp cache] obtain flow where
      "hm_get (ft_flows t) key = Some flow" "d = Some dl" "f = admission_of flow"
      "forward n p d dp cache t = forward_with_identity key dl cache t" by blast
    then show ?thesis
      using assms forward_with_identity_verdict [of t key flow dl cache] l Some
      by (simp add: at_forward_def)
  qed
qed

lemma admissions_forward:
  "admissions (snd (forward n p d dp cache t)) = at_touch n p d dp cache (admissions t)"
proof (cases "at_lookup n p d (admissions t)")
  case None
  then show ?thesis by (simp add: forward_by_none at_touch_def)
next
  case (Some kf)
  obtain key f where kf: "kf = (key, f)" by force
  note l = Some [unfolded kf]
  show ?thesis
  proof (cases "fk_dialled key")
    case None
    from forward_by_legacy [OF l None, of dp cache] obtain flow where
      "hm_get (ft_flows t) (flow_key_new n p None) = Some flow" "key = flow_key_new n p None"
      "f = admission_of flow" "forward n p d dp cache t = forward_legacy n p d dp cache t" by blast
    then show ?thesis
      using l None at_forward_legacy_key [OF l None, of dp cache]
      by (simp add: at_touch_def forward_legacy_admissions split: forwarding.split)
  next
    case (Some dl)
    from forward_by_identity [OF l Some, of dp cache] show ?thesis
      using l Some by (auto simp: at_touch_def admissions_forward_with_identity)
  qed
qed

lemma admissions_step: "ft_inv t \<Longrightarrow> admissions (ft_step e t) = at_step e (admissions t)"
  by (cases e) (simp_all del: at_step.simps(1-6) at_step.simps(8)
      add: admissions_admit admissions_release admissions_evict_node admissions_evict_device
      admissions_update_rules admissions_retain admissions_is_rule_ended admissions_buffer
      admissions_take admissions_ports admissions_forward at_step.simps(7-12))

interpretation ft_run: implementing_machine ft_step ft_inv admissions at_step
  by unfold_locales (simp_all add: ft_step_inv admissions_step)

end
