(* ===== verification/Port_Registry.thy ===== *)
theory Port_Registry
  imports Flow_Machine
begin

text \<open>
  The contract of the two bounded port tables (control-channel ports seen inbound, and the source
  ports of the Connector's own polls): a locale, its lemmas, and an interpretation for each table.
\<close>

section \<open>The interface of a bounded port registry\<close>

definition evict_oldest :: "u16 list \<Rightarrow> u16 list" where
  "evict_oldest order =
     (if length order > MAX_TRACKED_CONTROL_CHANNEL_PORTS then tl order else order)"

locale bounded_registry =
  fixes put :: "string \<Rightarrow> u16 \<Rightarrow> 's \<Rightarrow> 's"
    and owner :: "'s \<Rightarrow> u16 \<Rightarrow> string option"
    and order :: "'s \<Rightarrow> u16 list"
    and ok :: "'s \<Rightarrow> bool"
  assumes ok_put: "ok s \<Longrightarrow> ok (put n p s)"
    and order_owner: "ok s \<Longrightarrow> p \<in> set (order s) \<longleftrightarrow> owner s p \<noteq> None"
    and order_bound: "ok s \<Longrightarrow> length (order s) \<le> MAX_TRACKED_CONTROL_CHANNEL_PORTS"
    and order_put: "ok s \<Longrightarrow> order (put n p s) =
      (if owner s p = None then evict_oldest (order s @ [p]) else order s)"
    and owner_put: "ok s \<Longrightarrow> owner (put n p s) p' =
      (if p' = p then Some n else if p' \<in> set (order (put n p s)) then owner s p' else None)"
begin

lemma ok_run: "ok s \<Longrightarrow> ok (fold (\<lambda>(n, p). put n p) rs s)"
  by (induction rs arbitrary: s) (auto simp: ok_put)

lemma bound_run:
  "ok s \<Longrightarrow> length (order (fold (\<lambda>(n, p). put n p) rs s)) \<le> MAX_TRACKED_CONTROL_CHANNEL_PORTS"
  by (rule order_bound) (rule ok_run)

text \<open>The position of a port moves one place towards the front per new port, at most.\<close>

lemma position_run:
  assumes "ok s" "order s = pre @ p # post" "owner s p = Some n"
    and "length post + length rs < MAX_TRACKED_CONTROL_CHANNEL_PORTS" "p \<notin> snd ` set rs"
  shows "owner (fold (\<lambda>(n, p). put n p) rs s) p = Some n"
  using assms
proof (induction rs arbitrary: s pre post)
  case Nil
  then show ?case by simp
next
  case (Cons r rs)
  obtain m q where r: "r = (m, q)" by force
  have ne: "q \<noteq> p" using Cons.prems(5) r by auto
  let ?s = "put m q s"
  have ok: "ok ?s" using Cons.prems(1) by (rule ok_put)
  have "\<exists>pre' post'. order ?s = pre' @ p # post' \<and> length post' \<le> Suc (length post)"
  proof (cases "owner s q = None")
    case False
    then show ?thesis using Cons.prems(1,2) by - (rule exI [of _ pre], rule exI [of _ post], auto simp: order_put)
  next
    case True
    show ?thesis
    proof (cases "length (order s @ [q]) > MAX_TRACKED_CONTROL_CHANNEL_PORTS")
      case False
      then show ?thesis
        using True Cons.prems(1,2)
        by - (rule exI [of _ pre], rule exI [of _ "post @ [q]"], simp add: order_put evict_oldest_def)
    next
      case over: True
      then obtain o1 pre' where "pre = o1 # pre'"
        using Cons.prems(2,4) by (cases pre) auto
      then show ?thesis
        using over True Cons.prems(1,2)
        by - (rule exI [of _ pre'], rule exI [of _ "post @ [q]"], simp add: order_put evict_oldest_def)
    qed
  qed
  then obtain pre' post' where o: "order ?s = pre' @ p # post'" "length post' \<le> Suc (length post)"
    by blast
  have "owner ?s p = Some n" using Cons.prems(1,3) ne o by (simp add: owner_put)
  from Cons.IH [OF ok o(1) this] Cons.prems(4,5) o(2) r show ?case by auto
qed

lemma fresh_survives:
  assumes "ok s" "owner s p = None" "length rs < MAX_TRACKED_CONTROL_CHANNEL_PORTS"
    "p \<notin> snd ` set rs"
  shows "owner (fold (\<lambda>(n, p). put n p) rs (put n p s)) p = Some n"
proof -
  have "\<exists>pre. order (put n p s) = pre @ p # []"
  proof (cases "length (order s @ [p]) > MAX_TRACKED_CONTROL_CHANNEL_PORTS")
    case True
    then have "order s \<noteq> []" by (auto simp: MAX_TRACKED_CONTROL_CHANNEL_PORTS_def)
    then have "evict_oldest (order s @ [p]) = tl (order s) @ [p]"
      using True by (simp add: evict_oldest_def)
    then show ?thesis using assms by (simp add: order_put)
  next
    case False
    then show ?thesis using assms by (simp add: order_put evict_oldest_def)
  qed
  then obtain pre where "order (put n p s) = pre @ p # []" ..
  from position_run [OF ok_put [OF assms(1)] this] show ?thesis
    using assms by (simp add: owner_put)
qed

text \<open>The port recorded first goes first, when a port not known yet is recorded past the bound.\<close>

lemma oldest_goes:
  assumes "ok s" "order s = oldest # rest" "owner s p = None"
    "length (order s) = MAX_TRACKED_CONTROL_CHANNEL_PORTS" "distinct (order s)"
  shows "owner (put n p s) oldest = None"
proof -
  have "oldest \<noteq> p" using assms order_owner [OF assms(1), of oldest] by auto
  then show ?thesis using assms by (simp add: owner_put order_put evict_oldest_def)
qed

end

section \<open>Both port tables of the flow table are such registries\<close>

lemma record_bounded_port_order:
  assumes "port_table_ok mo"
  shows "snd (record_bounded_port n p mo) =
    (if hm_get (fst mo) p = None then evict_oldest (snd mo @ [p]) else snd mo)"
  by (cases mo; cases "snd mo")
    (auto simp: record_bounded_port_def evict_oldest_def Let_def)

lemma record_bounded_port_get:
  assumes "port_table_ok mo"
  shows "hm_get (fst (record_bounded_port n p mo)) p' =
    (if p' = p then Some n
     else if p' \<in> set (snd (record_bounded_port n p mo)) then hm_get (fst mo) p' else None)"
proof -
  obtain m order where mo: "mo = (m, order)" by force
  have a: "distinct order" "\<And>q. q \<in> set order \<longleftrightarrow> hm_contains m q"
    using assms by (simp_all add: mo port_table_ok_def)
  have none: "q \<notin> set order \<Longrightarrow> hm_get m q = None" for q
    using a(2) by (simp add: hm_contains_def)
  show ?thesis
  proof (cases order)
    case Nil
    then show ?thesis using none
      by (auto simp: mo record_bounded_port_def Let_def hm_simps MAX_TRACKED_CONTROL_CHANNEL_PORTS_def)
  next
    case (Cons oldest order')
    then show ?thesis using none a
      by (auto simp: mo record_bounded_port_def Let_def hm_simps hm_contains_def)
  qed
qed

lemma ft_inv_ports:
  "ft_inv t \<Longrightarrow> port_table_ok (ft_control_ports t, ft_control_order t)"
  "ft_inv t \<Longrightarrow> port_table_ok (ft_outbound_ports t, ft_outbound_order t)"
  by (simp_all add: ft_inv_def)

interpretation control_ports: bounded_registry record_control_channel_port
    node_for_control_channel_port ft_control_order ft_inv
proof
  fix t :: flow_table and n p p'
  assume i: "ft_inv t"
  note mo = ft_inv_ports(1) [OF i]
  show "ft_inv (record_control_channel_port n p t)" using i by (rule record_control_channel_port_inv)
  show "p \<in> set (ft_control_order t) \<longleftrightarrow> node_for_control_channel_port t p \<noteq> None"
    using mo by (simp add: port_table_ok_def node_for_control_channel_port_def hm_contains_def)
  show "length (ft_control_order t) \<le> MAX_TRACKED_CONTROL_CHANNEL_PORTS"
    using mo by (simp add: port_table_ok_def)
  show "ft_control_order (record_control_channel_port n p t) =
      (if node_for_control_channel_port t p = None then evict_oldest (ft_control_order t @ [p])
       else ft_control_order t)"
    using record_bounded_port_order [OF mo, of n p]
    by (simp add: record_control_channel_port_def node_for_control_channel_port_def split_beta)
  show "node_for_control_channel_port (record_control_channel_port n p t) p' =
      (if p' = p then Some n
       else if p' \<in> set (ft_control_order (record_control_channel_port n p t))
       then node_for_control_channel_port t p' else None)"
    using record_bounded_port_get [OF mo, of n p p']
    by (simp add: record_control_channel_port_def node_for_control_channel_port_def split_beta)
qed

interpretation outbound_ports: bounded_registry record_outbound_control_channel_port
    node_for_outbound_port ft_outbound_order ft_inv
proof
  fix t :: flow_table and n p p'
  assume i: "ft_inv t"
  note mo = ft_inv_ports(2) [OF i]
  show "ft_inv (record_outbound_control_channel_port n p t)"
    using i by (rule record_outbound_control_channel_port_inv)
  show "p \<in> set (ft_outbound_order t) \<longleftrightarrow> node_for_outbound_port t p \<noteq> None"
    using mo by (simp add: port_table_ok_def node_for_outbound_port_def hm_contains_def)
  show "length (ft_outbound_order t) \<le> MAX_TRACKED_CONTROL_CHANNEL_PORTS"
    using mo by (simp add: port_table_ok_def)
  show "ft_outbound_order (record_outbound_control_channel_port n p t) =
      (if node_for_outbound_port t p = None then evict_oldest (ft_outbound_order t @ [p])
       else ft_outbound_order t)"
    using record_bounded_port_order [OF mo, of n p]
    by (simp add: record_outbound_control_channel_port_def node_for_outbound_port_def split_beta)
  show "node_for_outbound_port (record_outbound_control_channel_port n p t) p' =
      (if p' = p then Some n
       else if p' \<in> set (ft_outbound_order (record_outbound_control_channel_port n p t))
       then node_for_outbound_port t p' else None)"
    using record_bounded_port_get [OF mo, of n p p']
    by (simp add: record_outbound_control_channel_port_def node_for_outbound_port_def split_beta)
qed

end
