(* ===== verification/Flow_Table_Props.thy ===== *)
theory Flow_Table_Props
  imports Port_Registry
begin

text \<open>
  The properties of the flow table, each with a witness on a concrete table. \<open>run\<close> is the table
  after any sequence of operations on a fresh one.
\<close>

lemma owns_unique:
  assumes "ft_inv t" "owns (ft_flows t) k ak" "owns (ft_flows t) k' ak"
  shows "k = k'"
  using assms ft_inv_by_allocation [OF assms(1), of ak] by (metis option.inject)

section \<open>Reachable tables\<close>

definition run :: "ft_event list \<Rightarrow> flow_table" where
  "run es = fold ft_step es flow_table_new"

lemma run_inv: "ft_inv (run es)"
  unfolding run_def by (rule ft_run.inv_run) (rule ft_inv_new)

lemma run_admissions: "admissions (run es) = fold at_step es no_admissions"
  unfolding run_def ft_run.simulates_run [OF ft_inv_new] admissions_new ..

text \<open>
  C16: after any sequence of the table's operations from a fresh table, the reply index is the
  exact inverse of the allocations held by the flows, the port index lists exactly the flows
  without an identity, an admitted flow is never also remembered as ended, and every bounded
  table is within its bound
\<close>

theorem flow_table_reachable_invariant: "ft_inv (run es)"
  by (rule run_inv)

text \<open>
  C15: every sequence of operations on the flow table implements the same sequence on the
  abstract admission table (finite maps from flow key to admission and from gateway to rules),
  all index, allocation and queue bookkeeping abstracted away
\<close>

theorem flow_table_refines_admissions:
  "admissions (run es) = fold at_step es no_admissions"
  by (rule run_admissions)

text \<open>
  C19: whether a packet is forwarded, to which address and port, or why it is refused, is the
  decision of the abstract admission table; the only other outcome is that no source port is
  free
\<close>

theorem forward_decision:
  "fst (forward n p d dp cache t) = Refused NoFreeSourcePort \<or>
   verdict (fst (forward n p d dp cache t)) = at_forward n p d dp cache (admissions t)"
  using forward_decides by blast

section \<open>Source ports\<close>

lemma without_allocation_contains:
  assumes "ft_inv t" "hm_get (ft_flows t) key = Some flow" "fk_dialled key = Some d"
  shows "hm_contains (without_allocation (dl_transport d) flow (ft_by_allocation t)) ak \<longleftrightarrow>
    (\<exists>k. k \<noteq> key \<and> owns (ft_flows t) k ak)"
  using without_allocation_get [OF ft_inv_alloc [OF assms(1)] assms(3,2)]
  by (auto simp: hm_contains_iff)

text \<open>
  C37: a flow is refused for want of a source port exactly when its rule resolves, it does not
  already hold an allocation for that target, and every port of the range is held by another
  flow of that transport to that target
\<close>

theorem no_free_source_port_iff:
  assumes "ft_inv t" "hm_get (ft_flows t) (flow_key_new n p (Some d)) = Some flow"
  shows "fst (forward n p (Some d) dp cache t) = Refused NoFreeSourcePort \<longleftrightarrow>
    (\<exists>a ip. resolve_rule (af_rules flow) (Some (dl_transport d)) (dl_destination_port d) cache = Inr (a, ip) \<and>
      (\<forall>al. af_allocation flow = Some al \<longrightarrow> al_target al \<noteq> (a, ip)) \<and>
      (\<forall>sp. in_range (port_range t) sp \<longrightarrow>
        (\<exists>k. k \<noteq> flow_key_new n p (Some d) \<and> owns (ft_flows t) k (dl_transport d, a, ip, sp))))"
proof -
  let ?key = "flow_key_new n p (Some d)"
  let ?ba = "without_allocation (dl_transport d) flow (ft_by_allocation t)"
  have r: "range_ok (port_range t)" using assms(1) by (simp add: ft_inv_def)
  have c: "hm_contains ?ba ak \<longleftrightarrow> (\<exists>k. k \<noteq> ?key \<and> owns (ft_flows t) k ak)" for ak
    using without_allocation_contains [OF assms] by simp
  have full: "fst (allocate_source_port ?ba (ft_next_source_port t) (port_range t) (dl_transport d) target)
      = None \<longleftrightarrow> (\<forall>sp. in_range (port_range t) sp \<longrightarrow>
        (\<exists>k. k \<noteq> ?key \<and> owns (ft_flows t) k (dl_transport d, fst target, snd target, sp)))" for target
    unfolding allocate_source_port_None [OF r] c ..
  have f: "forward n p (Some d) dp cache t = forward_with_identity ?key d cache t"
    using assms(2) by (simp add: forward_eq hm_contains_def)
  show ?thesis
  proof (cases "resolve_rule (af_rules flow) (Some (dl_transport d)) (dl_destination_port d) cache")
    case (Inl x)
    then show ?thesis
      using resolve_rule_Inl [OF Inl] unfolding f forward_with_identity_eq [OF assms(2)] by auto
  next
    case (Inr target)
    then show ?thesis
      using full [of target] unfolding f forward_with_identity_eq [OF assms(2)]
      by (cases target) (auto simp: Let_def split: prod.splits option.splits)
  qed
qed

theorem source_ports_distinct:
  assumes "ft_inv t"
    and "hm_get (ft_flows t) k1 = Some f1" "fk_dialled k1 = Some d1" "af_allocation f1 = Some a1"
    and "hm_get (ft_flows t) k2 = Some f2" "fk_dialled k2 = Some d2" "af_allocation f2 = Some a2"
    and "k1 \<noteq> k2" "dl_transport d1 = dl_transport d2" "al_target a1 = al_target a2"
  shows "al_port a1 \<noteq> al_port a2"
proof
  assume "al_port a1 = al_port a2"
  then have "owns (ft_flows t) k1 (allocation_key_of (dl_transport d1) a1)"
    "owns (ft_flows t) k2 (allocation_key_of (dl_transport d1) a1)"
    using assms by (auto simp: owns_iff allocation_key_of_def)
  with owns_unique [OF assms(1)] assms(8) show False by blast
qed

section \<open>Forward and reply\<close>

text \<open>
  C24: after a packet of a flow with an identity is forwarded to an internal host from an
  allocated source port, the host's reply to that port is routed back to exactly that flow:
  its node, the address and port the device dialled, and its own port
\<close>

theorem forward_then_reply:
  assumes "ft_inv t" "hm_contains (ft_flows t) (flow_key_new n p (Some d))"
    and "forward n p (Some d) dp cache t = (Forward a change (Some sp), t')"
  shows "route_reply (Some (dl_transport d)) (Some a)
      (Some (case change of Some ip \<Rightarrow> ip | None \<Rightarrow> dl_destination_port d)) sp t' =
    Inr (Restore n (dl_gateway_address d) (Some (dl_destination_port d)) (Some p))"
proof -
  let ?key = "flow_key_new n p (Some d)"
  have f: "forward_with_identity ?key d cache t = (Forward a change (Some sp), t')"
    using assms(2,3) by (simp add: forward_eq)
  have inv: "ft_inv t'"
    using forward_with_identity_inv [OF assms(1), of ?key d cache] f by simp
  obtain rule :: port_rule where o: "owns (ft_flows t') ?key (dl_transport d, a, pr_internal_port rule, sp)"
    and ch: "change = destination_change (pr_internal_port rule) (dl_destination_port d)"
    using forward_with_identity_owns [OF assms(1) _ f] by auto
  have ip: "(case change of Some ip \<Rightarrow> ip | None \<Rightarrow> dl_destination_port d) = pr_internal_port rule"
    by (simp add: ch destination_change_def)
  show ?thesis
    unfolding ip using dialled_route_owner [OF inv o] by (simp add: route_reply_def)
qed

lemma reply_routes:
  assumes "ft_inv t" "route_reply tr s sp port t = Inr route"
  shows "(\<exists>key d tr' s' sp'. tr = Some tr' \<and> s = Some s' \<and> sp = Some sp' \<and> fk_dialled key = Some d \<and>
        owns (ft_flows t) key (tr', s', sp', port) \<and>
        route = Restore (fk_node_id key) (dl_gateway_address d) (Some (dl_destination_port d))
          (Some (fk_port key))) \<or>
    (\<exists>n. route = Unchanged n \<and> (\<exists>q. sp = Some q \<and> node_for_outbound_port t q = Some n)) \<or>
    (\<exists>n. route = Unchanged n \<and> node_for_control_channel_port t port = Some n) \<or>
    (\<exists>n flow addr. route = Restore n addr None None \<and>
        hm_get (ft_flows t) (flow_key_new n port None) = Some flow \<and>
        af_virtual_address flow = Some addr \<and>
        (\<forall>n'. hm_contains (ft_flows t) (flow_key_new n' port None) \<longrightarrow> n' = n))"
proof (cases "dialled_route tr s sp port t")
  case (Some kd)
  obtain key d where kd: "kd = (key, d)" by force
  have "route = Restore (fk_node_id key) (dl_gateway_address d) (Some (dl_destination_port d))
      (Some (fk_port key))"
    using assms(2) Some kd by (simp add: route_reply_def)
  then show ?thesis
    using dialled_route_Some [OF assms(1) Some [unfolded kd]] by blast
next
  case None
  have only: "n' = n" if "node_for_port t port = Some n"
    "hm_contains (ft_flows t) (flow_key_new n' port None)" for n n'
  proof -
    have "nodes_at (ft_nodes_by_port t) port = [n]"
      using that(1) by (auto simp: node_for_port_def nodes_at_def split: option.splits list.splits)
    moreover have "n' \<in> set (nodes_at (ft_nodes_by_port t) port)"
      using assms(1) that(2) by (simp add: ft_inv_def index_ok_def)
    ultimately show ?thesis by simp
  qed
  show ?thesis
  proof (cases "Option.bind sp (node_for_outbound_port t)")
    case (Some n)
    then show ?thesis
      using assms(2) \<open>dialled_route tr s sp port t = None\<close>
      by (cases sp) (auto simp: route_reply_def)
  next
    case None
    then show ?thesis
      using assms(2) \<open>dialled_route tr s sp port t = None\<close> only
      by (cases "hm_get (ft_flows t) (flow_key_new (the (node_for_port t port)) port None)")
        (auto simp: route_reply_def split: option.splits)
  qed
qed

text \<open>
  C36: a reply is routed only to the flow that owns the allocation it answers, with the
  address and port that flow dialled and its own port restored, or unchanged to the node that
  registered its control-channel port, or to the only node with a flow without identity on
  that port, under that flow's last gateway address; never to one of several candidates
\<close>

theorem reply_is_never_guessed:
  assumes "ft_inv t" "route_reply tr s sp port t = Inr route"
  shows "(\<exists>key d tr' s' sp'. tr = Some tr' \<and> s = Some s' \<and> sp = Some sp' \<and> fk_dialled key = Some d \<and>
        owns (ft_flows t) key (tr', s', sp', port) \<and>
        route = Restore (fk_node_id key) (dl_gateway_address d) (Some (dl_destination_port d))
          (Some (fk_port key))) \<or>
    (\<exists>n. route = Unchanged n \<and> (\<exists>q. sp = Some q \<and> node_for_outbound_port t q = Some n)) \<or>
    (\<exists>n. route = Unchanged n \<and> node_for_control_channel_port t port = Some n) \<or>
    (\<exists>n flow addr. route = Restore n addr None None \<and>
        hm_get (ft_flows t) (flow_key_new n port None) = Some flow \<and>
        af_virtual_address flow = Some addr \<and>
        (\<forall>n'. hm_contains (ft_flows t) (flow_key_new n' port None) \<longrightarrow> n' = n))"
  by (rule reply_routes [OF assms])

section \<open>A forwarded packet was admitted\<close>

text \<open>The events that end an admission, and the one that starts it.\<close>

definition ends_admission :: "flow_key \<Rightarrow> string \<Rightarrow> string \<Rightarrow> string \<Rightarrow> ft_event \<Rightarrow> bool" where
  "ends_admission key g f dev e = (case e of
     EvRelease f' _ \<Rightarrow> f' = f
   | EvEvictNode n \<Rightarrow> n = fk_node_id key
   | EvEvictDevice g' dev' \<Rightarrow> g' = g \<and> dev' = dev
   | _ \<Rightarrow> False)"

lemma at_touch_flows:
  assumes "at_flows (at_touch n p d dp cache a) key = Some x"
  shows "\<exists>y. at_flows a key = Some y \<and> ad_gateway y = ad_gateway x \<and> ad_flow_id y = ad_flow_id x \<and>
    ad_device y = ad_device x \<and> ad_rules y = ad_rules x"
proof (cases "at_lookup n p d a")
  case None
  then show ?thesis using assms by (simp add: at_touch_def)
next
  case (Some kf)
  obtain k f where kf: "kf = (k, f)" by force
  have "at_flows a k = Some f"
    using Some kf by (auto simp: at_lookup_def Let_def split: option.splits if_splits)
  then show ?thesis
    using assms Some kf
    by (auto simp: at_touch_def split: option.splits forwarding.splits if_splits)
qed

lemma at_step_origin:
  assumes "at_flows (at_step e a) key = Some x"
  shows "(\<exists>rules. e = EvAdmit (fk_node_id key) (fk_port key) (fk_dialled key)
        (ad_gateway x) (ad_flow_id x) (ad_device x) rules) \<or>
    (\<exists>y. at_flows a key = Some y \<and> ad_gateway y = ad_gateway x \<and> ad_flow_id y = ad_flow_id x \<and>
       ad_device y = ad_device x \<and> \<not> ends_admission key (ad_gateway x) (ad_flow_id x) (ad_device x) e)"
proof (cases e)
  case (EvAdmit n p d g f dev rules)
  then show ?thesis
    using assms by (cases "key = flow_key_new n p d") (auto simp: ends_admission_def)
next
  case (EvForward n p d dp cache)
  then show ?thesis
    using at_touch_flows [of n p d dp cache a key x] assms by (auto simp: ends_admission_def)
next
  case (EvUpdateRules g rules now)
  then show ?thesis
    using assms by (auto simp: ends_admission_def Let_def split: option.splits if_splits)
qed (use assms in \<open>auto simp: ends_admission_def split: option.splits if_splits\<close>)

lemma at_run_origin:
  assumes "at_flows (fold at_step es no_admissions) key = Some x"
  shows "\<exists>es1 es2 rules. es = es1 @ EvAdmit (fk_node_id key) (fk_port key) (fk_dialled key)
        (ad_gateway x) (ad_flow_id x) (ad_device x) rules # es2 \<and>
      (\<forall>e \<in> set es2. \<not> ends_admission key (ad_gateway x) (ad_flow_id x) (ad_device x) e)"
  using assms
proof (induction es arbitrary: x rule: rev_induct)
  case Nil
  then show ?case by (simp add: no_admissions_def)
next
  case (snoc e es)
  from snoc.prems have "at_flows (at_step e (fold at_step es no_admissions)) key = Some x" by simp
  from at_step_origin [OF this] show ?case
  proof
    assume "\<exists>rules. e = EvAdmit (fk_node_id key) (fk_port key) (fk_dialled key)
        (ad_gateway x) (ad_flow_id x) (ad_device x) rules"
    then show ?thesis by - (rule exI [of _ es], rule exI [of _ "[]"], simp)
  next
    assume "\<exists>y. at_flows (fold at_step es no_admissions) key = Some y \<and> ad_gateway y = ad_gateway x \<and>
      ad_flow_id y = ad_flow_id x \<and> ad_device y = ad_device x \<and>
      \<not> ends_admission key (ad_gateway x) (ad_flow_id x) (ad_device x) e"
    then obtain y where y: "at_flows (fold at_step es no_admissions) key = Some y"
      "ad_gateway y = ad_gateway x" "ad_flow_id y = ad_flow_id x" "ad_device y = ad_device x"
      "\<not> ends_admission key (ad_gateway x) (ad_flow_id x) (ad_device x) e" by blast
    from snoc.IH [OF y(1)] y obtain es1 es2 rules where
      "es = es1 @ EvAdmit (fk_node_id key) (fk_port key) (fk_dialled key)
        (ad_gateway x) (ad_flow_id x) (ad_device x) rules # es2"
      "\<forall>e \<in> set es2. \<not> ends_admission key (ad_gateway x) (ad_flow_id x) (ad_device x) e" by auto
    then show ?thesis
      using y(5) by (intro exI [of _ es1] exI [of _ "es2 @ [e]"] exI [of _ rules]) auto
  qed
qed

lemma at_lookup_Some:
  "at_lookup n p d a = Some (key, f) \<Longrightarrow>
     at_flows a key = Some f \<and> (key = flow_key_new n p d \<or> key = flow_key_new n p None)"
  by (auto simp: at_lookup_def Let_def split: option.splits if_splits)

lemma forward_lookup_Some:
  "fst (forward n p d dp cache t) = Forward a change sp \<Longrightarrow>
     \<exists>key f. at_lookup n p d (admissions t) = Some (key, f)"
  by (cases "at_lookup n p d (admissions t)") (auto simp: forward_by_none)

lemma forward_origin:
  assumes "fst (forward n p d dp cache (run es)) = Forward a change sp"
  shows "\<exists>es1 es2 d' g f dev rules. es = es1 @ EvAdmit n p d' g f dev rules # es2 \<and>
    (d' = d \<or> d' = None) \<and>
    (\<forall>e \<in> set es2. \<not> ends_admission (flow_key_new n p d') g f dev e)"
proof -
  obtain key f where l: "at_lookup n p d (admissions (run es)) = Some (key, f)"
    using forward_lookup_Some [OF assms] by blast
  note k = at_lookup_Some [OF l]
  from k have "at_flows (fold at_step es no_admissions) key = Some f" by (simp only: run_admissions)
  from at_run_origin [OF this] k show ?thesis by fastforce
qed

theorem forward_needs_admission:
  assumes "fst (forward n p d dp cache (run es)) = Forward a change sp"
  shows "\<exists>es1 es2 d' g f dev rules. es = es1 @ EvAdmit n p d' g f dev rules # es2 \<and>
    (d' = d \<or> d' = None) \<and>
    (\<forall>e \<in> set es2. \<not> ends_admission (flow_key_new n p d') g f dev e)"
  by (rule forward_origin [OF assms])

section \<open>Release and eviction\<close>

theorem release_is_exact:
  assumes "ft_inv t"
  shows "hm_get (ft_flows (release f now t)) key =
      (case hm_get (ft_flows t) key of
         None \<Rightarrow> None | Some flow \<Rightarrow> if af_flow_id flow = f then None else Some flow) \<and>
    was_recently_released f later (release f now t) =
      (duration_since later now \<le> RELEASED_FLOW_MEMORY) \<and>
    (f' \<noteq> f \<longrightarrow> was_recently_released f' now (release f now t) = was_recently_released f' now t)"
  using assms
  by (auto simp: release_eq Let_def was_recently_released_def hm_simps ft_inv_def
      remove_flows_where_flows [OF ft_inv_flows_hm_ok [OF assms]] split: option.split)

lemma forget_node_ports_get:
  assumes "port_table_ok mo"
  shows "hm_get (fst (forget_node_ports n mo)) p =
    (case hm_get (fst mo) p of None \<Rightarrow> None | Some owner \<Rightarrow> if owner = n then None else Some owner)"
  using assms by (cases mo) (auto simp: forget_node_ports_def Let_def port_table_ok_def hm_simps
      split: option.split)

lemma evict_node_flows:
  "ft_inv t \<Longrightarrow> hm_get (ft_flows (evict_node n t)) key =
     (if fk_node_id key = n then None else hm_get (ft_flows t) key)"
  by (simp add: evict_node_eq Let_def remove_flows_where_flows [OF ft_inv_flows_hm_ok]
      split: option.split)

lemma evict_node_control:
  "ft_inv t \<Longrightarrow> node_for_control_channel_port (evict_node n t) p =
     (if node_for_control_channel_port t p = Some n then None else node_for_control_channel_port t p)"
  using forget_node_ports_get [of "(ft_control_ports t, ft_control_order t)" n p]
  by (simp add: evict_node_eq Let_def node_for_control_channel_port_def ft_inv_def split: option.split)

lemma evict_node_outbound:
  "ft_inv t \<Longrightarrow> node_for_outbound_port (evict_node n t) p =
     (if node_for_outbound_port t p = Some n then None else node_for_outbound_port t p)"
  using forget_node_ports_get [of "(ft_outbound_ports t, ft_outbound_order t)" n p]
  by (simp add: evict_node_eq Let_def node_for_outbound_port_def ft_inv_def split: option.split)

lemma evict_node_replies:
  assumes "ft_inv t"
  shows "route_reply tr s sp port (evict_node n t) \<noteq> Inr (Unchanged n)"
    and "route_reply tr s sp port (evict_node n t) \<noteq> Inr (Restore n address source_port back)"
proof -
  have inv: "ft_inv (evict_node n t)" using assms by (rule evict_node_inv)
  show "route_reply tr s sp port (evict_node n t) \<noteq> Inr (Unchanged n)"
    using reply_routes [OF inv, of tr s sp port "Unchanged n"]
    by (auto simp: evict_node_control [OF assms] evict_node_outbound [OF assms] split: if_splits)
  show "route_reply tr s sp port (evict_node n t) \<noteq> Inr (Restore n address source_port back)"
    using reply_routes [OF inv, of tr s sp port "Restore n address source_port back"]
    by (auto simp: owns_iff evict_node_flows [OF assms])
qed

theorem evict_node_is_exact:
  assumes "ft_inv t"
  shows "hm_get (ft_flows (evict_node n t)) key =
      (if fk_node_id key = n then None else hm_get (ft_flows t) key) \<and>
    node_for_control_channel_port (evict_node n t) p =
      (if node_for_control_channel_port t p = Some n then None else node_for_control_channel_port t p) \<and>
    node_for_outbound_port (evict_node n t) p =
      (if node_for_outbound_port t p = Some n then None else node_for_outbound_port t p) \<and>
    route_reply tr s sp port (evict_node n t) \<noteq> Inr (Unchanged n) \<and>
    route_reply tr s sp port (evict_node n t) \<noteq> Inr (Restore n address source_port back)"
  using evict_node_flows [OF assms] evict_node_control [OF assms] evict_node_outbound [OF assms]
    evict_node_replies [OF assms] by simp


theorem evict_gateway_device_is_exact:
  assumes "ft_inv t"
  shows "hm_get (ft_flows (snd (evict_gateway_device g dev t))) key =
      (case hm_get (ft_flows t) key of
         None \<Rightarrow> None
       | Some flow \<Rightarrow> if af_gateway_id flow = g \<and> af_device_public_key flow = dev then None else Some flow) \<and>
    fst (evict_gateway_device g dev t) =
      card {k. \<exists>flow. hm_get (ft_flows t) k = Some flow \<and>
                 af_gateway_id flow = g \<and> af_device_public_key flow = dev}"
  unfolding evict_gateway_device_def
    remove_flows_where_flows [OF ft_inv_flows_hm_ok [OF assms]]
    remove_flows_where_count [OF ft_inv_flows_hm_ok [OF assms]] by simp

section \<open>Rule refresh\<close>

theorem update_rules_is_exact:
  assumes "ft_inv t"
  shows "hm_get (ft_flows (snd (update_rules g rules now t))) key =
      (case hm_get (ft_flows t) key of
         None \<Rightarrow> None
       | Some flow \<Rightarrow>
           if af_gateway_id flow \<noteq> g then Some flow
           else if still_served key flow rules then Some (flow\<lparr>af_rules := rules\<rparr>) else None) \<and>
    current_rules g (snd (update_rules g rules now t)) = Some rules \<and>
    set (fst (update_rules g rules now t)) =
      {\<lparr>re_flow_id = af_flow_id flow, re_device_public_key = af_device_public_key flow\<rparr> | key flow.
         hm_get (ft_flows t) key = Some flow \<and> af_gateway_id flow = g \<and> \<not> still_served key flow rules}"
  using update_rules_flows [OF assms, of g rules now key] update_rules_all [OF assms, of g rules now]
    update_rules_reports [OF assms, of g rules now]
  by (auto simp: unserved_def with_rules_def current_rules_def hm_simps split: option.split)

text \<open>
  A flow a rule change ended stays remembered: its packets are answered for five minutes, unless
  it is admitted again.
\<close>

lemma remembered_is_ended:
  "check_rule_ended now [k] (remember_rule_ended at k t) =
     (if duration_since now at \<le> RULE_ENDED_FLOW_MEMORY
      then (True, (remember_rule_ended at k t)\<lparr>ft_rule_ended :=
              hm_insert k now (ft_rule_ended (remember_rule_ended at k t))\<rparr>)
      else (False, (remember_rule_ended at k t)\<lparr>ft_rule_ended :=
              hm_remove k (ft_rule_ended (remember_rule_ended at k t))\<rparr>))"
  by (simp add: remember_rule_ended_eq hm_simps)

section \<open>Packets waiting for their admission\<close>

lemma pending_get_buffer:
  assumes "length (ft_pending t) < MAX_PENDING_PACKETS"
  shows "hm_get (ft_pending (buffer_pending n p d packet now t)) (flow_key_new n p d) = Some (packet, now)"
proof -
  have "\<not> MAX_PENDING_PACKETS \<le> length (hm_retain q (ft_pending t))" for q
    using assms length_hm_retain [of q "ft_pending t"] by linarith
  then show ?thesis by (simp only: buffer_pending_def Let_def simp_thms if_False) (simp add: hm_simps)
qed

lemma take_pending_dialled:
  "take_pending n p (Some d) now t =
     (case hm_get (ft_pending t) (flow_key_new n p (Some d)) of
        None \<Rightarrow> (None, t)
      | Some (packet, at) \<Rightarrow> (if duration_since now at \<le> PENDING_PACKET_TTL then Some packet else None,
          t\<lparr>ft_pending := hm_remove (flow_key_new n p (Some d)) (ft_pending t)\<rparr>))"
  by (simp add: take_pending_def pending_key_def)

theorem buffered_packet_taken_once:
  assumes "length (ft_pending t) < MAX_PENDING_PACKETS"
  shows "fst (take_pending n p (Some d) later (buffer_pending n p (Some d) packet now t)) =
      (if duration_since later now \<le> PENDING_PACKET_TTL then Some packet else None) \<and>
    fst (take_pending n p (Some d) again
      (snd (take_pending n p (Some d) later (buffer_pending n p (Some d) packet now t)))) = None \<and>
    ft_flows (snd (take_pending n p (Some d) later (buffer_pending n p (Some d) packet now t))) = ft_flows t"
  using pending_get_buffer [OF assms, of n p "Some d" packet now]
  by (simp add: take_pending_dialled hm_simps) (simp add: buffer_pending_def Let_def)

section \<open>A concrete table\<close>

definition ex_dialled :: dialled where
  "ex_dialled = \<lparr>dl_transport = Tcp, dl_gateway_address = Ipv4 100 64 0 9, dl_destination_port = 443\<rparr>"

definition ex_rules :: "port_rule list" where
  "ex_rules = [\<lparr>pr_transport = RuleTcp, pr_external_port = 443, pr_internal_host = ''10.0.0.5'',
     pr_internal_port = 8443\<rparr>]"

definition ex_events :: "ft_event list" where
  "ex_events = [EvAdmit ''n-1'' 40100 (Some ex_dialled) ''g-1'' ''f-1'' ''dev-1'' ex_rules]"

lemma search_source_port_hit:
  "\<not> used (first + ucast ((ucast (start - first) + offset) mod width)) \<Longrightarrow> n \<noteq> 0 \<Longrightarrow>
     search_source_port used first start width offset n =
       Some (first + ucast ((ucast (start - first) + offset) mod width))"
  by (cases n) (simp_all add: Let_def)

lemma allocate_source_port_fresh:
  assumes "hm_get cursors (tr, fst target, snd target) = None" "fst r \<le> snd r"
    "\<not> hm_contains allocs (tr, fst target, snd target, fst r)"
  shows "allocate_source_port allocs cursors r tr target =
    (Some (fst r), hm_insert (tr, fst target, snd target)
       (if fst r = snd r then fst r else fst r + 1) cursors)"
proof -
  have "unat (ucast (snd r - fst r) + 1 :: u32) \<noteq> 0" using unat_width [OF assms(2)] by simp
  then show ?thesis
    using assms search_source_port_hit [of "\<lambda>c. hm_contains allocs (tr, fst target, snd target, c)" "fst r" "fst r" 0]
    by (simp add: allocate_source_port_def Let_def)
qed

lemma ex_rules_resolve:
  "resolve_rule ex_rules (Some (dl_transport ex_dialled)) (dl_destination_port ex_dialled) dns_new =
     Inr (Ipv4 10 0 0 5, 8443)"
  by code_simp

lemma ex_flow: "hm_get (ft_flows (run ex_events)) (flow_key_new ''n-1'' 40100 (Some ex_dialled)) =
   Some (new_flow (Some ex_dialled) ''g-1'' ''f-1'' ''dev-1'' ex_rules)"
  by (simp add: run_def ex_events_def admit_flow_flows)

lemma ex_fresh: "ft_by_allocation (run ex_events) = []" "ft_next_source_port (run ex_events) = []"
  "port_range (run ex_events) = (1024, 65535)"
  by code_simp+

lemma ex_forward: "fst (forward ''n-1'' 40100 (Some ex_dialled) 443 dns_new (run ex_events)) =
   Forward (Ipv4 10 0 0 5) (Some 8443) (Some 1024)"
proof -
  have f: "forward ''n-1'' 40100 (Some ex_dialled) 443 dns_new (run ex_events) =
      forward_with_identity (flow_key_new ''n-1'' 40100 (Some ex_dialled)) ex_dialled dns_new (run ex_events)"
    by (simp add: forward_eq hm_contains_def ex_flow)
  show ?thesis
    unfolding f forward_with_identity_eq [OF ex_flow] new_flow_def
    using ex_rules_resolve
    by (simp add: ex_fresh without_allocation_def allocate_source_port_fresh destination_change_def)
      (simp add: ex_dialled_def)
qed

lemma ex_forward_pair: "forward ''n-1'' 40100 (Some ex_dialled) 443 dns_new (run ex_events) =
   (Forward (Ipv4 10 0 0 5) (Some 8443) (Some 1024),
    snd (forward ''n-1'' 40100 (Some ex_dialled) 443 dns_new (run ex_events)))"
  using ex_forward by (metis prod.collapse)

lemma forward_then_reply_witness:
  "route_reply (Some Tcp) (Some (Ipv4 10 0 0 5)) (Some 8443) 1024
     (snd (forward ''n-1'' 40100 (Some ex_dialled) 443 dns_new (run ex_events))) =
   Inr (Restore ''n-1'' (Ipv4 100 64 0 9) (Some 443) (Some 40100))"
  using forward_then_reply [OF run_inv _ ex_forward_pair] ex_flow
  by (simp add: hm_contains_def ex_dialled_def)

lemma forward_needs_admission_witness:
  "\<exists>es1 es2 d' g f dev rules. ex_events = es1 @ EvAdmit ''n-1'' 40100 d' g f dev rules # es2 \<and>
    (d' = Some ex_dialled \<or> d' = None)"
  using forward_needs_admission [OF ex_forward] by blast

lemma reply_is_never_guessed_witness:
  "let t = snd (forward ''n-1'' 40100 (Some ex_dialled) 443 dns_new (run ex_events))
   in (\<exists>key. owns (ft_flows t) key (Tcp, Ipv4 10 0 0 5, 8443, 1024) \<and> fk_node_id key = ''n-1'')"
  unfolding Let_def
  using reply_is_never_guessed [OF forward_inv [OF run_inv] forward_then_reply_witness] by auto

lemma release_is_exact_witness:
  "let t = release ''f-1'' 0 (run ex_events)
   in hm_get (ft_flows t) (flow_key_new ''n-1'' 40100 (Some ex_dialled)) = None \<and>
      was_recently_released ''f-1'' 30000000000 t \<and> \<not> was_recently_released ''f-1'' 30000000001 t"
  using release_is_exact [OF run_inv, of "''f-1''" 0 ex_events "flow_key_new ''n-1'' 40100 (Some ex_dialled)"
      30000000000 "''f-2''"]
    release_is_exact [OF run_inv, of "''f-1''" 0 ex_events "flow_key_new ''n-1'' 40100 (Some ex_dialled)"
      30000000001 "''f-2''"]
  by (simp add: ex_flow new_flow_def duration_since_def RELEASED_FLOW_MEMORY_def from_secs_def)

lemma evict_node_is_exact_witness:
  "hm_get (ft_flows (evict_node ''n-1'' (run ex_events))) (flow_key_new ''n-1'' 40100 (Some ex_dialled)) = None \<and>
   route_reply (Some Tcp) (Some (Ipv4 10 0 0 5)) (Some 8443) 1024 (evict_node ''n-1'' (run ex_events))
     \<noteq> Inr (Unchanged ''n-1'')"
  using evict_node_is_exact [OF run_inv, of "''n-1''" ex_events "flow_key_new ''n-1'' 40100 (Some ex_dialled)"
      1024 "Some Tcp" "Some (Ipv4 10 0 0 5)" "Some 8443" 1024]
  by simp

lemma evict_gateway_device_is_exact_witness:
  "hm_get (ft_flows (snd (evict_gateway_device ''g-1'' ''dev-1'' (run ex_events))))
     (flow_key_new ''n-1'' 40100 (Some ex_dialled)) = None"
  using evict_gateway_device_is_exact [OF run_inv, of "''g-1''" "''dev-1''" ex_events
      "flow_key_new ''n-1'' 40100 (Some ex_dialled)"]
  by (simp add: ex_flow new_flow_def)

lemma update_rules_is_exact_witness:
  "hm_get (ft_flows (snd (update_rules ''g-1'' [] 5 (run ex_events))))
     (flow_key_new ''n-1'' 40100 (Some ex_dialled)) = None \<and>
   current_rules ''g-1'' (snd (update_rules ''g-1'' [] 5 (run ex_events))) = Some []"
proof -
  have "\<not> still_served (flow_key_new ''n-1'' 40100 (Some ex_dialled)) flow []" for flow
    by (simp add: still_served_def matching_rule_def rules_for_def)
  then show ?thesis
    using update_rules_is_exact [OF run_inv, of "''g-1''" "[]" 5 ex_events
        "flow_key_new ''n-1'' 40100 (Some ex_dialled)"]
    by (simp add: ex_flow new_flow_def)
qed

lemma buffered_packet_taken_once_witness:
  "fst (take_pending ''n-1'' 40100 (Some ex_dialled) 2000000000
     (buffer_pending ''n-1'' 40100 (Some ex_dialled) [69, 0] 0 flow_table_new)) = Some [69, 0]"
proof -
  have "length (ft_pending flow_table_new) < MAX_PENDING_PACKETS"
    by (simp add: flow_table_new_def MAX_PENDING_PACKETS_def)
  from buffered_packet_taken_once [OF this, of "''n-1''" 40100 ex_dialled 2000000000 "[69, 0]" 0 0]
  show ?thesis by (simp add: duration_since_def PENDING_PACKET_TTL_def from_secs_def)
qed

text \<open>Two flows to one target on a range of one port, and of two.\<close>

lemma with_source_port_range_inv: "fst r \<le> snd r \<Longrightarrow> ft_inv (with_source_port_range r)"
  using ft_inv_new by (simp add: with_source_port_range_def ft_inv_def port_range_def range_ok_def
      flow_table_new_def flows_ok_def)

definition ex_two :: "u16 \<times> u16 \<Rightarrow> flow_table" where
  "ex_two r = fold ft_step
     [EvAdmit ''n-1'' 40100 (Some ex_dialled) ''g-1'' ''f-1'' ''dev-1'' ex_rules,
      EvAdmit ''n-2'' 40100 (Some ex_dialled) ''g-1'' ''f-2'' ''dev-2'' ex_rules,
      EvForward ''n-1'' 40100 (Some ex_dialled) 443 dns_new,
      EvForward ''n-2'' 40100 (Some ex_dialled) 443 dns_new] (with_source_port_range r)"

lemma ex_two_inv: "fst r \<le> snd r \<Longrightarrow> ft_inv (ex_two r)"
  unfolding ex_two_def by (rule ft_run.inv_run) (rule with_source_port_range_inv)

lemma ex_two_full:
  "fst (forward ''n-2'' 40100 (Some ex_dialled) 443 dns_new (ex_two (7, 7))) = Refused NoFreeSourcePort"
  by code_simp

lemma ex_two_flow:
  "hm_get (ft_flows (ex_two (7, 7))) (flow_key_new ''n-2'' 40100 (Some ex_dialled)) =
     Some (new_flow (Some ex_dialled) ''g-1'' ''f-2'' ''dev-2'' ex_rules)"
  by code_simp

lemma no_free_source_port_iff_witness:
  "fst (forward ''n-2'' 40100 (Some ex_dialled) 443 dns_new (ex_two (7, 7))) = Refused NoFreeSourcePort \<and>
   (\<exists>k a ip. k \<noteq> flow_key_new ''n-2'' 40100 (Some ex_dialled) \<and>
      owns (ft_flows (ex_two (7, 7))) k (Tcp, a, ip, 7))"
proof -
  have "in_range (port_range (ex_two (7, 7))) 7" by code_simp
  then show ?thesis
    using no_free_source_port_iff [OF ex_two_inv ex_two_flow, of 443 dns_new] ex_two_full
    by (simp add: ex_dialled_def) blast
qed

lemma source_ports_distinct_witness:
  "let t = ex_two (7, 9); k1 = flow_key_new ''n-1'' 40100 (Some ex_dialled);
       k2 = flow_key_new ''n-2'' 40100 (Some ex_dialled)
   in (\<exists>f1 f2 a1 a2. hm_get (ft_flows t) k1 = Some f1 \<and> af_allocation f1 = Some a1 \<and>
        hm_get (ft_flows t) k2 = Some f2 \<and> af_allocation f2 = Some a2 \<and> al_port a1 \<noteq> al_port a2)"
proof -
  let ?t = "ex_two (7, 9)"
  let ?k1 = "flow_key_new ''n-1'' 40100 (Some ex_dialled)"
  let ?k2 = "flow_key_new ''n-2'' 40100 (Some ex_dialled)"
  have a: "map_option af_allocation (hm_get (ft_flows ?t) ?k1) =
      Some (Some \<lparr>al_target = (Ipv4 10 0 0 5, 8443), al_port = 7\<rparr>)"
    "map_option af_allocation (hm_get (ft_flows ?t) ?k2) =
      Some (Some \<lparr>al_target = (Ipv4 10 0 0 5, 8443), al_port = 8\<rparr>)" by code_simp+
  then obtain f1 f2 where f: "hm_get (ft_flows ?t) ?k1 = Some f1" "hm_get (ft_flows ?t) ?k2 = Some f2"
    and al: "af_allocation f1 = Some \<lparr>al_target = (Ipv4 10 0 0 5, 8443), al_port = 7\<rparr>"
      "af_allocation f2 = Some \<lparr>al_target = (Ipv4 10 0 0 5, 8443), al_port = 8\<rparr>"
    by (auto simp: map_option_eq_Some)
  show ?thesis
    using source_ports_distinct [OF ex_two_inv f(1) _ al(1) f(2) _ al(2)] f al by auto
qed

end
