(* ===== verification/Tunnel_Manager.thy ===== *)
theory Tunnel_Manager
  imports Packet
begin

text \<open>
  The node tunnels of \<open>src/src/tunnel.rs\<close>: \<open>NodeTunnel\<close> and \<open>TunnelManager\<close>. The WireGuard session
  itself (boringtun's \<open>Tunn\<close>) and the base64 decoder are third-party code, so they are parameters.
\<close>

section \<open>Events of a tunnel\<close>

definition WIREGUARD_PORT :: u16 where
  "WIREGUARD_PORT = 51820"

definition SESSION_REJECT_AFTER :: nat where
  "SESSION_REJECT_AFTER = from_secs 180"

text \<open>\<open>boringtun::noise::TunnResult\<close>, what the library answers; its error is its \<open>Debug\<close> text.\<close>

datatype tunn_result =
    Done
  | Err string
  | WriteToNetwork bytes
  | WriteToTunnelV4 bytes ipv4addr
  | WriteToTunnelV6 bytes "u16 list"

datatype tunnel_event =
    SendToNode bytes
  | DecryptedData bytes
  | Nothing
  | ProtocolError string

definition tunnel_event_of :: "tunn_result \<Rightarrow> tunnel_event" where
  "tunnel_event_of result = (case result of
     WriteToNetwork packet \<Rightarrow> SendToNode packet
   | WriteToTunnelV4 packet _ \<Rightarrow> DecryptedData packet
   | WriteToTunnelV6 packet _ \<Rightarrow> DecryptedData packet
   | Done \<Rightarrow> Nothing
   | Err error \<Rightarrow> ProtocolError error)"

type_synonym socket_addr = "ipaddr \<times> u16"

text \<open>A tunnel: \<open>'t\<close> is the library's session, opaque here.\<close>

record 't node_tunnel =
  nt_tunn :: 't
  nt_node_id :: string
  nt_addr :: socket_addr
  nt_key_base64 :: string

text \<open>The operations of a tunnel; the library's functions are parameters.\<close>

definition initiate_handshake ::
  "('t \<Rightarrow> 't \<times> tunn_result) \<Rightarrow> 't node_tunnel \<Rightarrow> tunnel_event \<times> 't node_tunnel" where
  "initiate_handshake format_handshake_initiation n =
     (let (t, r) = format_handshake_initiation (nt_tunn n) in (tunnel_event_of r, n\<lparr>nt_tunn := t\<rparr>))"

definition receive_datagram ::
  "(ipaddr option \<Rightarrow> bytes \<Rightarrow> 't \<Rightarrow> 't \<times> tunn_result) \<Rightarrow> bytes \<Rightarrow> 't node_tunnel \<Rightarrow>
   tunnel_event \<times> 't node_tunnel" where
  "receive_datagram decapsulate datagram n =
     (let (t, r) = decapsulate (Some (fst (nt_addr n))) datagram (nt_tunn n)
      in (tunnel_event_of r, n\<lparr>nt_tunn := t\<rparr>))"

definition is_established :: "('t \<Rightarrow> nat option) \<Rightarrow> 't node_tunnel \<Rightarrow> bool" where
  "is_established time_since_handshake n =
     (case time_since_handshake (nt_tunn n) of
        Some elapsed \<Rightarrow> elapsed < SESSION_REJECT_AFTER
      | None \<Rightarrow> False)"

definition drive_timers ::
  "('t \<Rightarrow> 't \<times> tunn_result) \<Rightarrow> 't node_tunnel \<Rightarrow> tunnel_event \<times> 't node_tunnel" where
  "drive_timers update_timers n =
     (let (t, r) = update_timers (nt_tunn n) in (tunnel_event_of r, n\<lparr>nt_tunn := t\<rparr>))"

definition encapsulate ::
  "(bytes \<Rightarrow> 't \<Rightarrow> 't \<times> tunn_result) \<Rightarrow> bytes \<Rightarrow> 't node_tunnel \<Rightarrow>
   tunnel_event \<times> 't node_tunnel" where
  "encapsulate tunn_encapsulate packet n =
     (let (t, r) = tunn_encapsulate packet (nt_tunn n) in (tunnel_event_of r, n\<lparr>nt_tunn := t\<rparr>))"

section \<open>The manager\<close>

record 't tunnel_manager =
  tm_tunnels :: "(string, 't node_tunnel) hmap"
  tm_next_index :: u32

definition tunnel_manager_new :: "'t tunnel_manager" where
  "tunnel_manager_new = \<lparr>tm_tunnels = [], tm_next_index = 0\<rparr>"

text \<open>\<open>decode_base64\<close> is the base64 crate's decoder; the length check is the code's.\<close>

definition decode_public_base64 :: "(string \<Rightarrow> bytes option) \<Rightarrow> string \<Rightarrow> bytes option" where
  "decode_public_base64 decode_base64 value = do {
     key \<leftarrow> decode_base64 value;
     if length key = 32 then Some key else None
   }"

text \<open>\<open>new_tunn index key\<close> is \<open>Tunn::new\<close> with the manager's own secret and rate limiter.\<close>

definition build_tunnel ::
  "(string \<Rightarrow> bytes option) \<Rightarrow> (u32 \<Rightarrow> bytes \<Rightarrow> 't) \<Rightarrow> heartbeat_node \<Rightarrow> string \<Rightarrow>
   't tunnel_manager \<Rightarrow> 't node_tunnel option \<times> 't tunnel_manager" where
  "build_tunnel decode_base64 new_tunn node public_key_base64 m =
     (case decode_public_base64 decode_base64 public_key_base64 of
        None \<Rightarrow> (None, m)
      | Some public_key \<Rightarrow>
          (case parse_ipaddr (hn_ip_address node) of
             None \<Rightarrow> (None, m)
           | Some ip \<Rightarrow>
               (let index = tm_next_index m
                in (Some \<lparr>nt_tunn = new_tunn index public_key, nt_node_id = hn_node_id node,
                          nt_addr = (ip, WIREGUARD_PORT), nt_key_base64 = public_key_base64\<rparr>,
                    m\<lparr>tm_next_index := index + 1\<rparr>))))"

text \<open>A tunnel is left alone when its node's address and key are the ones it was built with.\<close>

definition tunnel_unchanged :: "heartbeat_node \<Rightarrow> string \<Rightarrow> 't node_tunnel \<Rightarrow> bool" where
  "tunnel_unchanged node wireguard_public_key existing =
     ((case parse_ipaddr (hn_ip_address node) of
         Some ip \<Rightarrow> (ip, WIREGUARD_PORT) = nt_addr existing
       | None \<Rightarrow> False) \<and> nt_key_base64 existing = wireguard_public_key)"

text \<open>One turn of the loop of \<open>sync_nodes\<close>; the state is \<open>seen\<close> and the manager.\<close>

definition sync_node ::
  "(string \<Rightarrow> bytes option) \<Rightarrow> (u32 \<Rightarrow> bytes \<Rightarrow> 't) \<Rightarrow> heartbeat_node \<Rightarrow>
   string list \<times> 't tunnel_manager \<Rightarrow> string list \<times> 't tunnel_manager" where
  "sync_node decode_base64 new_tunn node sm = (case sm of (seen, m) \<Rightarrow>
     (case hn_wireguard_public_key node of
        None \<Rightarrow> (seen, m)
      | Some wireguard_public_key \<Rightarrow>
          (let seen = hs_insert (hn_node_id node) seen
           in if (case hm_get (tm_tunnels m) (hn_node_id node) of
                    Some existing \<Rightarrow> tunnel_unchanged node wireguard_public_key existing
                  | None \<Rightarrow> False)
              then (seen, m)
              else (case build_tunnel decode_base64 new_tunn node wireguard_public_key m of
                      (Some tunnel, m) \<Rightarrow>
                        (seen, m\<lparr>tm_tunnels := hm_insert (hn_node_id node) tunnel (tm_tunnels m)\<rparr>)
                    | (None, m) \<Rightarrow> (seen, m)))))"

definition sync_nodes ::
  "(string \<Rightarrow> bytes option) \<Rightarrow> (u32 \<Rightarrow> bytes \<Rightarrow> 't) \<Rightarrow> heartbeat_node list \<Rightarrow>
   't tunnel_manager \<Rightarrow> string list \<times> 't tunnel_manager" where
  "sync_nodes decode_base64 new_tunn nodes m =
     (let (seen, m) = fold (sync_node decode_base64 new_tunn) nodes ([], m);
          dropped = filter (\<lambda>node_id. node_id \<notin> set seen) (hm_keys (tm_tunnels m))
      in (dropped, m\<lparr>tm_tunnels := hm_retain (\<lambda>node_id _. node_id \<in> set seen) (tm_tunnels m)\<rparr>))"

definition tunnel_for :: "'t tunnel_manager \<Rightarrow> string \<Rightarrow> 't node_tunnel option" where
  "tunnel_for m node_id = hm_get (tm_tunnels m) node_id"

definition tunnel_for_addr :: "'t tunnel_manager \<Rightarrow> socket_addr \<Rightarrow> 't node_tunnel option" where
  "tunnel_for_addr m addr = find (\<lambda>tunnel. nt_addr tunnel = addr) (map snd (tm_tunnels m))"

definition node_count :: "'t tunnel_manager \<Rightarrow> nat" where
  "node_count m = length (tm_tunnels m)"

text \<open>Every tunnel's timers driven, in iteration order; the packets to send.\<close>

fun drive_tunnels ::
  "('t \<Rightarrow> 't \<times> tunn_result) \<Rightarrow> (string, 't node_tunnel) hmap \<Rightarrow>
   (bytes \<times> socket_addr) list \<times> (string, 't node_tunnel) hmap" where
  "drive_tunnels update_timers [] = ([], [])"
| "drive_tunnels update_timers ((node_id, tunnel) # rest) =
     (let (event, tunnel) = drive_timers update_timers tunnel;
          (packets, rest) = drive_tunnels update_timers rest
      in ((case event of SendToNode packet \<Rightarrow> (packet, nt_addr tunnel) # packets | _ \<Rightarrow> packets),
          (node_id, tunnel) # rest))"

definition drive_all_timers ::
  "('t \<Rightarrow> 't \<times> tunn_result) \<Rightarrow> 't tunnel_manager \<Rightarrow>
   (bytes \<times> socket_addr) list \<times> 't tunnel_manager" where
  "drive_all_timers update_timers m =
     (let (packets, tunnels) = drive_tunnels update_timers (tm_tunnels m)
      in (packets, m\<lparr>tm_tunnels := tunnels\<rparr>))"

section \<open>The manager's invariant\<close>

text \<open>Every tunnel is kept under its own node and dials WireGuard's port.\<close>

definition tm_inv :: "'t tunnel_manager \<Rightarrow> bool" where
  "tm_inv m \<longleftrightarrow> hm_ok (tm_tunnels m) \<and>
     (\<forall>node_id tunnel. hm_get (tm_tunnels m) node_id = Some tunnel \<longrightarrow>
        nt_node_id tunnel = node_id \<and> snd (nt_addr tunnel) = WIREGUARD_PORT)"

lemma tm_inv_new: "tm_inv tunnel_manager_new"
  by (simp add: tm_inv_def tunnel_manager_new_def)

lemma build_tunnel_tunnels [simp]:
  "tm_tunnels (snd (build_tunnel dec new node key m)) = tm_tunnels m"
  by (simp add: build_tunnel_def Let_def split: option.split)

lemma build_tunnel_Some:
  "fst (build_tunnel dec new node key m) = Some tunnel \<Longrightarrow>
     nt_node_id tunnel = hn_node_id node \<and> nt_key_base64 tunnel = key \<and>
     (\<exists>ip. parse_ipaddr (hn_ip_address node) = Some ip \<and> nt_addr tunnel = (ip, WIREGUARD_PORT))"
  by (auto simp: build_tunnel_def Let_def split: option.splits)

lemma sync_node_inv: "tm_inv (snd sm) \<Longrightarrow> tm_inv (snd (sync_node dec new node sm))"
proof -
  assume i: "tm_inv (snd sm)"
  obtain seen m where sm: "sm = (seen, m)" by force
  have "tm_inv (m'\<lparr>tm_tunnels := hm_insert (hn_node_id node) tunnel (tm_tunnels m')\<rparr>)"
    if "build_tunnel dec new node key m = (Some tunnel, m')" for key tunnel m'
    using i build_tunnel_Some [of dec new node key m tunnel] build_tunnel_tunnels [of dec new node key m] that
    by (auto simp: tm_inv_def sm hm_oks hm_simps)
  moreover have "tm_inv m'" if "build_tunnel dec new node key m = (None, m')" for key m'
    using i build_tunnel_tunnels [of dec new node key m] that by (simp add: tm_inv_def sm)
  ultimately show ?thesis
    using i by (auto simp: sync_node_def sm Let_def split: option.split prod.split)
qed

lemma fold_sync_inv: "tm_inv (snd sm) \<Longrightarrow> tm_inv (snd (fold (sync_node dec new) nodes sm))"
  by (induction nodes arbitrary: sm) (auto simp: sync_node_inv)

lemma sync_nodes_inv: "tm_inv m \<Longrightarrow> tm_inv (snd (sync_nodes dec new nodes m))"
  using fold_sync_inv [of "([], m)" dec new nodes]
  by (auto simp: sync_nodes_def Let_def split_beta tm_inv_def hm_oks hm_simps split: option.splits if_splits)

lemma drive_tunnels_keys:
  "map fst (snd (drive_tunnels upd ts)) = map fst ts \<and>
   map (\<lambda>(n, t). (n, nt_node_id t, nt_addr t, nt_key_base64 t)) (snd (drive_tunnels upd ts)) =
   map (\<lambda>(n, t). (n, nt_node_id t, nt_addr t, nt_key_base64 t)) ts"
  by (induction upd ts rule: drive_tunnels.induct) (auto simp: drive_timers_def Let_def split_beta)


section \<open>Synchronising with a node list\<close>

definition listed :: "heartbeat_node list \<Rightarrow> string set" where
  "listed nodes = {hn_node_id node | node. node \<in> set nodes \<and> hn_wireguard_public_key node \<noteq> None}"

text \<open>A node entry that gives no reason to replace a tunnel: no key, no change, or unusable.\<close>

definition leaves_alone :: "(string \<Rightarrow> bytes option) \<Rightarrow> 't node_tunnel \<Rightarrow> heartbeat_node \<Rightarrow> bool" where
  "leaves_alone dec tunnel node = (case hn_wireguard_public_key node of
     None \<Rightarrow> True
   | Some key \<Rightarrow> tunnel_unchanged node key tunnel \<or> decode_public_base64 dec key = None \<or>
       parse_ipaddr (hn_ip_address node) = None)"

lemma build_tunnel_fails:
  "decode_public_base64 dec key = None \<or> parse_ipaddr (hn_ip_address node) = None \<Longrightarrow>
     build_tunnel dec new node key m = (None, m)"
  by (auto simp: build_tunnel_def split: option.split)

lemma sync_node_tunnels:
  "tm_tunnels (snd (sync_node dec new node sm)) =
     (case hn_wireguard_public_key node of
        None \<Rightarrow> tm_tunnels (snd sm)
      | Some key \<Rightarrow>
          if (case hm_get (tm_tunnels (snd sm)) (hn_node_id node) of
                Some existing \<Rightarrow> tunnel_unchanged node key existing | None \<Rightarrow> False)
          then tm_tunnels (snd sm)
          else (case fst (build_tunnel dec new node key (snd sm)) of
                  Some tunnel \<Rightarrow> hm_insert (hn_node_id node) tunnel (tm_tunnels (snd sm))
                | None \<Rightarrow> tm_tunnels (snd sm)))"
proof -
  obtain seen m where sm: "sm = (seen, m)" by force
  have b: "tm_tunnels m' = tm_tunnels m" if "build_tunnel dec new node key m = (r, m')" for key r m'
    using build_tunnel_tunnels [of dec new node key m] that by simp
  show ?thesis
    by (auto simp: sync_node_def sm Let_def b split: option.split prod.split)
qed

lemma sync_node_seen:
  "set (fst (sync_node dec new node sm)) = set (fst sm) \<union> listed [node]"
  by (cases sm) (auto simp: sync_node_def Let_def listed_def split: option.split prod.split)

lemma fold_sync_seen:
  "set (fst (fold (sync_node dec new) nodes sm)) = set (fst sm) \<union> listed nodes"
proof (induction nodes arbitrary: sm)
  case Nil
  then show ?case by (simp add: listed_def)
next
  case (Cons node nodes)
  have "listed (node # nodes) = listed [node] \<union> listed nodes" by (auto simp: listed_def)
  then show ?case using Cons sync_node_seen [of dec new node sm] by auto
qed

lemma sync_node_other:
  "hn_node_id node \<noteq> n \<Longrightarrow>
     hm_get (tm_tunnels (snd (sync_node dec new node sm))) n = hm_get (tm_tunnels (snd sm)) n"
  by (simp add: sync_node_tunnels hm_simps split: option.split)

lemma sync_node_alone:
  assumes "hm_get (tm_tunnels (snd sm)) n = Some tunnel" "hn_node_id node = n" "leaves_alone dec tunnel node"
  shows "hm_get (tm_tunnels (snd (sync_node dec new node sm))) n = Some tunnel"
  using assms build_tunnel_fails [of dec _ node new "snd sm"]
  by (cases "hn_wireguard_public_key node") (auto simp: sync_node_tunnels leaves_alone_def)

lemma fold_sync_alone:
  "hm_get (tm_tunnels (snd sm)) n = Some tunnel \<Longrightarrow>
     \<forall>node \<in> set nodes. hn_node_id node = n \<longrightarrow> leaves_alone dec tunnel node \<Longrightarrow>
     hm_get (tm_tunnels (snd (fold (sync_node dec new) nodes sm))) n = Some tunnel"
proof (induction nodes arbitrary: sm)
  case Nil
  then show ?case by simp
next
  case (Cons node nodes)
  have "hm_get (tm_tunnels (snd (sync_node dec new node sm))) n = Some tunnel"
    using Cons.prems sync_node_alone [of sm n tunnel node dec new] sync_node_other [of node n dec new sm]
    by (cases "hn_node_id node = n") auto
  from Cons.IH [OF this] Cons.prems(2) show ?case by simp
qed

lemma fold_sync_other:
  "n \<notin> hn_node_id ` set nodes \<Longrightarrow>
     hm_get (tm_tunnels (snd (fold (sync_node dec new) nodes sm))) n = hm_get (tm_tunnels (snd sm)) n"
  by (induction nodes arbitrary: sm) (auto simp: sync_node_other)

lemma sync_node_builds:
  assumes "hn_wireguard_public_key node = Some key" "decode_public_base64 dec key = Some pk"
    "parse_ipaddr (hn_ip_address node) = Some ip"
  shows "\<exists>tunnel. hm_get (tm_tunnels (snd (sync_node dec new node sm))) (hn_node_id node) = Some tunnel \<and>
    nt_addr tunnel = (ip, WIREGUARD_PORT) \<and> nt_key_base64 tunnel = key"
  using assms
  by (auto simp: sync_node_tunnels build_tunnel_def tunnel_unchanged_def Let_def hm_simps
      split: option.splits)

lemma sync_nodes_get:
  assumes "tm_inv m"
  shows "tunnel_for (snd (sync_nodes dec new nodes m)) n =
    (if n \<in> listed nodes then hm_get (tm_tunnels (snd (fold (sync_node dec new) nodes ([], m)))) n else None)"
proof -
  let ?s = "fold (sync_node dec new) nodes ([], m)"
  have "tm_inv (snd ?s)" using fold_sync_inv [of "([], m)" dec new nodes] assms by simp
  then have "hm_ok (tm_tunnels (snd ?s))" unfolding tm_inv_def by (rule conjunct1)
  then show ?thesis
    using fold_sync_seen [of dec new nodes "([], m)"]
    by (simp add: tunnel_for_def sync_nodes_def Let_def split_beta hm_simps split: option.split)
qed

lemma fold_sync_keys:
  "hm_get (tm_tunnels (snd (fold (sync_node dec new) nodes sm))) n \<noteq> None \<Longrightarrow>
     hm_get (tm_tunnels (snd sm)) n \<noteq> None \<or> n \<in> listed nodes"
proof (induction nodes arbitrary: sm)
  case Nil
  then show ?case by simp
next
  case (Cons node nodes)
  have l: "listed (node # nodes) = listed [node] \<union> listed nodes" by (auto simp: listed_def)
  have "hm_get (tm_tunnels (snd (sync_node dec new node sm))) n \<noteq> None \<Longrightarrow>
      hm_get (tm_tunnels (snd sm)) n \<noteq> None \<or> n \<in> listed [node]"
    using sync_node_other [of node n dec new sm]
    by (cases "hn_node_id node = n"; cases "hn_wireguard_public_key node")
      (auto simp: sync_node_tunnels listed_def)
  then show ?case using Cons.IH [of "sync_node dec new node sm"] Cons.prems unfolding l by auto
qed

lemma fold_sync_keeps:
  "hm_get (tm_tunnels (snd sm)) n \<noteq> None \<Longrightarrow>
     hm_get (tm_tunnels (snd (fold (sync_node dec new) nodes sm))) n \<noteq> None"
proof (induction nodes arbitrary: sm)
  case (Cons node nodes)
  have "hm_get (tm_tunnels (snd (sync_node dec new node sm))) n \<noteq> None"
    using Cons.prems by (auto simp: sync_node_tunnels hm_simps split: option.split)
  then show ?case using Cons.IH by simp
qed simp

lemma sync_nodes_dropped:
  "set (fst (sync_nodes dec new nodes m)) = {n. tunnel_for m n \<noteq> None \<and> n \<notin> listed nodes}"
proof -
  let ?t = "tm_tunnels (snd (fold (sync_node dec new) nodes ([], m)))"
  have "hm_get ?t n \<noteq> None \<longleftrightarrow> hm_get (tm_tunnels m) n \<noteq> None" if "n \<notin> listed nodes" for n
    using fold_sync_keys [of dec new nodes "([], m)" n] fold_sync_keeps [of "([], m)" n dec new nodes] that
    by auto
  moreover have "n \<in> set (hm_keys ?t) \<longleftrightarrow> hm_get ?t n \<noteq> None" for n by (simp add: hm_keys_iff)
  ultimately show ?thesis
    using fold_sync_seen [of dec new nodes "([], m)"]
    by (auto simp: sync_nodes_def Let_def split_beta tunnel_for_def)
qed

section \<open>Properties\<close>

theorem sync_nodes_is_exact:
  assumes "tm_inv m"
  shows "set (fst (sync_nodes dec new nodes m)) = {n. tunnel_for m n \<noteq> None \<and> n \<notin> listed nodes} \<and>
    (tunnel_for (snd (sync_nodes dec new nodes m)) n \<noteq> None \<longrightarrow> n \<in> listed nodes) \<and>
    (\<forall>tunnel. tunnel_for m n = Some tunnel \<and> n \<in> listed nodes \<and>
        (\<forall>node \<in> set nodes. hn_node_id node = n \<longrightarrow> leaves_alone dec tunnel node) \<longrightarrow>
      tunnel_for (snd (sync_nodes dec new nodes m)) n = Some tunnel) \<and>
    (\<forall>before node after key pk ip. nodes = before @ node # after \<and> n = hn_node_id node \<and>
        n \<notin> hn_node_id ` set after \<and> hn_wireguard_public_key node = Some key \<and>
        decode_public_base64 dec key = Some pk \<and> parse_ipaddr (hn_ip_address node) = Some ip \<longrightarrow>
      (\<exists>tunnel. tunnel_for (snd (sync_nodes dec new nodes m)) n = Some tunnel \<and>
        nt_addr tunnel = (ip, WIREGUARD_PORT) \<and> nt_key_base64 tunnel = key))"
proof (intro conjI allI impI; (elim conjE)?)
  show "set (fst (sync_nodes dec new nodes m)) = {n. tunnel_for m n \<noteq> None \<and> n \<notin> listed nodes}"
    by (rule sync_nodes_dropped)
  show "n \<in> listed nodes" if "tunnel_for (snd (sync_nodes dec new nodes m)) n \<noteq> None"
    using that by (simp add: sync_nodes_get [OF assms] split: if_splits)
  show "tunnel_for (snd (sync_nodes dec new nodes m)) n = Some tunnel"
    if "tunnel_for m n = Some tunnel" "n \<in> listed nodes"
      "\<forall>node \<in> set nodes. hn_node_id node = n \<longrightarrow> leaves_alone dec tunnel node" for tunnel
    using that fold_sync_alone [of "([], m)" n tunnel nodes dec new]
    by (simp add: sync_nodes_get [OF assms]) (simp add: tunnel_for_def)
  fix before node after key pk ip
  assume a: "nodes = before @ node # after" "n = hn_node_id node" "n \<notin> hn_node_id ` set after"
    "hn_wireguard_public_key node = Some key" "decode_public_base64 dec key = Some pk"
    "parse_ipaddr (hn_ip_address node) = Some ip"
  then have "n \<in> listed nodes" by (auto simp: listed_def)
  then show "\<exists>tunnel. tunnel_for (snd (sync_nodes dec new nodes m)) n = Some tunnel \<and>
      nt_addr tunnel = (ip, WIREGUARD_PORT) \<and> nt_key_base64 tunnel = key"
    using sync_node_builds [OF a(4-6), of new "fold (sync_node dec new) before ([], m)"]
      fold_sync_other [OF a(3), of dec new "sync_node dec new node (fold (sync_node dec new) before ([], m))"]
    by (simp add: sync_nodes_get [OF assms] a(1,2))
qed


definition ex_node :: heartbeat_node where
  "ex_node = \<lparr>hn_node_id = ''n-1'', hn_ip_address = ''198.51.100.7'', hn_wireguard_public_key = Some ''key''\<rparr>"

lemma sync_nodes_is_exact_witness:
  "\<exists>tunnel. tunnel_for (snd (sync_nodes (\<lambda>_. Some (replicate 32 0)) (\<lambda>i _. i) [ex_node] tunnel_manager_new))
      ''n-1'' = Some tunnel \<and>
    nt_addr tunnel = (V4 (Ipv4 198 51 100 7), WIREGUARD_PORT) \<and> nt_key_base64 tunnel = ''key''"
proof -
  have ip: "parse_ipaddr ''198.51.100.7'' = Some (V4 (Ipv4 198 51 100 7))" by code_simp
  have a: "[ex_node] = [] @ ex_node # [] \<and> ''n-1'' = hn_node_id ex_node \<and> ''n-1'' \<notin> hn_node_id ` set [] \<and>
      hn_wireguard_public_key ex_node = Some ''key'' \<and>
      decode_public_base64 (\<lambda>_. Some (replicate 32 0)) ''key'' = Some (replicate 32 0) \<and>
      parse_ipaddr (hn_ip_address ex_node) = Some (V4 (Ipv4 198 51 100 7))"
    by (simp add: ex_node_def decode_public_base64_def ip)
  from sync_nodes_is_exact [OF tm_inv_new, of "\<lambda>_. Some (replicate 32 0)" "\<lambda>i _. i" "[ex_node]" "''n-1''",
      THEN conjunct2, THEN conjunct2, THEN conjunct2, rule_format, OF a]
  show ?thesis .
qed

end
