(* ===== verification/Forwarding.thy ===== *)
theory Forwarding
  imports Packet_Props Flow_Table_Props Tunnel_Manager
begin

text \<open>
  What \<open>src/src/main.rs\<close> does with one packet: a decrypted one on its way to the internal network
  (\<open>prepare_decrypted_packet_for_forwarding\<close>) and a reply on its way back
  (\<open>prepare_reply_packet_for_forwarding\<close>). Both change the packet in place, so the packet is returned;
  \<open>None\<close> is a panic. \<open>Tunn::dst_address\<close> (boringtun) is a parameter; log lines are left out.
\<close>

section \<open>A decrypted packet\<close>

text \<open>
  The chain of rewrites, each tried only when the one before it succeeded: the \<open>&&\<close> of the code,
  which leaves the packet as the last rewrite tried left it.
\<close>

definition then_rewrite ::
  "(bool \<times> bytes) option \<Rightarrow> (bytes \<Rightarrow> (bool \<times> bytes) option) \<Rightarrow> (bool \<times> bytes) option" where
  "then_rewrite first second = (case first of
     None \<Rightarrow> None
   | Some (ok, packet) \<Rightarrow> if ok then second packet else Some (False, packet))"

text \<open>\<open>Option::is_none_or\<close> of a rewrite.\<close>

definition is_none_or ::
  "(bytes \<Rightarrow> u16 \<Rightarrow> (bool \<times> bytes) option) \<Rightarrow> u16 option \<Rightarrow> bytes \<Rightarrow> (bool \<times> bytes) option" where
  "is_none_or rewrite port packet =
     (case port of None \<Rightarrow> Some (True, packet) | Some p \<Rightarrow> rewrite packet p)"

definition packet_dialled :: "bytes \<Rightarrow> u16 \<Rightarrow> dialled option" where
  "packet_dialled packet dst_port =
     (case (parse_ipv4_transport packet, parse_destination_ipv4 packet) of
        (Some transport, Some gateway_address) \<Rightarrow>
          Some \<lparr>dl_transport = transport, dl_gateway_address = gateway_address,
                dl_destination_port = dst_port\<rparr>
      | _ \<Rightarrow> None)"

text \<open>A packet to the Connector itself: whose control connection it is gets recorded.\<close>

definition note_control_packet :: "bytes \<Rightarrow> string \<Rightarrow> flow_table \<Rightarrow> flow_table" where
  "note_control_packet packet node_id table =
     (case parse_source_port packet of
        None \<Rightarrow> table
      | Some source_port \<Rightarrow>
          (let is_reply_to_own_connection =
                 (case parse_destination_port packet of
                    None \<Rightarrow> False
                  | Some port \<Rightarrow> node_for_outbound_port table port \<noteq> None)
           in if is_reply_to_own_connection then table
              else record_control_channel_port node_id source_port table))"

text \<open>\<open>dst_address\<close> is \<open>Tunn::dst_address\<close>. The result: forward it?, the packet, the table.\<close>

definition prepare_decrypted_packet ::
  "(bytes \<Rightarrow> ipaddr option) \<Rightarrow> bytes \<Rightarrow> string \<Rightarrow> ipaddr \<Rightarrow> dns_cache \<Rightarrow> instant \<Rightarrow> flow_table \<Rightarrow>
   (bool \<times> bytes \<times> flow_table) option" where
  "prepare_decrypted_packet dst_address packet node_id connector_virtual_ip dns_cache now table =
     (if dst_address packet = Some connector_virtual_ip
      then Some (True, packet, note_control_packet packet node_id table)
      else
        (case (parse_source_port packet, parse_destination_port packet) of
           (Some source_port, Some dst_port) \<Rightarrow>
             (let dialled = packet_dialled packet dst_port
              in case forward node_id source_port dialled dst_port dns_cache table of
                   (Forward real_dst internal_port allocated_port, table) \<Rightarrow>
                     (case then_rewrite
                            (then_rewrite (rewrite_destination_ipv4 packet real_dst)
                               (is_none_or rewrite_destination_port internal_port))
                            (is_none_or rewrite_source_port allocated_port) of
                        None \<Rightarrow> None
                      | Some (ok, packet) \<Rightarrow> Some (ok, packet, table))
                 | (NotAdmitted, table) \<Rightarrow>
                     (case is_rule_ended node_id source_port dialled now table of
                        (True, table) \<Rightarrow> Some (False, packet, table)
                      | (False, table) \<Rightarrow>
                          Some (False, packet, buffer_pending node_id source_port dialled packet now table))
                 | (Refused _, table) \<Rightarrow> Some (False, packet, table))
         | _ \<Rightarrow> Some (False, packet, table)))"

section \<open>A reply\<close>

definition prepare_reply_packet ::
  "bytes \<Rightarrow> u16 \<Rightarrow> flow_table \<Rightarrow> (string option \<times> bytes) option" where
  "prepare_reply_packet packet destination_port table =
     (case route_reply (parse_ipv4_transport packet) (parse_source_ipv4 packet)
             (parse_source_port packet) destination_port table of
        Inr (Unchanged node_id) \<Rightarrow> Some (Some node_id, packet)
      | Inr (Restore node_id source source_port restored_destination_port) \<Rightarrow>
          (case then_rewrite
                 (then_rewrite (rewrite_source_ipv4 packet source)
                    (is_none_or rewrite_source_port source_port))
                 (is_none_or rewrite_destination_port restored_destination_port) of
             None \<Rightarrow> None
           | Some (ok, packet) \<Rightarrow> Some (if ok then Some node_id else None, packet))
      | Inl _ \<Rightarrow> Some (None, packet))"

section \<open>The rewrites together\<close>

lemma reads_as_parses:
  assumes "ipv4_tcp_or_udp packet = Some (protocol, ihl)" "length q = length packet"
    "q ! 0 = packet ! 0" "q ! 6 = packet ! 6" "q ! 7 = packet ! 7" "q ! 9 = packet ! 9"
  shows "ipv4_tcp_or_udp q = Some (protocol, ihl)"
  using ipv4_tcp_or_udp_cong [of q packet] assms ipv4_tcp_or_udp_Some(1,6) [OF assms(1)] by simp

lemma rewrite_destination_step:
  assumes "ipv4_tcp_or_udp packet = Some (protocol, ihl)"
  shows "\<exists>q. rewrite_destination_ipv4 packet a = Some (True, q) \<and> ipv4_tcp_or_udp q = Some (protocol, ihl) \<and>
    reads_as q packet (parse_source_ipv4 packet) (Some a) (parse_source_port packet) (parse_destination_port packet)"
  using address_rewritten_reads(1) [OF assms] address_rewritten_parse [OF assms, of 16]
  by (simp add: rewrite_destination_ipv4_def rewrite_ipv4_address_eq assms)

lemma rewrite_source_step:
  assumes "ipv4_tcp_or_udp packet = Some (protocol, ihl)"
  shows "\<exists>q. rewrite_source_ipv4 packet a = Some (True, q) \<and> ipv4_tcp_or_udp q = Some (protocol, ihl) \<and>
    reads_as q packet (Some a) (parse_destination_ipv4 packet) (parse_source_port packet) (parse_destination_port packet)"
  using address_rewritten_reads(2) [OF assms] address_rewritten_parse [OF assms, of 12]
  by (simp add: rewrite_source_ipv4_def rewrite_ipv4_address_eq assms)

lemma rewrite_source_port_step:
  assumes "ipv4_tcp_or_udp packet = Some (protocol, ihl)"
  shows "\<exists>q. is_none_or rewrite_source_port port packet = Some (True, q) \<and>
    ipv4_tcp_or_udp q = Some (protocol, ihl) \<and>
    reads_as q packet (parse_source_ipv4 packet) (parse_destination_ipv4 packet)
      (if port = None then parse_source_port packet else port) (parse_destination_port packet)"
  using port_rewritten_reads(1) [OF assms] port_rewritten_parse [OF assms, of 0]
  by (cases port) (simp_all add: is_none_or_def rewrite_source_port_def rewrite_l4_port_eq assms, simp add: reads_as_def assms)

lemma rewrite_destination_port_step:
  assumes "ipv4_tcp_or_udp packet = Some (protocol, ihl)"
  shows "\<exists>q. is_none_or rewrite_destination_port port packet = Some (True, q) \<and>
    ipv4_tcp_or_udp q = Some (protocol, ihl) \<and>
    reads_as q packet (parse_source_ipv4 packet) (parse_destination_ipv4 packet)
      (parse_source_port packet) (if port = None then parse_destination_port packet else port)"
  using port_rewritten_reads(2) [OF assms] port_rewritten_parse [OF assms, of 2]
  by (cases port) (simp_all add: is_none_or_def rewrite_destination_port_def rewrite_l4_port_eq assms, simp add: reads_as_def assms)

text \<open>The forwarding chain and the reply chain succeed as a whole on a packet that parses.\<close>

lemma forward_chain:
  assumes "ipv4_tcp_or_udp packet = Some (protocol, ihl)"
  shows "\<exists>q. then_rewrite (then_rewrite (rewrite_destination_ipv4 packet a)
        (is_none_or rewrite_destination_port dp)) (is_none_or rewrite_source_port sp) = Some (True, q) \<and>
    reads_as q packet (parse_source_ipv4 packet) (Some a)
      (if sp = None then parse_source_port packet else sp)
      (if dp = None then parse_destination_port packet else dp)"
proof -
  obtain q1 where q1: "rewrite_destination_ipv4 packet a = Some (True, q1)"
    "ipv4_tcp_or_udp q1 = Some (protocol, ihl)"
    "reads_as q1 packet (parse_source_ipv4 packet) (Some a) (parse_source_port packet) (parse_destination_port packet)"
    using rewrite_destination_step [OF assms] by blast
  obtain q2 where q2: "is_none_or rewrite_destination_port dp q1 = Some (True, q2)"
    "ipv4_tcp_or_udp q2 = Some (protocol, ihl)"
    "reads_as q2 q1 (parse_source_ipv4 q1) (parse_destination_ipv4 q1) (parse_source_port q1)
      (if dp = None then parse_destination_port q1 else dp)"
    using rewrite_destination_port_step [OF q1(2)] by blast
  obtain q3 where q3: "is_none_or rewrite_source_port sp q2 = Some (True, q3)"
    "reads_as q3 q2 (parse_source_ipv4 q2) (parse_destination_ipv4 q2)
      (if sp = None then parse_source_port q2 else sp) (parse_destination_port q2)"
    using rewrite_source_port_step [OF q2(2)] by blast
  show ?thesis
    using q1 q2 q3 same_elsewhere_trans [of q3 q2 packet] same_elsewhere_trans [of q2 q1 packet]
    by (auto simp: then_rewrite_def reads_as_def)
qed

lemma reply_chain:
  assumes "ipv4_tcp_or_udp packet = Some (protocol, ihl)"
  shows "\<exists>q. then_rewrite (then_rewrite (rewrite_source_ipv4 packet a)
        (is_none_or rewrite_source_port sp)) (is_none_or rewrite_destination_port dp) = Some (True, q) \<and>
    reads_as q packet (Some a) (parse_destination_ipv4 packet)
      (if sp = None then parse_source_port packet else sp)
      (if dp = None then parse_destination_port packet else dp)"
proof -
  obtain q1 where q1: "rewrite_source_ipv4 packet a = Some (True, q1)"
    "ipv4_tcp_or_udp q1 = Some (protocol, ihl)"
    "reads_as q1 packet (Some a) (parse_destination_ipv4 packet) (parse_source_port packet) (parse_destination_port packet)"
    using rewrite_source_step [OF assms] by blast
  obtain q2 where q2: "is_none_or rewrite_source_port sp q1 = Some (True, q2)"
    "ipv4_tcp_or_udp q2 = Some (protocol, ihl)"
    "reads_as q2 q1 (parse_source_ipv4 q1) (parse_destination_ipv4 q1)
      (if sp = None then parse_source_port q1 else sp) (parse_destination_port q1)"
    using rewrite_source_port_step [OF q1(2)] by blast
  obtain q3 where q3: "is_none_or rewrite_destination_port dp q2 = Some (True, q3)"
    "reads_as q3 q2 (parse_source_ipv4 q2) (parse_destination_ipv4 q2) (parse_source_port q2)
      (if dp = None then parse_destination_port q2 else dp)"
    using rewrite_destination_port_step [OF q2(2)] by blast
  show ?thesis
    using q1 q2 q3 same_elsewhere_trans [of q3 q2 packet] same_elsewhere_trans [of q2 q1 packet]
    by (auto simp: then_rewrite_def reads_as_def)
qed

lemma chain_refused:
  assumes "ipv4_tcp_or_udp packet = None"
  shows "then_rewrite (then_rewrite (rewrite_destination_ipv4 packet a) f) g = Some (False, packet)"
    and "then_rewrite (then_rewrite (rewrite_source_ipv4 packet a) f) g = Some (False, packet)"
  by (simp_all add: then_rewrite_def rewrite_destination_ipv4_def rewrite_source_ipv4_def
      rewrite_ipv4_address_eq assms)

text \<open>Whatever the packet, both chains return, and one that refuses has written nothing.\<close>

lemma forward_chain_total:
  "\<exists>q. then_rewrite (then_rewrite (rewrite_destination_ipv4 packet a)
      (is_none_or rewrite_destination_port dp)) (is_none_or rewrite_source_port sp) =
      Some (ipv4_tcp_or_udp packet \<noteq> None, q) \<and> (ipv4_tcp_or_udp packet \<noteq> None \<or> q = packet)"
  using forward_chain [of packet _ _ a dp sp] chain_refused(1) [of packet]
  by (cases "ipv4_tcp_or_udp packet") auto

lemma reply_chain_total:
  "\<exists>q. then_rewrite (then_rewrite (rewrite_source_ipv4 packet a)
      (is_none_or rewrite_source_port sp)) (is_none_or rewrite_destination_port dp) =
      Some (ipv4_tcp_or_udp packet \<noteq> None, q) \<and> (ipv4_tcp_or_udp packet \<noteq> None \<or> q = packet)"
  using reply_chain [of packet _ _ a sp dp] chain_refused(2) [of packet]
  by (cases "ipv4_tcp_or_udp packet") auto

section \<open>What becomes of a decrypted packet\<close>

lemma note_control_packet_inv: "ft_inv t \<Longrightarrow> ft_inv (note_control_packet packet n t)"
  by (simp add: note_control_packet_def Let_def record_control_channel_port_inv split: option.split)

text \<open>The outcome of a packet that is not for the Connector itself.\<close>

lemma prepare_decrypted_cases:
  assumes "dst_address packet \<noteq> Some vip"
  obtains (unparsed) "parse_source_port packet = None \<or> parse_destination_port packet = None"
      "prepare_decrypted_packet dst_address packet n vip cache now t = Some (False, packet, t)"
  | (forward) sp dp a change alloc t' ok q where "parse_source_port packet = Some sp"
      "parse_destination_port packet = Some dp"
      "forward n sp (packet_dialled packet dp) dp cache t = (Forward a change alloc, t')"
      "then_rewrite (then_rewrite (rewrite_destination_ipv4 packet a)
         (is_none_or rewrite_destination_port change)) (is_none_or rewrite_source_port alloc) = Some (ok, q)"
      "ok = (ipv4_tcp_or_udp packet \<noteq> None)" "ok \<or> q = packet"
      "prepare_decrypted_packet dst_address packet n vip cache now t = Some (ok, q, t')"
  | (kept_back) sp dp t' where "parse_source_port packet = Some sp"
      "parse_destination_port packet = Some dp"
      "prepare_decrypted_packet dst_address packet n vip cache now t = Some (False, packet, t')"
      "\<exists>t0. t0 = snd (forward n sp (packet_dialled packet dp) dp cache t) \<and>
         (t' = t0 \<or> t' = snd (is_rule_ended n sp (packet_dialled packet dp) now t0) \<or>
          t' = buffer_pending n sp (packet_dialled packet dp) packet now
                 (snd (is_rule_ended n sp (packet_dialled packet dp) now t0)))"
proof (cases "parse_source_port packet = None \<or> parse_destination_port packet = None")
  case True
  then show ?thesis
    using assms by (intro unparsed) (auto simp: prepare_decrypted_packet_def split: option.split)
next
  case False
  then obtain sp dp where ports: "parse_source_port packet = Some sp" "parse_destination_port packet = Some dp"
    by auto
  obtain f t0 where f: "forward n sp (packet_dialled packet dp) dp cache t = (f, t0)" by force
  show ?thesis
  proof (cases f)
    case (Forward a change alloc)
    define ok where "ok = (ipv4_tcp_or_udp packet \<noteq> None)"
    obtain q where c: "then_rewrite (then_rewrite (rewrite_destination_ipv4 packet a)
         (is_none_or rewrite_destination_port change)) (is_none_or rewrite_source_port alloc) = Some (ok, q)"
      "ok = (ipv4_tcp_or_udp packet \<noteq> None)" "ok \<or> q = packet"
      using forward_chain_total [of packet a change alloc] unfolding ok_def by blast
    show ?thesis
      by (rule forward [OF ports f [unfolded Forward] c])
        (use assms ports f Forward c(1) in \<open>simp add: prepare_decrypted_packet_def Let_def\<close>)
  next
    case NotAdmitted
    obtain b t1 where r: "is_rule_ended n sp (packet_dialled packet dp) now t0 = (b, t1)" by force
    show ?thesis
      by (rule kept_back [OF ports, where t' = "if b then t1
            else buffer_pending n sp (packet_dialled packet dp) packet now t1"])
        (use assms ports f NotAdmitted r in
          \<open>auto simp: prepare_decrypted_packet_def Let_def split: bool.split\<close>)
  next
    case (Refused r)
    show ?thesis
      by (rule kept_back [OF ports, where t' = t0])
        (use assms ports f Refused in \<open>auto simp: prepare_decrypted_packet_def Let_def\<close>)
  qed
qed

lemma prepare_decrypted_total:
  "\<exists>ok q t'. prepare_decrypted_packet dst_address packet n vip cache now t = Some (ok, q, t') \<and>
     (ok \<or> q = packet) \<and> (\<not> ft_inv t \<or> ft_inv t')"
proof (cases "dst_address packet = Some vip")
  case True
  then show ?thesis
    by (intro exI [of _ True]) (simp add: prepare_decrypted_packet_def note_control_packet_inv)
next
  case False
  then show ?thesis
  proof (cases rule: prepare_decrypted_cases [where n = n and cache = cache and now = now and t = t])
    case unparsed
    then show ?thesis by (intro exI [of _ False]) simp
  next
    case (forward sp dp a change alloc t' ok q)
    then show ?thesis
      using forward_inv [of t n sp "packet_dialled packet dp" dp cache] by auto
  next
    case (kept_back sp dp t')
    then show ?thesis
      using forward_inv [of t n sp "packet_dialled packet dp" dp cache]
      by (auto simp: is_rule_ended_inv buffer_pending_inv)
  qed
qed

lemma prepare_reply_cases:
  obtains (unchanged) node_id where "prepare_reply_packet packet port t = Some (Some node_id, packet)"
      "route_reply (parse_ipv4_transport packet) (parse_source_ipv4 packet) (parse_source_port packet) port t =
         Inr (Unchanged node_id)"
  | (restored) node_id a sp dp q where "prepare_reply_packet packet port t = Some (Some node_id, q)"
      "route_reply (parse_ipv4_transport packet) (parse_source_ipv4 packet) (parse_source_port packet) port t =
         Inr (Restore node_id a sp dp)"
      "reads_as q packet (Some a) (parse_destination_ipv4 packet)
         (if sp = None then parse_source_port packet else sp)
         (if dp = None then parse_destination_port packet else dp)"
  | (dropped) "prepare_reply_packet packet port t = Some (None, packet)"
proof (cases "route_reply (parse_ipv4_transport packet) (parse_source_ipv4 packet) (parse_source_port packet) port t")
  case (Inl miss)
  then show ?thesis by (intro dropped) (simp add: prepare_reply_packet_def)
next
  case (Inr route)
  show ?thesis
  proof (cases route)
    case (Unchanged node_id)
    then show ?thesis using Inr by (intro unchanged) (simp_all add: prepare_reply_packet_def)
  next
    case (Restore node_id a sp dp)
    show ?thesis
    proof (cases "ipv4_tcp_or_udp packet")
      case None
      then show ?thesis
        using Inr Restore chain_refused(2) [OF None] by (intro dropped) (simp add: prepare_reply_packet_def)
    next
      case (Some pi)
      obtain protocol ihl where pi: "pi = (protocol, ihl)" by force
      obtain q where "then_rewrite (then_rewrite (rewrite_source_ipv4 packet a)
          (is_none_or rewrite_source_port sp)) (is_none_or rewrite_destination_port dp) = Some (True, q)"
        "reads_as q packet (Some a) (parse_destination_ipv4 packet)
         (if sp = None then parse_source_port packet else sp)
         (if dp = None then parse_destination_port packet else dp)"
        using reply_chain [OF Some [unfolded pi]] by blast
      then show ?thesis
        using Inr Restore by (intro restored) (simp_all add: prepare_reply_packet_def)
    qed
  qed
qed

lemma prepare_reply_total:
  "\<exists>to q. prepare_reply_packet packet port t = Some (to, q) \<and> (to \<noteq> None \<or> q = packet)"
  by (cases rule: prepare_reply_cases [of packet port t]) auto

theorem packet_decisions_total:
  "(\<exists>ok q t'. prepare_decrypted_packet dst_address packet n vip cache now t = Some (ok, q, t') \<and>
      (ok \<or> q = packet)) \<and>
   (\<exists>to r. prepare_reply_packet packet port t = Some (to, r) \<and> (to \<noteq> None \<or> r = packet))"
  using prepare_decrypted_total prepare_reply_total by blast

text \<open>A forwarded packet and the flow table's decision it was forwarded by.\<close>

lemma forwarded_packet_reads:
  assumes "prepare_decrypted_packet dst_address packet n vip cache now t = Some (True, q, t')"
    and "dst_address packet \<noteq> Some vip"
  shows "\<exists>sp dp a change alloc. parse_source_port packet = Some sp \<and>
    parse_destination_port packet = Some dp \<and>
    forward n sp (packet_dialled packet dp) dp cache t = (Forward a change alloc, t') \<and>
    ipv4_tcp_or_udp packet \<noteq> None \<and>
    reads_as q packet (parse_source_ipv4 packet) (Some a)
      (if alloc = None then Some sp else alloc) (if change = None then Some dp else change)"
  using assms(2)
proof (cases rule: prepare_decrypted_cases [where n = n and cache = cache and now = now and t = t])
  case (forward sp dp a change alloc t'' ok q')
  obtain protocol ihl where pi: "ipv4_tcp_or_udp packet = Some (protocol, ihl)"
    using forward(5,7) assms(1) by auto
  show ?thesis
    using forward assms(1) forward_chain [OF pi, of a change alloc] pi by auto
qed (use assms(1) in auto)

text \<open>
  C10: a decrypted packet that is not for the Connector itself is forwarded only if its flow,
  by its dialled identity or without one, was admitted for that node and port and neither
  released nor evicted since, and the packet that leaves reads the address and ports the flow
  table decided, its source address kept, every byte outside the addresses, the ports and the
  IPv4 and TCP or UDP checksums unchanged
\<close>

theorem forwarded_packet_was_admitted:
  assumes "prepare_decrypted_packet dst_address packet n vip cache now (run es) = Some (True, q, t')"
    and "dst_address packet \<noteq> Some vip"
  shows "\<exists>sp dp a change alloc es1 es2 d' g f dev rules.
    parse_source_port packet = Some sp \<and> parse_destination_port packet = Some dp \<and>
    fst (forward n sp (packet_dialled packet dp) dp cache (run es)) = Forward a change alloc \<and>
    reads_as q packet (parse_source_ipv4 packet) (Some a)
      (if alloc = None then Some sp else alloc) (if change = None then Some dp else change) \<and>
    es = es1 @ EvAdmit n sp d' g f dev rules # es2 \<and> (d' = packet_dialled packet dp \<or> d' = None) \<and>
    (\<forall>e \<in> set es2. \<not> ends_admission (flow_key_new n sp d') g f dev e)"
proof -
  obtain sp dp a change alloc where p: "parse_source_port packet = Some sp"
    "parse_destination_port packet = Some dp"
    "forward n sp (packet_dialled packet dp) dp cache (run es) = (Forward a change alloc, t')"
    "reads_as q packet (parse_source_ipv4 packet) (Some a)
      (if alloc = None then Some sp else alloc) (if change = None then Some dp else change)"
    using forwarded_packet_reads [OF assms] by blast
  have f: "fst (forward n sp (packet_dialled packet dp) dp cache (run es)) = Forward a change alloc"
    using p(3) by simp
  show ?thesis
    using forward_origin [OF f] p(1,2,4) f by blast
qed

section \<open>A packet and its reply\<close>

text \<open>
  \<open>r\<close> answers \<open>q\<close>: the host the packet was sent to replies from the address and port it was reached
  at, to the port it was reached from.
\<close>

definition answers :: "bytes \<Rightarrow> bytes \<Rightarrow> bool" where
  "answers r q \<longleftrightarrow> parse_ipv4_transport r = parse_ipv4_transport q \<and>
     parse_source_ipv4 r = parse_destination_ipv4 q \<and>
     parse_source_port r = parse_destination_port q \<and>
     parse_destination_port r = parse_source_port q"

lemma packet_and_reply:
  assumes "ft_inv t" "dst_address packet \<noteq> Some vip"
    and "prepare_decrypted_packet dst_address packet n vip cache now t = Some (True, q, t')"
    and "parse_source_port packet = Some sp" "parse_destination_port packet = Some dp"
    and "hm_contains (ft_flows t) (flow_key_new n sp (packet_dialled packet dp))"
    and "packet_dialled packet dp = Some d"
    and "answers r q" "parse_destination_port r = Some port"
  shows "\<exists>r'. prepare_reply_packet r port t' = Some (Some n, r') \<and>
    reads_as r' r (parse_destination_ipv4 packet) (parse_destination_ipv4 r) (Some dp) (Some sp)"
proof -
  obtain a change alloc where f: "forward n sp (Some d) dp cache t = (Forward a change alloc, t')"
    and q: "reads_as q packet (parse_source_ipv4 packet) (Some a)
      (if alloc = None then Some sp else alloc) (if change = None then Some dp else change)"
    using forwarded_packet_reads [OF assms(3,2)] assms(4,5,7) by auto
  have d: "parse_ipv4_transport packet = Some (dl_transport d)"
    "parse_destination_ipv4 packet = Some (dl_gateway_address d)" "dl_destination_port d = dp"
    using assms(7) by (auto simp: packet_dialled_def split: option.splits)
  have fi: "forward_with_identity (flow_key_new n sp (Some d)) d cache t = (Forward a change alloc, t')"
    using f assms(6,7) by (simp add: forward_eq)
  obtain rule :: port_rule and p where o: "alloc = Some p"
      "owns (ft_flows t') (flow_key_new n sp (Some d)) (dl_transport d, a, pr_internal_port rule, p)"
    and ch: "change = destination_change (pr_internal_port rule) (dl_destination_port d)"
    using forward_with_identity_owns [OF assms(1) _ fi] by auto
  have inv: "ft_inv t'"
    using forward_with_identity_inv [OF assms(1), of "flow_key_new n sp (Some d)" d cache] fi by simp
  have ip: "(if change = None then Some dp else change) = Some (pr_internal_port rule)"
    by (simp add: ch destination_change_def d(3))
  have r: "parse_ipv4_transport r = Some (dl_transport d)" "parse_source_ipv4 r = Some a"
    "parse_source_port r = Some (pr_internal_port rule)" "port = p"
    using assms(8,9) q d(1) o(1) ip by (auto simp: answers_def reads_as_def)
  have "route_reply (parse_ipv4_transport r) (parse_source_ipv4 r) (parse_source_port r) port t' =
      Inr (Restore n (dl_gateway_address d) (Some dp) (Some sp))"
    using dialled_route_owner [OF inv o(2)] r d(3) by (simp add: route_reply_def)
  moreover obtain protocol ihl where "ipv4_tcp_or_udp r = Some (protocol, ihl)"
    using r(1) by (cases "ipv4_tcp_or_udp r") (auto simp: parse_ipv4_transport_def)
  ultimately show ?thesis
    using reply_chain [of r protocol ihl "dl_gateway_address d" "Some dp" "Some sp"] d(2)
    by (auto simp: prepare_reply_packet_def)
qed

text \<open>The example packet, sent by a device whose flow is admitted, and the host's answer.\<close>

definition ex_dst :: "bytes \<Rightarrow> ipaddr option" where
  "ex_dst packet = map_option V4 (parse_destination_ipv4 packet)"

definition ex_reply :: bytes where
  "ex_reply = [0x45, 0, 0, 40, 0, 0, 0x40, 0, 64, 6, 0, 0, 10, 0, 0, 5, 10, 0, 0, 1,
     0x20, 0xFB, 0x04, 0x00, 0, 0, 0, 1, 0, 0, 0, 2, 0x50, 0x12, 0xFF, 0xFF, 0, 0, 0, 0]"

lemma ex_packet_fields:
  "parse_source_port ex_packet = Some 40100" "parse_destination_port ex_packet = Some 443"
  "packet_dialled ex_packet 443 = Some ex_dialled" "ex_dst ex_packet \<noteq> Some (V4 (Ipv4 100 127 0 1))"
  "parse_ipv4_transport ex_packet = Some Tcp" "parse_source_ipv4 ex_packet = Some (Ipv4 10 0 0 1)"
  "parse_destination_ipv4 ex_packet = Some (Ipv4 100 64 0 9)"
  by code_simp+

lemma ex_reply_fields:
  "parse_source_port ex_reply = Some 8443" "parse_destination_port ex_reply = Some 1024"
  "parse_ipv4_transport ex_reply = Some Tcp" "parse_source_ipv4 ex_reply = Some (Ipv4 10 0 0 5)"
  by code_simp+

lemma ex_prepared:
  "\<exists>q t'. prepare_decrypted_packet ex_dst ex_packet ''n-1'' (V4 (Ipv4 100 127 0 1)) dns_new 0 (run ex_events) =
     Some (True, q, t') \<and> reads_as q ex_packet (Some (Ipv4 10 0 0 1)) (Some (Ipv4 10 0 0 5)) (Some 1024) (Some 8443)"
proof -
  obtain q where "then_rewrite (then_rewrite (rewrite_destination_ipv4 ex_packet (Ipv4 10 0 0 5))
        (is_none_or rewrite_destination_port (Some 8443))) (is_none_or rewrite_source_port (Some 1024)) = Some (True, q)"
    "reads_as q ex_packet (Some (Ipv4 10 0 0 1)) (Some (Ipv4 10 0 0 5)) (Some 1024) (Some 8443)"
    using forward_chain [OF ex_packet_parsed, of "Ipv4 10 0 0 5" "Some 8443" "Some 1024"] ex_packet_fields by auto
  moreover obtain t' where "forward ''n-1'' 40100 (Some ex_dialled) 443 dns_new (run ex_events) =
      (Forward (Ipv4 10 0 0 5) (Some 8443) (Some 1024), t')"
    using ex_forward_pair by blast
  ultimately show ?thesis
    using ex_packet_fields by (intro exI [of _ q] exI [of _ t']) (simp add: prepare_decrypted_packet_def Let_def)
qed

lemma forwarded_packet_was_admitted_witness:
  "\<exists>es1 es2 d' g f dev rules. ex_events = es1 @ EvAdmit ''n-1'' 40100 d' g f dev rules # es2"
proof -
  obtain q t' where "prepare_decrypted_packet ex_dst ex_packet ''n-1'' (V4 (Ipv4 100 127 0 1)) dns_new 0
      (run ex_events) = Some (True, q, t')"
    using ex_prepared by blast
  from forwarded_packet_was_admitted [OF this ex_packet_fields(4)] ex_packet_fields(1) show ?thesis
    by (metis option.inject)
qed

lemma ex_packet_and_reply:
  "\<exists>q t' r'. prepare_decrypted_packet ex_dst ex_packet ''n-1'' (V4 (Ipv4 100 127 0 1)) dns_new 0 (run ex_events) =
      Some (True, q, t') \<and> prepare_reply_packet ex_reply 1024 t' = Some (Some ''n-1'', r') \<and>
    parse_source_ipv4 r' = Some (Ipv4 100 64 0 9) \<and> parse_source_port r' = Some 443 \<and>
    parse_destination_port r' = Some 40100"
proof -
  obtain q t' where p: "prepare_decrypted_packet ex_dst ex_packet ''n-1'' (V4 (Ipv4 100 127 0 1)) dns_new 0
      (run ex_events) = Some (True, q, t')"
    "reads_as q ex_packet (Some (Ipv4 10 0 0 1)) (Some (Ipv4 10 0 0 5)) (Some 1024) (Some 8443)"
    using ex_prepared by blast
  have a: "answers ex_reply q"
    using p(2) ex_reply_fields ex_packet_fields by (simp add: answers_def reads_as_def)
  have c: "hm_contains (ft_flows (run ex_events)) (flow_key_new ''n-1'' 40100 (packet_dialled ex_packet 443))"
    by (simp add: ex_packet_fields hm_contains_def ex_flow)
  show ?thesis
    using packet_and_reply [OF run_inv ex_packet_fields(4) p(1) ex_packet_fields(1,2) c
        ex_packet_fields(3) a ex_reply_fields(2)] p(1) ex_packet_fields(7)
    by (auto simp: reads_as_def)
qed

end
