(* ===== verification/Data_Plane.thy ===== *)
theory Data_Plane
  imports Forwarding
begin

text \<open>
  The loops of \<open>src/src/main.rs\<close> that carry packets: one turn of \<open>run_wireguard_receive_loop\<close> (both its
  arms), of \<open>run_tun_send_loop\<close> and of \<open>run_timer_loop\<close>, and \<open>dial_new_nodes\<close>. A turn reads the tunnel
  manager and the flow table, returns what it sends and writes, and the two states after it. Socket and
  TUN errors only produce log lines, so they are left out. The receive arm lets go of the manager
  before it takes the table; a heartbeat may come in between. \<open>receive_turn\<close> runs the two halves
  together, and the interleaved runs are covered by \<open>recovered_turn\<close>: the second half alone, for any
  node id and packet, in whatever state the table is by then.
\<close>

section \<open>The loops, one turn each\<close>

text \<open>What a turn does to the outside: a datagram to a peer, a packet to the TUN device.\<close>

datatype effect =
    SendUdp bytes socket_addr
  | WriteTun bytes

text \<open>boringtun's session as the loops use it.\<close>

record 't tunn_lib =
  tl_decapsulate :: "ipaddr option \<Rightarrow> bytes \<Rightarrow> 't \<Rightarrow> 't \<times> tunn_result"
  tl_encapsulate :: "bytes \<Rightarrow> 't \<Rightarrow> 't \<times> tunn_result"
  tl_update_timers :: "'t \<Rightarrow> 't \<times> tunn_result"
  tl_format_handshake :: "'t \<Rightarrow> 't \<times> tunn_result"
  tl_time_since_handshake :: "'t \<Rightarrow> nat option"
  tl_dst_address :: "bytes \<Rightarrow> ipaddr option"

text \<open>
  The tunnel of the manager after an operation on it; the code works on it in place. It is kept
  under its own node id (\<open>tm_inv\<close>).
\<close>

definition put_tunnel :: "'t node_tunnel \<Rightarrow> 't tunnel_manager \<Rightarrow> 't tunnel_manager" where
  "put_tunnel tunnel m = m\<lparr>tm_tunnels := hm_insert (nt_node_id tunnel) tunnel (tm_tunnels m)\<rparr>"

text \<open>A packet to be forwarded if the gate says so: the shared tail of both arms of the receive loop.\<close>

definition forward_to_tun ::
  "'t tunn_lib \<Rightarrow> ipaddr \<Rightarrow> dns_cache \<Rightarrow> instant \<Rightarrow> string \<Rightarrow> bytes \<Rightarrow> flow_table \<Rightarrow>
   (effect list \<times> flow_table) option" where
  "forward_to_tun lib vip cache now node_id packet table =
     (case prepare_decrypted_packet (tl_dst_address lib) packet node_id vip cache now table of
        None \<Rightarrow> None
      | Some (should_forward, packet, table) \<Rightarrow>
          Some (if should_forward then [WriteTun packet] else [], table))"

text \<open>The arm of \<open>run_wireguard_receive_loop\<close> for a datagram from \<open>src\<close>.\<close>

definition receive_turn ::
  "'t tunn_lib \<Rightarrow> ipaddr \<Rightarrow> dns_cache \<Rightarrow> instant \<Rightarrow> bytes \<Rightarrow> socket_addr \<Rightarrow>
   't tunnel_manager \<times> flow_table \<Rightarrow> (effect list \<times> 't tunnel_manager \<times> flow_table) option" where
  "receive_turn lib vip cache now datagram src s = (case s of (manager, table) \<Rightarrow>
     (case tunnel_for_addr manager src of
        None \<Rightarrow> Some ([], manager, table)
      | Some tunnel \<Rightarrow>
          (let node_id = nt_node_id tunnel;
               (event, tunnel) = receive_datagram (tl_decapsulate lib) datagram tunnel;
               manager = put_tunnel tunnel manager
           in case event of
                SendToNode packet \<Rightarrow> Some ([SendUdp packet src], manager, table)
              | DecryptedData packet \<Rightarrow>
                  (case forward_to_tun lib vip cache now node_id packet table of
                     None \<Rightarrow> None
                   | Some (effects, table) \<Rightarrow> Some (effects, manager, table))
              | ProtocolError _ \<Rightarrow> Some ([], manager, table)
              | Nothing \<Rightarrow> Some ([], manager, table))))"

text \<open>Its arm for a packet a late admission recovered.\<close>

definition recovered_turn ::
  "'t tunn_lib \<Rightarrow> ipaddr \<Rightarrow> dns_cache \<Rightarrow> instant \<Rightarrow> string \<Rightarrow> bytes \<Rightarrow>
   't tunnel_manager \<times> flow_table \<Rightarrow> (effect list \<times> 't tunnel_manager \<times> flow_table) option" where
  "recovered_turn lib vip cache now node_id packet s = (case s of (manager, table) \<Rightarrow>
     (case forward_to_tun lib vip cache now node_id packet table of
        None \<Rightarrow> None
      | Some (effects, table) \<Rightarrow> Some (effects, manager, table)))"

text \<open>A turn of \<open>run_tun_send_loop\<close>: a packet the system routed to the TUN device.\<close>

definition tun_turn ::
  "'t tunn_lib \<Rightarrow> bytes \<Rightarrow> 't tunnel_manager \<times> flow_table \<Rightarrow>
   (effect list \<times> 't tunnel_manager \<times> flow_table) option" where
  "tun_turn lib packet s = (case s of (manager, table) \<Rightarrow>
     (case parse_destination_port packet of
        None \<Rightarrow> Some ([], manager, table)
      | Some destination_port \<Rightarrow>
          (case prepare_reply_packet packet destination_port table of
             None \<Rightarrow> None
           | Some (None, packet) \<Rightarrow> Some ([], manager, table)
           | Some (Some node_id, packet) \<Rightarrow>
               (case tunnel_for manager node_id of
                  None \<Rightarrow> Some ([], manager, table)
                | Some tunnel \<Rightarrow>
                    (let (event, tunnel) = encapsulate (tl_encapsulate lib) packet tunnel
                     in Some (case event of SendToNode packet \<Rightarrow> [SendUdp packet (nt_addr tunnel)] | _ \<Rightarrow> [],
                              put_tunnel tunnel manager, table))))))"

text \<open>A tick of \<open>run_timer_loop\<close>.\<close>

definition timer_turn ::
  "'t tunn_lib \<Rightarrow> 't tunnel_manager \<times> flow_table \<Rightarrow>
   (effect list \<times> 't tunnel_manager \<times> flow_table) option" where
  "timer_turn lib s = (case s of (manager, table) \<Rightarrow>
     (let (packets, manager) = drive_all_timers (tl_update_timers lib) manager
      in Some (map (\<lambda>(packet, addr). SendUdp packet addr) packets, manager, table)))"

section \<open>Dialling the nodes of a heartbeat\<close>

fun dial_nodes ::
  "'t tunn_lib \<Rightarrow> heartbeat_node list \<Rightarrow> 't tunnel_manager \<Rightarrow> effect list \<times> 't tunnel_manager" where
  "dial_nodes lib [] manager = ([], manager)"
| "dial_nodes lib (node # nodes) manager =
     (case tunnel_for manager (hn_node_id node) of
        None \<Rightarrow> dial_nodes lib nodes manager
      | Some tunnel \<Rightarrow>
          if is_established (tl_time_since_handshake lib) tunnel then dial_nodes lib nodes manager
          else (let (event, tunnel) = initiate_handshake (tl_format_handshake lib) tunnel;
                    (effects, manager) = dial_nodes lib nodes (put_tunnel tunnel manager)
                in (case event of SendToNode packet \<Rightarrow> SendUdp packet (nt_addr tunnel) # effects
                               | _ \<Rightarrow> effects, manager)))"

definition dial_new_nodes ::
  "'t tunn_lib \<Rightarrow> (string \<Rightarrow> bytes option) \<Rightarrow> (u32 \<Rightarrow> bytes \<Rightarrow> 't) \<Rightarrow> heartbeat_node list \<Rightarrow>
   't tunnel_manager \<times> flow_table \<Rightarrow> effect list \<times> 't tunnel_manager \<times> flow_table" where
  "dial_new_nodes lib decode_base64 new_tunn nodes s = (case s of (manager, table) \<Rightarrow>
     (let (dropped, manager) = sync_nodes decode_base64 new_tunn nodes manager;
          (effects, manager) = dial_nodes lib nodes manager
      in (effects, manager, fold evict_node dropped table)))"

section \<open>The invariant of the two states\<close>

definition dp_inv :: "'t tunnel_manager \<times> flow_table \<Rightarrow> bool" where
  "dp_inv s \<longleftrightarrow> tm_inv (fst s) \<and> ft_inv (snd s)"

lemma put_tunnel_inv:
  "tm_inv m \<Longrightarrow> snd (nt_addr tunnel) = WIREGUARD_PORT \<Longrightarrow> tm_inv (put_tunnel tunnel m)"
  by (auto simp: tm_inv_def put_tunnel_def hm_oks hm_simps)

lemma tunnel_for_inv:
  "tm_inv m \<Longrightarrow> tunnel_for m n = Some tunnel \<Longrightarrow>
     nt_node_id tunnel = n \<and> snd (nt_addr tunnel) = WIREGUARD_PORT"
  by (simp add: tm_inv_def tunnel_for_def)

lemma tunnel_for_addr_Some:
  assumes "tm_inv m" "tunnel_for_addr m addr = Some tunnel"
  shows "tunnel_for m (nt_node_id tunnel) = Some tunnel \<and> nt_addr tunnel = addr"
proof -
  from assms(2) have a: "nt_addr tunnel = addr" and "tunnel \<in> snd ` set (tm_tunnels m)"
    by (auto simp: tunnel_for_addr_def find_Some_iff)
  then obtain k where "(k, tunnel) \<in> set (tm_tunnels m)" by auto
  then have "hm_get (tm_tunnels m) k = Some tunnel"
    using assms(1) by (simp add: tm_inv_def hm_ok_def hm_get_def)
  with assms(1) a show ?thesis by (auto simp: tm_inv_def tunnel_for_def)
qed

lemma tunnel_steps_addr [simp]:
  "nt_addr (snd (receive_datagram f d tunnel)) = nt_addr tunnel"
  "nt_addr (snd (encapsulate g d tunnel)) = nt_addr tunnel"
  "nt_addr (snd (initiate_handshake h tunnel)) = nt_addr tunnel"
  "nt_node_id (snd (receive_datagram f d tunnel)) = nt_node_id tunnel"
  "nt_node_id (snd (encapsulate g d tunnel)) = nt_node_id tunnel"
  "nt_node_id (snd (initiate_handshake h tunnel)) = nt_node_id tunnel"
  by (simp_all add: receive_datagram_def encapsulate_def initiate_handshake_def split_beta)

lemma forward_to_tun_total:
  "\<exists>effects t'. forward_to_tun lib vip cache now n packet t = Some (effects, t') \<and> (\<not> ft_inv t \<or> ft_inv t')"
  using prepare_decrypted_total [of "tl_dst_address lib" packet n vip cache now t]
  by (auto simp: forward_to_tun_def)

lemma receive_turn_total:
  assumes "dp_inv s"
  shows "\<exists>effects s'. receive_turn lib vip cache now datagram src s = Some (effects, s') \<and> dp_inv s'"
proof -
  obtain m t where s: "s = (m, t)" by force
  show ?thesis
  proof (cases "tunnel_for_addr m src")
    case None
    then show ?thesis using assms by (simp add: receive_turn_def s)
  next
    case (Some tunnel)
    obtain event tunnel' where r: "receive_datagram (tl_decapsulate lib) datagram tunnel = (event, tunnel')" by force
    have i: "tm_inv (put_tunnel tunnel' m)" "ft_inv t"
      using assms put_tunnel_inv [of m tunnel'] tunnel_for_addr_Some [of m src tunnel] Some
        tunnel_for_inv [of m "nt_node_id tunnel" tunnel] tunnel_steps_addr(1) [of "tl_decapsulate lib" datagram tunnel] r
      by (auto simp: dp_inv_def s)
    show ?thesis
    proof (cases "\<exists>packet. event = DecryptedData packet")
      case True
      then obtain packet where e: "event = DecryptedData packet" by blast
      obtain effects t' where "forward_to_tun lib vip cache now (nt_node_id tunnel) packet t = Some (effects, t')"
        "ft_inv t'"
        using forward_to_tun_total [of lib vip cache now "nt_node_id tunnel" packet t] i by blast
      then show ?thesis using i Some r e by (simp add: receive_turn_def s dp_inv_def)
    next
      case False
      then show ?thesis using i Some r by (cases event) (auto simp: receive_turn_def s dp_inv_def)
    qed
  qed
qed

lemma recovered_turn_total:
  assumes "dp_inv s"
  shows "\<exists>effects s'. recovered_turn lib vip cache now n packet s = Some (effects, s') \<and> dp_inv s'"
  using assms forward_to_tun_total [of lib vip cache now n packet "snd s"]
  by (cases s) (force simp: recovered_turn_def dp_inv_def)

lemma tun_turn_total:
  assumes "dp_inv s"
  shows "\<exists>effects s'. tun_turn lib packet s = Some (effects, s') \<and> dp_inv s'"
proof -
  obtain m t where s: "s = (m, t)" by force
  show ?thesis
  proof (cases "parse_destination_port packet")
    case None
    then show ?thesis using assms by (simp add: tun_turn_def s)
  next
    case (Some port)
    obtain to q where p: "prepare_reply_packet packet port t = Some (to, q)"
      using prepare_reply_total by blast
    show ?thesis
    proof (cases "Option.bind to (tunnel_for m)")
      case None
      then show ?thesis using assms Some p by (cases to) (simp_all add: tun_turn_def s)
    next
      case (Some tunnel)
      then obtain n where n: "to = Some n" "tunnel_for m n = Some tunnel" by (cases to) auto
      have "tm_inv (put_tunnel (snd (encapsulate (tl_encapsulate lib) q tunnel)) m)"
        using assms n(2) tunnel_for_inv [of m n tunnel] by (intro put_tunnel_inv) (simp_all add: dp_inv_def s)
      then show ?thesis
        using assms \<open>parse_destination_port packet = Some port\<close> p n
        by (simp add: tun_turn_def s split_beta dp_inv_def)
    qed
  qed
qed

lemma drive_tunnels_get:
  "hm_get (snd (drive_tunnels f ts)) n = map_option (\<lambda>t. snd (drive_timers f t)) (hm_get ts n)"
  by (induction ts) (auto simp: hm_get_def split_beta drive_timers_def)

lemma drive_all_timers_inv: "tm_inv m \<Longrightarrow> tm_inv (snd (drive_all_timers f m))"
proof -
  assume i: "tm_inv m"
  have "map fst (snd (drive_tunnels f (tm_tunnels m))) = map fst (tm_tunnels m)"
    using drive_tunnels_keys by blast
  with i show ?thesis
    by (auto simp: tm_inv_def drive_all_timers_def split_beta hm_ok_def drive_tunnels_get drive_timers_def)
qed

lemma timer_turn_total:
  "dp_inv s \<Longrightarrow> \<exists>effects s'. timer_turn lib s = Some (effects, s') \<and> dp_inv s'"
  using drive_all_timers_inv [of "fst s" "tl_update_timers lib"]
  by (cases s) (simp add: timer_turn_def split_beta dp_inv_def)

lemma dial_nodes_inv: "tm_inv m \<Longrightarrow> tm_inv (snd (dial_nodes lib nodes m))"
proof (induction lib nodes m rule: dial_nodes.induct)
  case (2 lib node nodes m)
  show ?case
  proof (cases "tunnel_for m (hn_node_id node)")
    case None
    then show ?thesis using 2 by simp
  next
    case (Some tunnel)
    have "tm_inv (put_tunnel (snd (initiate_handshake (tl_format_handshake lib) tunnel)) m)"
      using 2(4) tunnel_for_inv [OF _ Some] by (intro put_tunnel_inv) simp_all
    then show ?thesis
      using 2 Some by (cases "initiate_handshake (tl_format_handshake lib) tunnel") (auto simp: split_beta)
  qed
qed simp

lemma evict_nodes_inv: "ft_inv t \<Longrightarrow> ft_inv (fold evict_node ns t)"
  by (induction ns arbitrary: t) (simp_all add: evict_node_inv)

lemma evict_nodes_flows:
  "ft_inv t \<Longrightarrow> hm_get (ft_flows (fold evict_node ns t)) key =
     (if fk_node_id key \<in> set ns then None else hm_get (ft_flows t) key)"
  by (induction ns arbitrary: t) (simp_all add: evict_node_inv evict_node_flows)

lemma evict_nodes_ports:
  assumes "ft_inv t" "n \<in> set ns"
  shows "node_for_control_channel_port (fold evict_node ns t) p \<noteq> Some n"
    and "node_for_outbound_port (fold evict_node ns t) p \<noteq> Some n"
proof -
  have c: "node_for_control_channel_port (fold evict_node ks t) p =
      (case node_for_control_channel_port t p of None \<Rightarrow> None | Some owner \<Rightarrow> if owner \<in> set ks then None else Some owner)"
    if "ft_inv t" for ks t
    using that by (induction ks arbitrary: t) (auto simp: evict_node_inv evict_node_control split: option.split)
  have o: "node_for_outbound_port (fold evict_node ks t) p =
      (case node_for_outbound_port t p of None \<Rightarrow> None | Some owner \<Rightarrow> if owner \<in> set ks then None else Some owner)"
    if "ft_inv t" for ks t
    using that by (induction ks arbitrary: t) (auto simp: evict_node_inv evict_node_outbound split: option.split)
  show "node_for_control_channel_port (fold evict_node ns t) p \<noteq> Some n"
    and "node_for_outbound_port (fold evict_node ns t) p \<noteq> Some n"
    using assms by (auto simp: c o split: option.split)
qed

lemma dial_nodes_none: "tunnel_for m n = None \<Longrightarrow> tm_inv m \<Longrightarrow> tunnel_for (snd (dial_nodes lib nodes m)) n = None"
proof (induction lib nodes m rule: dial_nodes.induct)
  case (2 lib node nodes m)
  show ?case
  proof (cases "tunnel_for m (hn_node_id node)")
    case None
    then show ?thesis using 2 by simp
  next
    case (Some tunnel)
    let ?m = "put_tunnel (snd (initiate_handshake (tl_format_handshake lib) tunnel)) m"
    have "tm_inv ?m"
      using tunnel_for_inv [OF 2(5) Some] by (intro put_tunnel_inv 2(5)) simp
    moreover have "tunnel_for ?m n = None"
      using 2(4) tunnel_for_inv [OF 2(5) Some] Some by (auto simp: put_tunnel_def tunnel_for_def hm_simps)
    ultimately have "tm_inv ?m" "tunnel_for ?m n = None" by simp_all
    then show ?thesis
      using 2 Some by (cases "initiate_handshake (tl_format_handshake lib) tunnel") (auto simp: split_beta)
  qed
qed simp

lemma sync_nodes_gone:
  "tm_inv m \<Longrightarrow> n \<notin> listed nodes \<Longrightarrow>
     tunnel_for (snd (dial_nodes lib nodes (snd (sync_nodes dec new nodes m)))) n = None"
  by (rule dial_nodes_none) (simp_all add: sync_nodes_get sync_nodes_inv)

lemma dial_new_nodes_inv:
  "dp_inv s \<Longrightarrow> dp_inv (snd (dial_new_nodes lib dec new nodes s))"
  using sync_nodes_inv [of "fst s" dec new nodes]
  by (cases s) (simp add: dial_new_nodes_def split_beta dp_inv_def dial_nodes_inv evict_nodes_inv)

section \<open>Every interleaving of the loops\<close>

text \<open>
  The turns the loops and the heartbeat's dialling can take; the locks make each of them atomic. The
  virtual address, the clock and the DNS cache of a turn are those of its moment.
\<close>

datatype dp_event =
    DpReceive dns_cache instant bytes socket_addr
  | DpRecovered dns_cache instant string bytes
  | DpTun bytes
  | DpTimer
  | DpDial "heartbeat_node list"
  | DpTable ft_event

text \<open>What the session library and the base64 decoder give the data plane.\<close>

record 't dp_env =
  de_lib :: "'t tunn_lib"
  de_decode_base64 :: "string \<Rightarrow> bytes option"
  de_new_tunn :: "u32 \<Rightarrow> bytes \<Rightarrow> 't"
  de_vip :: ipaddr

fun dp_turn ::
  "'t dp_env \<Rightarrow> dp_event \<Rightarrow> 't tunnel_manager \<times> flow_table \<Rightarrow>
   (effect list \<times> 't tunnel_manager \<times> flow_table) option" where
  "dp_turn env (DpReceive cache now datagram src) s = receive_turn (de_lib env) (de_vip env) cache now datagram src s"
| "dp_turn env (DpRecovered cache now node_id packet) s = recovered_turn (de_lib env) (de_vip env) cache now node_id packet s"
| "dp_turn env (DpTun packet) s = tun_turn (de_lib env) packet s"
| "dp_turn env DpTimer s = timer_turn (de_lib env) s"
| "dp_turn env (DpDial nodes) s = Some (dial_new_nodes (de_lib env) (de_decode_base64 env) (de_new_tunn env) nodes s)"
| "dp_turn env (DpTable e) s = Some ([], fst s, ft_step e (snd s))"

text \<open>A run: everything it sent and wrote, and where it ends; \<open>None\<close> when a turn panics.\<close>

fun dp_run ::
  "'t dp_env \<Rightarrow> dp_event list \<Rightarrow> 't tunnel_manager \<times> flow_table \<Rightarrow>
   (effect list \<times> 't tunnel_manager \<times> flow_table) option" where
  "dp_run env [] s = Some ([], s)"
| "dp_run env (e # es) s = do {
     (effects, s) \<leftarrow> dp_turn env e s;
     (more, s) \<leftarrow> dp_run env es s;
     Some (effects @ more, s)
   }"

lemma dp_turn_total: "dp_inv s \<Longrightarrow> \<exists>effects s'. dp_turn env e s = Some (effects, s') \<and> dp_inv s'"
proof -
  assume i: "dp_inv s"
  show ?thesis
  proof (cases e)
    case (DpReceive cache now datagram src)
    then show ?thesis using receive_turn_total [OF i] by simp
  next
    case (DpRecovered cache now n packet)
    then show ?thesis using recovered_turn_total [OF i] by simp
  next
    case (DpTun packet)
    then show ?thesis using tun_turn_total [OF i] by simp
  next
    case DpTimer
    then show ?thesis using timer_turn_total [OF i] by simp
  next
    case (DpDial nodes)
    then show ?thesis
      using dial_new_nodes_inv [OF i, of "de_lib env" "de_decode_base64 env" "de_new_tunn env" nodes]
      by (metis dp_turn.simps(5) prod.collapse)
  next
    case (DpTable fe)
    then show ?thesis using i by (simp add: dp_inv_def ft_step_inv)
  qed
qed

lemma dp_run_total: "dp_inv s \<Longrightarrow> \<exists>effects s'. dp_run env es s = Some (effects, s') \<and> dp_inv s'"
proof (induction es arbitrary: s)
  case (Cons e es)
  obtain effects s' where t: "dp_turn env e s = Some (effects, s')" "dp_inv s'"
    using dp_turn_total [OF Cons.prems] by blast
  obtain more s'' where "dp_run env es s' = Some (more, s'')" "dp_inv s''"
    using Cons.IH [OF t(2)] by blast
  with t show ?case by simp
qed simp

theorem data_plane_never_panics:
  "\<exists>effects s. dp_run env es (tunnel_manager_new, flow_table_new) = Some (effects, s) \<and>
     tm_inv (fst s) \<and> ft_inv (snd s)"
  using dp_run_total [of "(tunnel_manager_new, flow_table_new)" env es] tm_inv_new ft_inv_new
  by (auto simp: dp_inv_def)

section \<open>What leaves, and where to\<close>

theorem datagram_effects:
  assumes "receive_turn lib vip cache now datagram src (m, t) = Some (effects, m', t')"
    and "eff \<in> set effects"
  shows "\<exists>tunnel. tunnel_for_addr m src = Some tunnel \<and>
    (case eff of
       SendUdp packet addr \<Rightarrow> addr = src \<and>
         fst (receive_datagram (tl_decapsulate lib) datagram tunnel) = SendToNode packet
     | WriteTun q \<Rightarrow> \<exists>packet.
         fst (receive_datagram (tl_decapsulate lib) datagram tunnel) = DecryptedData packet \<and>
         prepare_decrypted_packet (tl_dst_address lib) packet (nt_node_id tunnel) vip cache now t =
           Some (True, q, t'))"
  using assms
  by (auto simp: receive_turn_def forward_to_tun_def split_beta Let_def
      split: option.splits tunnel_event.splits if_splits)

text \<open>
  C9: end to end, for a flow admitted with a dialled identity: when a datagram of a node
  decrypts to a packet of the flow and is written to the TUN device, and the internal host's
  answer is handled in the state this leaves, with no step between, the answer is sent,
  encrypted, back to exactly that node's address, with the dialled gateway address and port as
  its source, the device's own port as its destination, and nothing else but the checksums
  over them changed
\<close>

theorem reply_returns_to_its_peer:
  assumes "dp_inv (m, t)" "tunnel_for_addr m src = Some tunnel"
    and "receive_datagram (tl_decapsulate lib) datagram tunnel = (DecryptedData packet, tunnel')"
    and "tl_dst_address lib packet \<noteq> Some vip"
    and "parse_source_port packet = Some sp" "parse_destination_port packet = Some dp"
    and "packet_dialled packet dp = Some d"
    and "hm_contains (ft_flows t) (flow_key_new (nt_node_id tunnel) sp (Some d))"
    and "receive_turn lib vip cache now datagram src (m, t) = Some ([WriteTun q], m', t')"
    and "answers r q" "parse_destination_port r = Some port"
  shows "\<exists>r'. reads_as r' r (Some (dl_gateway_address d)) (parse_destination_ipv4 r) (Some dp) (Some sp) \<and>
    map_option fst (tun_turn lib r (m', t')) = Some
      (case fst (encapsulate (tl_encapsulate lib) r' tunnel') of
         SendToNode sealed \<Rightarrow> [SendUdp sealed src] | _ \<Rightarrow> [])"
proof -
  have i: "tm_inv m" "ft_inv t" using assms(1) by (simp_all add: dp_inv_def)
  note tn = tunnel_for_addr_Some [OF i(1) assms(2)]
  have p: "prepare_decrypted_packet (tl_dst_address lib) packet (nt_node_id tunnel) vip cache now t = Some (True, q, t')"
    and m': "m' = put_tunnel tunnel' m"
    using assms(2,3,9) by (auto simp: receive_turn_def forward_to_tun_def split: option.splits if_splits)
  obtain r' where r': "prepare_reply_packet r port t' = Some (Some (nt_node_id tunnel), r')"
    "reads_as r' r (parse_destination_ipv4 packet) (parse_destination_ipv4 r) (Some dp) (Some sp)"
    using packet_and_reply [OF i(2) assms(4) p assms(5,6) _ assms(7,10,11)] assms(7,8) by auto
  have "parse_destination_ipv4 packet = Some (dl_gateway_address d)"
    using assms(7) by (auto simp: packet_dialled_def split: option.splits)
  moreover have t': "nt_addr tunnel' = src" "nt_node_id tunnel' = nt_node_id tunnel"
    using tn assms(3) tunnel_steps_addr(1,4) [of "tl_decapsulate lib" datagram tunnel] by simp_all
  moreover have "tunnel_for m' (nt_node_id tunnel) = Some tunnel'"
    by (simp add: m' put_tunnel_def tunnel_for_def hm_simps t')
  moreover have "nt_addr (snd (encapsulate (tl_encapsulate lib) r' tunnel')) = src" by (simp add: t')
  ultimately show ?thesis
    using r' assms(11) by (intro exI [of _ r']) (simp add: tun_turn_def split_beta split: tunnel_event.split)
qed


section \<open>Examples\<close>

text \<open>A session library that seals nothing, one node at 198.51.100.7, its device's flow admitted.\<close>

definition ex_lib :: "nat tunn_lib" where
  "ex_lib = \<lparr>tl_decapsulate = (\<lambda>_ datagram t. (t, WriteToTunnelV4 datagram (Ipv4 10 0 0 1))),
     tl_encapsulate = (\<lambda>packet t. (t, WriteToNetwork packet)), tl_update_timers = (\<lambda>t. (t, Done)),
     tl_format_handshake = (\<lambda>t. (t, WriteToNetwork [1])), tl_time_since_handshake = (\<lambda>_. None),
     tl_dst_address = ex_dst\<rparr>"

definition ex_src :: socket_addr where
  "ex_src = (V4 (Ipv4 198 51 100 7), WIREGUARD_PORT)"

definition ex_tunnel :: "nat node_tunnel" where
  "ex_tunnel = \<lparr>nt_tunn = 0, nt_node_id = ''n-1'', nt_addr = ex_src, nt_key_base64 = ''key''\<rparr>"

definition ex_manager :: "nat tunnel_manager" where
  "ex_manager = put_tunnel ex_tunnel tunnel_manager_new"

definition ex_vip :: ipaddr where
  "ex_vip = V4 (Ipv4 100 127 0 1)"

lemma ex_dp_inv: "dp_inv (ex_manager, run ex_events)"
  by (simp add: dp_inv_def run_inv ex_manager_def put_tunnel_inv tm_inv_new ex_tunnel_def ex_src_def)

lemma ex_tunnel_addr: "tunnel_for_addr ex_manager ex_src = Some ex_tunnel"
  by (simp add: tunnel_for_addr_def ex_manager_def put_tunnel_def tunnel_manager_new_def hm_insert_def ex_tunnel_def)

lemma ex_receives: "receive_datagram (tl_decapsulate ex_lib) ex_packet ex_tunnel = (DecryptedData ex_packet, ex_tunnel)"
  by (simp add: receive_datagram_def ex_lib_def tunnel_event_of_def ex_tunnel_def)

lemma ex_receive_turn:
  "\<exists>q s'. receive_turn ex_lib ex_vip dns_new 0 ex_packet ex_src (ex_manager, run ex_events) = Some ([WriteTun q], s') \<and>
     reads_as q ex_packet (Some (Ipv4 10 0 0 1)) (Some (Ipv4 10 0 0 5)) (Some 1024) (Some 8443)"
proof -
  obtain q t' where "prepare_decrypted_packet ex_dst ex_packet ''n-1'' (V4 (Ipv4 100 127 0 1)) dns_new 0 (run ex_events) =
     Some (True, q, t')" "reads_as q ex_packet (Some (Ipv4 10 0 0 1)) (Some (Ipv4 10 0 0 5)) (Some 1024) (Some 8443)"
    using ex_prepared by blast
  then show ?thesis
    by (simp add: receive_turn_def ex_tunnel_addr ex_receives forward_to_tun_def ex_vip_def)
      (simp add: ex_lib_def ex_tunnel_def)
qed

lemma datagram_effects_witness:
  "\<exists>q t'. prepare_decrypted_packet ex_dst ex_packet ''n-1'' ex_vip dns_new 0 (run ex_events) = Some (True, q, t')"
proof -
  obtain q m' t' where "receive_turn ex_lib ex_vip dns_new 0 ex_packet ex_src (ex_manager, run ex_events) =
      Some ([WriteTun q], m', t')"
    using ex_receive_turn by force
  from datagram_effects [OF this, of "WriteTun q"] show ?thesis
    by (auto simp: ex_tunnel_addr ex_receives) (auto simp: ex_lib_def ex_tunnel_def)
qed

lemma reply_returns_to_its_peer_witness:
  "\<exists>q s' r'. receive_turn ex_lib ex_vip dns_new 0 ex_packet ex_src (ex_manager, run ex_events) =
      Some ([WriteTun q], s') \<and> map_option fst (tun_turn ex_lib ex_reply s') = Some [SendUdp r' ex_src] \<and>
    parse_source_ipv4 r' = Some (Ipv4 100 64 0 9) \<and> parse_destination_port r' = Some 40100"
proof -
  obtain q m' t' where q: "receive_turn ex_lib ex_vip dns_new 0 ex_packet ex_src (ex_manager, run ex_events) =
      Some ([WriteTun q], m', t')"
    "reads_as q ex_packet (Some (Ipv4 10 0 0 1)) (Some (Ipv4 10 0 0 5)) (Some 1024) (Some 8443)"
    using ex_receive_turn by force
  have a: "answers ex_reply q"
    using q(2) ex_reply_fields ex_packet_fields by (simp add: answers_def reads_as_def)
  have c: "hm_contains (ft_flows (run ex_events)) (flow_key_new (nt_node_id ex_tunnel) 40100 (Some ex_dialled))"
    by (simp add: hm_contains_def ex_flow ex_tunnel_def)
  have v: "tl_dst_address ex_lib ex_packet \<noteq> Some ex_vip"
    using ex_packet_fields(4) by (simp add: ex_lib_def ex_vip_def)
  have e: "encapsulate (tl_encapsulate ex_lib) r ex_tunnel = (SendToNode r, ex_tunnel)" for r
    by (simp add: encapsulate_def ex_lib_def tunnel_event_of_def ex_tunnel_def)
  obtain r' where "reads_as r' ex_reply (Some (dl_gateway_address ex_dialled)) (parse_destination_ipv4 ex_reply)
      (Some 443) (Some 40100)" "map_option fst (tun_turn ex_lib ex_reply (m', t')) = Some [SendUdp r' ex_src]"
    using reply_returns_to_its_peer [OF ex_dp_inv ex_tunnel_addr ex_receives v ex_packet_fields(1,2,3) c q(1) a
        ex_reply_fields(2)] by (auto simp: e)
  with q(1) show ?thesis
    by (intro exI [of _ q] exI [of _ "(m', t')"] exI [of _ r']) (simp add: reads_as_def ex_dialled_def)
qed


end
