(* ===== verification/Access_Control.thy ===== *)
theory Access_Control
  imports Flow_Table
begin

text \<open>
  Who may reach what: signature verification (\<open>crypto.rs\<close>), the audit log (\<open>audit.rs\<close>), the policy
  store (\<open>policy.rs\<close>) and the access decision (\<open>access.rs\<close>). Third-party code (the cryptographic
  crates, chrono's parser, the disk) is a parameter.
\<close>

section \<open>Signature verification: \<open>crypto.rs\<close>\<close>

text \<open>
  The functions of the \<open>hex\<close>, \<open>base64\<close>, \<open>ed25519-dalek\<close> and \<open>ring\<close> crates the code calls. A key
  that \<open>VerifyingKey::from_bytes\<close> rejects has \<open>cl_ed25519_key\<close> false.
\<close>

record crypto_lib =
  cl_hex_decode :: "string \<Rightarrow> bytes option"
  cl_base64_decode :: "string \<Rightarrow> bytes option"
  cl_ed25519_key :: "bytes \<Rightarrow> bool"
  cl_ed25519_verify :: "bytes \<Rightarrow> bytes \<Rightarrow> bytes \<Rightarrow> bool"
  cl_ecdsa_p256_verify :: "bytes \<Rightarrow> bytes \<Rightarrow> bytes \<Rightarrow> bool"

definition verify_ed25519 :: "crypto_lib \<Rightarrow> bytes \<Rightarrow> bytes \<Rightarrow> bytes \<Rightarrow> bool" where
  "verify_ed25519 lib public_key_bytes message signature_bytes =
     (if length public_key_bytes \<noteq> 32 then False
      else if \<not> cl_ed25519_key lib public_key_bytes then False
      else if length signature_bytes \<noteq> 64 then False
      else cl_ed25519_verify lib public_key_bytes message signature_bytes)"

definition verify_ecdsa_p256 :: "crypto_lib \<Rightarrow> bytes \<Rightarrow> bytes \<Rightarrow> bytes \<Rightarrow> bool" where
  "verify_ecdsa_p256 lib public_key_bytes message signature_bytes =
     cl_ecdsa_p256_verify lib public_key_bytes message signature_bytes"

definition verify_base64 :: "crypto_lib \<Rightarrow> string \<Rightarrow> bytes \<Rightarrow> string \<Rightarrow> bool" where
  "verify_base64 lib public_key_hex message signature_base64 =
     (case cl_hex_decode lib public_key_hex of
        None \<Rightarrow> False
      | Some public_key_bytes \<Rightarrow>
          (case cl_base64_decode lib signature_base64 of
             None \<Rightarrow> False
           | Some signature_bytes \<Rightarrow>
               if length public_key_bytes = 32
               then verify_ed25519 lib public_key_bytes message signature_bytes
               else if length public_key_bytes = 65
               then verify_ecdsa_p256 lib public_key_bytes message signature_bytes
               else False))"

section \<open>The audit log: \<open>audit.rs\<close>\<close>

record ended_flow =
  ef_flow_id :: string
  ef_device_public_key :: string

text \<open>The variants of \<open>AuditEvent\<close>, their fields in the order of the source.\<close>

datatype audit_event =
    PolicyApplied string nat nat
  | PolicyRejected string
  | PolicyBundleApplied string string string "port_rule list"
  | EntitlementListReceived string nat string
  | AccessAllowed string string string
  | AccessRefused string string string
  | FlowReleased string string
  | FlowAdmitted string string string "string option" "string option"
  | FlowsEndedByRuleChange string nat "ended_flow list"
  | FlowsEnded string string string nat string

text \<open>
  The log is its entries and how many writes were tried. The disk is the environment's:
  \<open>disk n\<close> is the error of the \<open>n\<close>-th write (creating the directory, opening or appending),
  \<open>None\<close> when it succeeds. The entry's timestamp and its JSON form are left out.
\<close>

record audit_log =
  au_entries :: "audit_event list"
  au_attempts :: nat

type_synonym disk = "nat \<Rightarrow> string option"

definition audit_log_new :: audit_log where
  "audit_log_new = \<lparr>au_entries = [], au_attempts = 0\<rparr>"

definition record_event :: "disk \<Rightarrow> audit_event \<Rightarrow> audit_log \<Rightarrow> (string + unit) \<times> audit_log" where
  "record_event disk event log =
     (let log' = log\<lparr>au_attempts := Suc (au_attempts log)\<rparr>
      in case disk (au_attempts log) of
           Some error \<Rightarrow> (Inl error, log')
         | None \<Rightarrow> (Inr (), log'\<lparr>au_entries := au_entries log @ [event]\<rparr>))"

text \<open>A best-effort entry: \<open>if let Err(error) = audit_log.record(..) { tracing::error!(..) }\<close>.\<close>

definition try_record :: "disk \<Rightarrow> audit_event \<Rightarrow> audit_log \<Rightarrow> audit_log" where
  "try_record disk event log = snd (record_event disk event log)"

locale append_only =
  fixes add :: "'e \<Rightarrow> 'l \<Rightarrow> 'l"
    and entries :: "'l \<Rightarrow> 'e list"
  assumes write_appends: "entries (add e l) = entries l \<or> entries (add e l) = entries l @ [e]"
begin

lemma write_extends: "\<exists>new. entries (add e l) = entries l @ new \<and> set new \<subseteq> {e}"
  using write_appends [of e l] by (metis append_Nil2 empty_set empty_subsetI list.simps(15) subset_refl)

lemma writes_extend: "\<exists>new. entries (fold add es l) = entries l @ new \<and> set new \<subseteq> set es"
proof (induction es arbitrary: l)
  case Nil
  then show ?case by simp
next
  case (Cons e es)
  obtain a where a: "entries (add e l) = entries l @ a" "set a \<subseteq> {e}" using write_extends by blast
  obtain b where "entries (fold add es (add e l)) = entries (add e l) @ b" "set b \<subseteq> set es"
    using Cons.IH by blast
  with a show ?case by (intro exI [of _ "a @ b"]) auto
qed

end

interpretation audit: append_only "try_record disk" au_entries for disk
  by unfold_locales (auto simp: try_record_def record_event_def Let_def split: option.split)

section \<open>The policy store: \<open>policy.rs\<close>\<close>

text \<open>\<open>DateTime<Utc>\<close>: nanoseconds since the epoch. \<open>parse_from_rfc3339\<close> (chrono) is a parameter.\<close>

type_synonym utc = int

record policy_state =
  ps_connector_id :: string
  ps_generated_at :: string
  ps_expires_at :: string
  ps_policy_bundles :: "policy_bundle list"
  ps_node_list :: "heartbeat_node list"

type_synonym policy_store = "policy_state option"

definition policy_store_new :: policy_store where
  "policy_store_new = None"

datatype apply_error = UnparseableExpiry string | PackageExpired string utc

definition apply_at ::
  "(string \<Rightarrow> utc option) \<Rightarrow> heartbeat_response \<Rightarrow> utc \<Rightarrow> policy_store \<Rightarrow>
   (apply_error + unit) \<times> policy_store" where
  "apply_at parse_from_rfc3339 response now store =
     (case parse_from_rfc3339 (hr_expires_at response) of
        None \<Rightarrow> (Inl (UnparseableExpiry (hr_expires_at response)), store)
      | Some expires_at \<Rightarrow>
          if now \<ge> expires_at then (Inl (PackageExpired (hr_expires_at response) now), store)
          else (Inr (), Some \<lparr>ps_connector_id = hr_connector_id response,
                  ps_generated_at = hr_generated_at response,
                  ps_expires_at = hr_expires_at response,
                  ps_policy_bundles = hr_policy_bundles response,
                  ps_node_list = hr_node_list response\<rparr>))"

definition current_policy :: "policy_store \<Rightarrow> policy_state option" where
  "current_policy store = store"

section \<open>Access decisions: \<open>access.rs\<close>\<close>

datatype refusal_reason = NoPolicyApplied | PolicyExpired | UnknownGateway | NotEntitled

text \<open>\<open>Allowed user_id rules\<close>.\<close>

datatype access_decision = Allowed string "port_rule list" | AccessRefusedFor refusal_reason

definition as_audit_str :: "refusal_reason \<Rightarrow> string" where
  "as_audit_str reason = (case reason of
     NoPolicyApplied \<Rightarrow> ''no_policy_applied''
   | PolicyExpired \<Rightarrow> ''policy_expired''
   | UnknownGateway \<Rightarrow> ''unknown_gateway''
   | NotEntitled \<Rightarrow> ''not_entitled'')"

definition as_wire_str :: "refusal_reason \<Rightarrow> string" where
  "as_wire_str reason = (case reason of
     NoPolicyApplied \<Rightarrow> ''not_entitled''
   | NotEntitled \<Rightarrow> ''not_entitled''
   | PolicyExpired \<Rightarrow> ''expired_entitlement''
   | UnknownGateway \<Rightarrow> ''unknown_gateway'')"

text \<open>\<open>None\<close> is the panic of the \<open>expect\<close> on the stored expiry.\<close>

definition decide_access_at ::
  "(string \<Rightarrow> utc option) \<Rightarrow> policy_store \<Rightarrow> string \<Rightarrow> string \<Rightarrow> utc \<Rightarrow> access_decision option" where
  "decide_access_at parse_from_rfc3339 store gateway_id device_public_key now =
     (case current_policy store of
        None \<Rightarrow> Some (AccessRefusedFor NoPolicyApplied)
      | Some state \<Rightarrow>
          (case parse_from_rfc3339 (ps_expires_at state) of
             None \<Rightarrow> None
           | Some expires_at \<Rightarrow>
               if now \<ge> expires_at then Some (AccessRefusedFor PolicyExpired)
               else
                 (case find (\<lambda>bundle. pb_gateway_id bundle = gateway_id) (ps_policy_bundles state) of
                    None \<Rightarrow> Some (AccessRefusedFor UnknownGateway)
                  | Some bundle \<Rightarrow>
                      (case find (\<lambda>entitlement. en_device_public_key entitlement = Some device_public_key)
                              (pb_entitlement_list bundle) of
                         Some entitlement \<Rightarrow> Some (Allowed (en_user_id entitlement) (bundle_rules bundle))
                       | None \<Rightarrow> Some (AccessRefusedFor NotEntitled)))))"

definition decide_access_and_audit ::
  "(string \<Rightarrow> utc option) \<Rightarrow> disk \<Rightarrow> policy_store \<Rightarrow> string \<Rightarrow> string \<Rightarrow> utc \<Rightarrow> audit_log \<Rightarrow>
   (access_decision \<times> audit_log) option" where
  "decide_access_and_audit parse_from_rfc3339 disk store gateway_id device_public_key now log =
     (case decide_access_at parse_from_rfc3339 store gateway_id device_public_key now of
        None \<Rightarrow> None
      | Some decision \<Rightarrow>
          (let event = (case decision of
                 Allowed user_id _ \<Rightarrow> AccessAllowed gateway_id user_id device_public_key
               | AccessRefusedFor reason \<Rightarrow>
                   AccessRefused gateway_id device_public_key (as_audit_str reason))
           in Some (decision, try_record disk event log)))"

section \<open>Lemmas\<close>

text \<open>Every stored state carries an expiry that parses, so the \<open>expect\<close> cannot fail.\<close>

definition store_ok :: "(string \<Rightarrow> utc option) \<Rightarrow> policy_store \<Rightarrow> bool" where
  "store_ok parse store \<longleftrightarrow> (case store of None \<Rightarrow> True | Some s \<Rightarrow> parse (ps_expires_at s) \<noteq> None)"

lemma store_ok_new: "store_ok parse policy_store_new"
  by (simp add: store_ok_def policy_store_new_def)

lemma apply_at_store_ok: "store_ok parse store \<Longrightarrow> store_ok parse (snd (apply_at parse r now store))"
  by (auto simp: apply_at_def store_ok_def split: option.split)

interpretation policy_run: invariant_machine "\<lambda>(r, now) s. snd (apply_at parse r now s)" "store_ok parse" for parse
  by unfold_locales (auto simp: apply_at_store_ok split: prod.split)

lemma decide_access_total:
  "store_ok parse store \<Longrightarrow> decide_access_at parse store g k now \<noteq> None"
  by (auto simp: decide_access_at_def store_ok_def current_policy_def split: option.split)

lemma decide_access_Allowed:
  "decide_access_at parse store g k now = Some (Allowed u rules) \<longleftrightarrow>
     (\<exists>state expires bundle e. store = Some state \<and> parse (ps_expires_at state) = Some expires \<and>
        now < expires \<and> find (\<lambda>b. pb_gateway_id b = g) (ps_policy_bundles state) = Some bundle \<and>
        find (\<lambda>e. en_device_public_key e = Some k) (pb_entitlement_list bundle) = Some e \<and>
        u = en_user_id e \<and> rules = bundle_rules bundle)"
  by (auto simp: decide_access_at_def current_policy_def not_le split: option.splits)

lemma find_Some_mem: "find p xs = Some x \<Longrightarrow> x \<in> set xs \<and> p x"
  by (auto simp: find_Some_iff)

lemma decide_access_reason:
  "decide_access_at parse store g k now = Some (AccessRefusedFor r) \<Longrightarrow>
     (r = NoPolicyApplied \<longleftrightarrow> store = None)"
  by (auto simp: decide_access_at_def current_policy_def split: option.splits if_splits)

section \<open>Properties\<close>

text \<open>The policy store after a sequence of heartbeat packages, each with the time it arrived.\<close>

definition applied ::
  "(string \<Rightarrow> utc option) \<Rightarrow> (heartbeat_response \<times> utc) list \<Rightarrow> policy_store" where
  "applied parse rs = fold (\<lambda>(r, now) s. snd (apply_at parse r now s)) rs policy_store_new"

lemma applied_ok: "store_ok parse (applied parse rs)"
  unfolding applied_def by (rule policy_run.inv_run) (rule store_ok_new)

theorem access_decision_never_panics: "decide_access_at parse (applied parse rs) g k now \<noteq> None"
  by (rule decide_access_total) (rule applied_ok)

theorem access_allowed_iff_entitled:
  "(\<exists>u rules. decide_access_at parse (applied parse rs) g k now = Some (Allowed u rules)) \<longleftrightarrow>
   (\<exists>state expires. applied parse rs = Some state \<and> parse (ps_expires_at state) = Some expires \<and>
      now < expires \<and>
      (\<exists>bundle. find (\<lambda>b. pb_gateway_id b = g) (ps_policy_bundles state) = Some bundle \<and>
        (\<exists>e \<in> set (pb_entitlement_list bundle). en_device_public_key e = Some k)))"
proof -
  have f: "(\<exists>e. find (\<lambda>e. en_device_public_key e = Some k) es = Some e) \<longleftrightarrow>
      (\<exists>e \<in> set es. en_device_public_key e = Some k)" for es :: "entitlement list"
    by (induction es) auto
  show ?thesis unfolding decide_access_Allowed f [symmetric] by blast
qed

theorem policy_apply_rejects_stale:
  "(fst (apply_at parse r now store) = Inr () \<longleftrightarrow>
      (\<exists>expires. parse (hr_expires_at r) = Some expires \<and> now < expires)) \<and>
   (if fst (apply_at parse r now store) = Inr ()
    then map_option ps_policy_bundles (snd (apply_at parse r now store)) = Some (hr_policy_bundles r) \<and>
      map_option ps_expires_at (snd (apply_at parse r now store)) = Some (hr_expires_at r)
    else snd (apply_at parse r now store) = store)"
  by (auto simp: apply_at_def not_le split: option.split)

end
