(* ===== verification/Gateway_End.thy ===== *)
theory Gateway_End
  imports Packet
begin

text \<open>
  The queue of gateway-end reports (\<open>src/src/gateway_end.rs\<close>): pending, enqueue, acknowledge and the
  queue file. The list of reports is its contract; the file follows it as long as the disk works, and
  carries it from one process to the next.
\<close>

section \<open>Reports\<close>

type_synonym i64 = "64 word"

definition SERVING_WINDOW_MS :: i64 where
  "SERVING_WINDOW_MS = 24 * 60 * 60 * 1000"

definition MAX_REPORTS_PER_HEARTBEAT :: nat where
  "MAX_REPORTS_PER_HEARTBEAT = 200"

record gateway_end_report =
  gr_report_id :: string
  gr_gateway_id :: string
  gr_user_id :: string
  gr_device_public_key :: string
  gr_ended_at :: i64
  gr_flows_ended :: nat

text \<open>
  \<open>random\<close> are the 16 bytes the generator fills, \<open>hex_encode\<close> the hex crate; a string slice out
  of range is \<open>None\<close>, the panic.
\<close>

definition slice_str :: "string \<Rightarrow> nat \<Rightarrow> nat \<Rightarrow> string option" where
  "slice_str s a b = (if a \<le> b \<and> b \<le> length s then Some (take (b - a) (drop a s)) else None)"

definition new_report_id :: "(bytes \<Rightarrow> string) \<Rightarrow> bytes \<Rightarrow> string option" where
  "new_report_id hex_encode random =
     (let bytes = random[6 := (random ! 6 AND 0x0F) OR 0x40, 8 := (random ! 8 AND 0x3F) OR 0x80];
          hex = hex_encode bytes
      in do {
           a \<leftarrow> slice_str hex 0 8;
           b \<leftarrow> slice_str hex 8 12;
           c \<leftarrow> slice_str hex 12 16;
           d \<leftarrow> slice_str hex 16 20;
           e \<leftarrow> slice_str hex 20 32;
           Some (a @ ''-'' @ b @ ''-'' @ c @ ''-'' @ d @ ''-'' @ e)
         })"

section \<open>The queue\<close>

text \<open>
  The reports in memory, the reports in the queue file (\<open>None\<close>: no file), and how many writes
  were tried. The disk is the environment's: \<open>disk n\<close> is the error of the \<open>n\<close>-th write. The file
  is replaced by a rename, so a failed write leaves the old one.
\<close>

record gateway_end_queue =
  gq_reports :: "gateway_end_report list"
  gq_file :: "gateway_end_report list option"
  gq_attempts :: nat

text \<open>\<open>tokio::fs::read\<close> of the queue file, and serde's reading of its bytes.\<close>

datatype file_read = FileBytes bytes | FileMissing | FileUnreadable string

definition load_reports ::
  "(bytes \<Rightarrow> gateway_end_report list option) \<Rightarrow> file_read \<Rightarrow> gateway_end_report list" where
  "load_reports from_slice file = (case file of
     FileBytes bytes \<Rightarrow> (case from_slice bytes of Some reports \<Rightarrow> reports | None \<Rightarrow> [])
   | FileMissing \<Rightarrow> []
   | FileUnreadable _ \<Rightarrow> [])"

text \<open>The queue \<open>GatewayEndQueue::load\<close> starts from; a file that holds no readable reports counts as none.\<close>

definition load_queue ::
  "(bytes \<Rightarrow> gateway_end_report list option) \<Rightarrow> file_read \<Rightarrow> gateway_end_queue" where
  "load_queue from_slice file = \<lparr>gq_reports = load_reports from_slice file,
     gq_file = (case file of FileBytes bytes \<Rightarrow> from_slice bytes | _ \<Rightarrow> None), gq_attempts = 0\<rparr>"

definition persist ::
  "(nat \<Rightarrow> string option) \<Rightarrow> gateway_end_queue \<Rightarrow> (string + unit) \<times> gateway_end_queue" where
  "persist disk q =
     (let q' = q\<lparr>gq_attempts := Suc (gq_attempts q)\<rparr>
      in case disk (gq_attempts q) of
           Some error \<Rightarrow> (Inl error, q')
         | None \<Rightarrow> (Inr (), q'\<lparr>gq_file := Some (gq_reports q)\<rparr>))"

definition in_window :: "i64 \<Rightarrow> gateway_end_report \<Rightarrow> bool" where
  "in_window now_ms report \<longleftrightarrow> sint (now_ms - gr_ended_at report) < sint SERVING_WINDOW_MS"

definition pending_reports ::
  "(nat \<Rightarrow> string option) \<Rightarrow> i64 \<Rightarrow> gateway_end_queue \<Rightarrow>
   gateway_end_report list \<times> gateway_end_queue" where
  "pending_reports disk now_ms q =
     (let before = length (gq_reports q);
          q = q\<lparr>gq_reports := filter (in_window now_ms) (gq_reports q)\<rparr>;
          dropped = before - length (gq_reports q);
          q = (if dropped > 0 then snd (persist disk q) else q)
      in (take MAX_REPORTS_PER_HEARTBEAT (gq_reports q), q))"

definition enqueue ::
  "(nat \<Rightarrow> string option) \<Rightarrow> gateway_end_report list \<Rightarrow> gateway_end_queue \<Rightarrow>
   (string + unit) \<times> gateway_end_queue" where
  "enqueue disk new_reports q =
     (if new_reports = [] then (Inr (), q)
      else persist disk (q\<lparr>gq_reports := gq_reports q @ new_reports\<rparr>))"

definition acknowledge ::
  "(nat \<Rightarrow> string option) \<Rightarrow> string list \<Rightarrow> gateway_end_queue \<Rightarrow>
   (string + unit) \<times> gateway_end_queue" where
  "acknowledge disk delivered_ids q =
     (if delivered_ids = [] then (Inr (), q)
      else persist disk (q\<lparr>gq_reports :=
             filter (\<lambda>report. gr_report_id report \<notin> set delivered_ids) (gq_reports q)\<rparr>))"

section \<open>The operations in closed form\<close>

lemma persist_reports [simp]: "gq_reports (snd (persist disk q)) = gq_reports q"
  by (simp add: persist_def Let_def split: option.split)

lemma pending_reports_eq:
  "fst (pending_reports disk now q) = take MAX_REPORTS_PER_HEARTBEAT (filter (in_window now) (gq_reports q))"
  "gq_reports (snd (pending_reports disk now q)) = filter (in_window now) (gq_reports q)"
  by (simp_all add: pending_reports_def Let_def)

lemma enqueue_reports: "gq_reports (snd (enqueue disk new q)) = gq_reports q @ new"
  by (simp add: enqueue_def)

lemma acknowledge_reports:
  "gq_reports (snd (acknowledge disk ids q)) = filter (\<lambda>r. gr_report_id r \<notin> set ids) (gq_reports q)"
  by (simp add: acknowledge_def)

section \<open>The queue as a machine\<close>

datatype queue_event = QPending i64 | QEnqueue "gateway_end_report list" | QAcknowledge "string list"

fun queue_step :: "(nat \<Rightarrow> string option) \<Rightarrow> queue_event \<Rightarrow> gateway_end_queue \<Rightarrow> gateway_end_queue" where
  "queue_step disk (QPending now) q = snd (pending_reports disk now q)"
| "queue_step disk (QEnqueue new) q = snd (enqueue disk new q)"
| "queue_step disk (QAcknowledge ids) q = snd (acknowledge disk ids q)"

text \<open>Its contract, the file and the disk left out: a list, with the same events.\<close>

fun reports_step :: "queue_event \<Rightarrow> gateway_end_report list \<Rightarrow> gateway_end_report list" where
  "reports_step (QPending now) rs = filter (in_window now) rs"
| "reports_step (QEnqueue new) rs = rs @ new"
| "reports_step (QAcknowledge ids) rs = filter (\<lambda>r. gr_report_id r \<notin> set ids) rs"

text \<open>With a disk that never fails the file is the memory as soon as it exists.\<close>

definition file_ok :: "(nat \<Rightarrow> string option) \<Rightarrow> gateway_end_queue \<Rightarrow> bool" where
  "file_ok disk q \<longleftrightarrow> (\<forall>n. disk n = None) \<longrightarrow>
     gq_file q = Some (gq_reports q) \<or> gq_file q = None \<and> gq_reports q = []"

lemma filter_id_length: "length xs - length (filter p xs) = 0 \<Longrightarrow> filter p xs = xs"
  by (metis diff_is_0_eq filter_id_conv length_filter_less linorder_not_less)

lemma file_ok_step: "file_ok disk q \<Longrightarrow> file_ok disk (queue_step disk e q)"
proof (cases e)
  case (QPending now)
  assume a: "file_ok disk q"
  show ?thesis
  proof (cases "length (gq_reports q) - length (filter (in_window now) (gq_reports q)) = 0")
    case True
    from filter_id_length [OF True] have "snd (pending_reports disk now q) = q"
      by (simp add: pending_reports_def Let_def)
    then show ?thesis using a QPending by simp
  next
    case False
    then show ?thesis
      using QPending by (auto simp: file_ok_def pending_reports_def Let_def persist_def split: option.split)
  qed
qed (auto simp: file_ok_def enqueue_def acknowledge_def persist_def Let_def split: option.split)

interpretation queue_run: implementing_machine "queue_step disk" "file_ok disk" gq_reports reports_step for disk
proof
  fix e q
  show "file_ok disk q \<Longrightarrow> file_ok disk (queue_step disk e q)" by (rule file_ok_step)
  show "gq_reports (queue_step disk e q) = reports_step e (gq_reports q)"
    by (cases e) (simp_all add: pending_reports_eq enqueue_reports acknowledge_reports)
qed

definition queue_new :: gateway_end_queue where
  "queue_new = \<lparr>gq_reports = [], gq_file = None, gq_attempts = 0\<rparr>"

lemma file_ok_new: "file_ok disk queue_new"
  by (simp add: file_ok_def queue_new_def)

section \<open>Restarts\<close>

text \<open>
  What stands in the queue file: serde's bytes of the reports last written, or what stood there before.
  A life of the process loads the queue, runs and ends anywhere between two operations.
\<close>

definition file_left ::
  "(gateway_end_report list \<Rightarrow> bytes) \<Rightarrow> file_read \<Rightarrow> gateway_end_queue \<Rightarrow> file_read" where
  "file_left to_vec before q = (case gq_file q of Some reports \<Rightarrow> FileBytes (to_vec reports) | None \<Rightarrow> before)"

definition queue_life ::
  "(bytes \<Rightarrow> gateway_end_report list option) \<Rightarrow> (gateway_end_report list \<Rightarrow> bytes) \<Rightarrow> (nat \<Rightarrow> string option) \<Rightarrow>
   queue_event list \<Rightarrow> file_read \<Rightarrow> file_read" where
  "queue_life from_slice to_vec disk es file =
     file_left to_vec file (fold (queue_step disk) es (load_queue from_slice file))"

lemma file_ok_load: "file_ok disk (load_queue from_slice file)"
  by (auto simp: file_ok_def load_queue_def load_reports_def split: file_read.split option.split)

lemma persist_file: "gq_file q \<noteq> None \<Longrightarrow> gq_file (snd (persist disk q)) \<noteq> None"
  by (auto simp: persist_def Let_def split: option.split)

lemma queue_step_file: "gq_file q \<noteq> None \<Longrightarrow> gq_file (queue_step disk e q) \<noteq> None"
  by (cases e) (auto simp: pending_reports_def enqueue_def acknowledge_def Let_def intro!: persist_file simp del: not_None_eq)

lemma queue_steps_file: "gq_file q \<noteq> None \<Longrightarrow> gq_file (fold (queue_step disk) es q) \<noteq> None"
  by (induction es arbitrary: q) (simp_all add: queue_step_file del: not_None_eq)

lemma queue_life_reports:
  assumes "\<forall>n. disk n = None" "\<forall>rs. from_slice (to_vec rs) = Some rs"
  shows "load_reports from_slice (queue_life from_slice to_vec disk es file) =
    fold reports_step es (load_reports from_slice file)"
proof -
  let ?q = "fold (queue_step disk) es (load_queue from_slice file)"
  have q: "gq_reports ?q = fold reports_step es (load_reports from_slice file)"
    using queue_run.simulates_run [OF file_ok_load, of disk es] by (simp add: load_queue_def)
  have "file_ok disk ?q" by (rule queue_run.inv_run [OF file_ok_load])
  then consider "gq_file ?q = Some (gq_reports ?q)" | "gq_file ?q = None" "gq_reports ?q = []"
    using assms(1) by (auto simp: file_ok_def)
  then show ?thesis
  proof cases
    case 1
    then show ?thesis using assms(2) q by (simp add: queue_life_def file_left_def load_reports_def)
  next
    case 2
    have "gq_file (load_queue from_slice file) = None" using queue_steps_file 2(1) by blast
    then have "load_reports from_slice file = []"
      by (auto simp: load_queue_def load_reports_def split: file_read.splits option.splits)
    with 2 q show ?thesis by (simp add: queue_life_def file_left_def)
  qed
qed

section \<open>Properties\<close>

text \<open>
  C33: while the disk works and serde reads back what it writes, reports survive any number of
  restarts: whatever the first process found in the queue file and whatever each process
  enqueues, acknowledges and sends before it ends, the next one loads exactly the reports that
  all these operations in one unbroken life would have left
\<close>

theorem reports_survive_restart:
  assumes "\<forall>n. disk n = None" "\<forall>rs. from_slice (to_vec rs) = Some rs"
  shows "load_reports from_slice (fold (queue_life from_slice to_vec disk) lives start) =
    fold reports_step (concat lives) (load_reports from_slice start)"
proof (induction lives arbitrary: start)
  case (Cons es lives)
  have "load_reports from_slice (queue_life from_slice to_vec disk es start) =
      fold reports_step es (load_reports from_slice start)"
    using queue_life_reports [OF assms] .
  with Cons show ?case by simp
qed simp

definition removes_report :: "gateway_end_report \<Rightarrow> queue_event \<Rightarrow> bool" where
  "removes_report r e = (case e of
     QPending now \<Rightarrow> \<not> in_window now r
   | QEnqueue _ \<Rightarrow> False
   | QAcknowledge ids \<Rightarrow> gr_report_id r \<in> set ids)"

lemma reports_step_keeps:
  "r \<in> set rs \<Longrightarrow> r \<in> set (reports_step e rs) \<longleftrightarrow> \<not> removes_report r e"
  by (cases e) (auto simp: removes_report_def)

text \<open>
  C34: a queued report stays queued through every operation until it is acknowledged or leaves
  the serving window
\<close>

theorem report_kept_until_delivered_or_expired:
  assumes "r \<in> set (gq_reports q)" "file_ok disk q"
  shows "r \<in> set (gq_reports (fold (queue_step disk) es q)) \<or> (\<exists>e \<in> set es. removes_report r e)"
  unfolding queue_run.simulates_run [OF assms(2)]
  using assms(1)
proof (induction es arbitrary: q)
  case Nil
  then show ?case by simp
next
  case (Cons e es)
  show ?case
  proof (cases "removes_report r e")
    case False
    have step: "reports_step e (gq_reports q) = gq_reports (queue_step disk e q)"
      by (cases e) (simp_all add: pending_reports_eq enqueue_reports acknowledge_reports)
    then have "r \<in> set (gq_reports (queue_step disk e q))"
      using Cons.prems False reports_step_keeps [of r "gq_reports q" e] by simp
    from Cons.IH [OF this] show ?thesis by (auto simp: step)
  qed simp
qed

text \<open>A heartbeat that succeeds: the batch it carried is acknowledged.\<close>

definition delivering :: "(nat \<Rightarrow> string option) \<Rightarrow> i64 \<Rightarrow> gateway_end_queue \<Rightarrow> gateway_end_queue" where
  "delivering disk now q =
     (let (batch, q) = pending_reports disk now q
      in snd (acknowledge disk (map gr_report_id batch) q))"

lemma delivering_length: "length (gq_reports (delivering disk now q)) \<le> length (gq_reports q) - MAX_REPORTS_PER_HEARTBEAT"
proof -
  let ?rs = "filter (in_window now) (gq_reports q)"
  let ?ids = "gr_report_id ` set (take MAX_REPORTS_PER_HEARTBEAT ?rs)"
  have eq: "gq_reports (delivering disk now q) = filter (\<lambda>r. gr_report_id r \<notin> ?ids) ?rs"
    by (simp add: delivering_def split_beta acknowledge_reports pending_reports_eq)
  have "filter (\<lambda>r. gr_report_id r \<notin> ?ids) ?rs =
      filter (\<lambda>r. gr_report_id r \<notin> ?ids) (take MAX_REPORTS_PER_HEARTBEAT ?rs) @
      filter (\<lambda>r. gr_report_id r \<notin> ?ids) (drop MAX_REPORTS_PER_HEARTBEAT ?rs)"
    by (metis append_take_drop_id filter_append)
  also have "filter (\<lambda>r. gr_report_id r \<notin> ?ids) (take MAX_REPORTS_PER_HEARTBEAT ?rs) = []"
    by (simp add: filter_empty_conv)
  finally have "length (gq_reports (delivering disk now q)) \<le> length ?rs - MAX_REPORTS_PER_HEARTBEAT"
    unfolding eq by (metis append_Nil length_drop length_filter_le)
  moreover have "length ?rs \<le> length (gq_reports q)" by simp
  ultimately show ?thesis by linarith
qed

text \<open>
  C40: every round of sending and acknowledging takes at least a full heartbeat's 200 reports,
  or all that are left, off the queue, so delivery of a finite queue ends
\<close>

theorem queue_drains:
  "length (gq_reports (fold (delivering disk) nows q)) \<le>
     length (gq_reports q) - MAX_REPORTS_PER_HEARTBEAT * length nows"
proof (induction nows arbitrary: q)
  case Nil
  then show ?case by simp
next
  case (Cons now nows)
  show ?case
    using Cons [of "delivering disk now q"] delivering_length [of disk now q] by simp
qed

definition ex_report :: gateway_end_report where
  "ex_report = \<lparr>gr_report_id = ''r-1'', gr_gateway_id = ''g-1'', gr_user_id = ''u-1'',
     gr_device_public_key = ''dev-1'', gr_ended_at = 1000, gr_flows_ended = 1\<rparr>"

text \<open>A codec of reports: every list item after a 1, a 0 at the end, numbers in unary.\<close>

fun ex_put :: "('a \<Rightarrow> bytes) \<Rightarrow> 'a list \<Rightarrow> bytes" where
  "ex_put put [] = [0]"
| "ex_put put (x # xs) = 1 # put x @ ex_put put xs"

fun ex_take :: "(bytes \<Rightarrow> 'a \<times> bytes) \<Rightarrow> nat \<Rightarrow> bytes \<Rightarrow> 'a list \<times> bytes" where
  "ex_take get 0 bs = ([], bs)"
| "ex_take get (Suc n) bs = (case bs of
     b # bs \<Rightarrow> if b = 0 then ([], bs)
       else (let (x, bs) = get bs; (xs, bs) = ex_take get n bs in (x # xs, bs))
   | [] \<Rightarrow> ([], []))"

lemma ex_put_nonempty: "ex_put put xs \<noteq> []"
  by (cases xs) simp_all

lemma ex_take_put:
  assumes "\<And>x bs. get (put x @ bs) = (x, bs)" "length xs < n"
  shows "ex_take get n (ex_put put xs @ bs) = (xs, bs)"
  using assms(2)
proof (induction xs arbitrary: n)
  case (Cons x xs)
  then obtain m where "n = Suc m" "length xs < m" by (cases n) auto
  with Cons.IH show ?case by (simp add: assms(1))
qed (auto simp: gr0_conv_Suc)

definition ex_read :: "(bytes \<Rightarrow> 'a \<times> bytes) \<Rightarrow> bytes \<Rightarrow> 'a list \<times> bytes" where
  "ex_read get bs = ex_take get (length bs) bs"

lemma ex_put_length: "length xs < length (ex_put put xs)"
  by (induction xs) auto

lemma ex_read_put: "(\<And>x bs. get (put x @ bs) = (x, bs)) \<Longrightarrow> ex_read get (ex_put put xs @ bs) = (xs, bs)"
  unfolding ex_read_def by (rule ex_take_put) (use ex_put_length [of xs put] in \<open>simp_all add: trans_less_add1\<close>)

definition ex_put_string :: "string \<Rightarrow> bytes" where
  "ex_put_string = ex_put (\<lambda>c. [of_nat (of_char c)])"

definition ex_read_string :: "bytes \<Rightarrow> string \<times> bytes" where
  "ex_read_string = ex_read (\<lambda>bs. (char_of (unat (hd bs)), tl bs))"

lemma ex_string [simp]: "ex_read_string (ex_put_string s @ bs) = (s, bs)"
  unfolding ex_read_string_def ex_put_string_def
  by (rule ex_read_put) (simp add: unsigned_of_nat take_bit_eq_mod)

definition ex_put_nat :: "nat \<Rightarrow> bytes" where
  "ex_put_nat n = ex_put (\<lambda>_. []) (replicate n ())"

definition ex_read_nat :: "bytes \<Rightarrow> nat \<times> bytes" where
  "ex_read_nat bs = map_prod length id (ex_read (\<lambda>bs. ((), bs)) bs)"

lemma ex_nat [simp]: "ex_read_nat (ex_put_nat n @ bs) = (n, bs)"
  by (simp add: ex_read_nat_def ex_put_nat_def ex_read_put)

definition ex_put_report :: "gateway_end_report \<Rightarrow> bytes" where
  "ex_put_report r = ex_put_string (gr_report_id r) @ ex_put_string (gr_gateway_id r) @ ex_put_string (gr_user_id r) @
     ex_put_string (gr_device_public_key r) @ ex_put_nat (unat (gr_ended_at r)) @ ex_put_nat (gr_flows_ended r)"

definition ex_read_report :: "bytes \<Rightarrow> gateway_end_report \<times> bytes" where
  "ex_read_report bs =
     (let (a, bs) = ex_read_string bs; (b, bs) = ex_read_string bs; (c, bs) = ex_read_string bs;
          (d, bs) = ex_read_string bs; (e, bs) = ex_read_nat bs; (f, bs) = ex_read_nat bs
      in (\<lparr>gr_report_id = a, gr_gateway_id = b, gr_user_id = c, gr_device_public_key = d,
           gr_ended_at = of_nat e, gr_flows_ended = f\<rparr>, bs))"

lemma ex_report_codec: "ex_read_report (ex_put_report r @ bs) = (r, bs)"
  by (simp add: ex_read_report_def ex_put_report_def)

definition ex_to_vec :: "gateway_end_report list \<Rightarrow> bytes" where
  "ex_to_vec = ex_put ex_put_report"

definition ex_from_slice :: "bytes \<Rightarrow> gateway_end_report list option" where
  "ex_from_slice bs = (case ex_read ex_read_report bs of (rs, []) \<Rightarrow> Some rs | _ \<Rightarrow> None)"

lemma ex_queue_codec: "\<forall>rs. ex_from_slice (ex_to_vec rs) = Some rs"
  using ex_read_put [of ex_read_report ex_put_report _ "[]", OF ex_report_codec]
  by (simp add: ex_from_slice_def ex_to_vec_def)

lemma reports_survive_restart_witness:
  "load_reports ex_from_slice (fold (queue_life ex_from_slice ex_to_vec (\<lambda>_. None))
     [[QEnqueue [ex_report]], [QPending 2000]] FileMissing) = [ex_report]"
proof -
  have "fold reports_step (concat [[QEnqueue [ex_report]], [QPending 2000]]) (load_reports ex_from_slice FileMissing) =
      [ex_report]" by code_simp
  then show ?thesis
    using reports_survive_restart [of "\<lambda>_. None", OF _ ex_queue_codec,
        of "[[QEnqueue [ex_report]], [QPending 2000]]" FileMissing] by (simp only: simp_thms)
qed

lemma report_kept_until_delivered_or_expired_witness:
  "ex_report \<in> set (gq_reports (fold (queue_step (\<lambda>_. Some ''full'')) [QEnqueue [], QAcknowledge [''r-2'']]
     (queue_new\<lparr>gq_reports := [ex_report]\<rparr>)))"
  using report_kept_until_delivered_or_expired [of ex_report "queue_new\<lparr>gq_reports := [ex_report]\<rparr>"
      "\<lambda>_. Some ''full''" "[QEnqueue [], QAcknowledge [''r-2'']]"]
  by (auto simp: file_ok_def removes_report_def ex_report_def)

end
