(* ===== verification/Heartbeat_Client.thy ===== *)
theory Heartbeat_Client
  imports Access_Control Gateway_End
begin

text \<open>
  \<open>src/src/heartbeat.rs\<close>: the two calls to an Agent, \<open>fetch_and_verify\<close> and \<open>deregister_and_verify\<close>,
  and when their answers are trusted. reqwest, serde and the signature crates are parameters.
\<close>

section \<open>Calling an Agent\<close>

definition SIGNATURE_HEADER :: string where
  "SIGNATURE_HEADER = ''X-Signature''"

definition NOT_REGISTERED_REASON :: string where
  "NOT_REGISTERED_REASON = ''connectornotregistered''"

definition NOT_DECOMMISSIONING_REASON :: string where
  "NOT_DECOMMISSIONING_REASON = ''connectornotdecommissioning''"

definition DEREGISTERED_STATUS :: string where
  "DEREGISTERED_STATUS = ''DEREGISTERED''"

text \<open>\<open>dto::ConnectorHeartbeatRequest\<close>.\<close>

record heartbeat_request =
  hq_connector_public_key :: string
  hq_unresolved_endpoint_hosts :: "string list option"
  hq_ended_flows :: "gateway_end_report list"

text \<open>
  An HTTP answer as reqwest gives it: a header's value is \<open>None\<close> when it is not visible text, the
  body \<open>None\<close> when reading it failed. A header's name is spelt as the code asks for it, since the
  library compares names without their case. No answer at all (unreachable, time-out) is \<open>None\<close> of a call.
\<close>

record http_response =
  hp_status :: nat
  hp_headers :: "(string \<times> string option) list"
  hp_body :: "bytes option"

definition is_success :: "nat \<Rightarrow> bool" where
  "is_success status \<longleftrightarrow> 200 \<le> status \<and> status < 300"

text \<open>serde's decoders: of the two answers, and of the \<open>reason\<close> field of a refusal's JSON body.\<close>

record codec =
  cd_heartbeat :: "bytes \<Rightarrow> heartbeat_response option"
  cd_deregister :: "bytes \<Rightarrow> deregister_response option"
  cd_reason :: "bytes \<Rightarrow> string option"

text \<open>\<open>Rejected\<close> is \<open>AgentRejected\<close>; every other failure of a call is a plain error.\<close>

datatype client_error =
    Rejected nat "string option"
  | RequestFailed string
  | BadStatus nat
  | MissingSignature
  | SignatureNotText
  | BodyUnreadable
  | BadSignature
  | Unparseable
  | OtherKey "string option"
  | OtherStatus string
  | BadExpiry string
  | AnswerExpired
  | NoPermittedKey string

definition is_not_registered :: "string option \<Rightarrow> bool" where
  "is_not_registered reason =
     (case reason of Some r \<Rightarrow> str_contains r NOT_REGISTERED_REASON | None \<Rightarrow> False)"

definition is_not_decommissioning :: "string option \<Rightarrow> bool" where
  "is_not_decommissioning reason =
     (case reason of Some r \<Rightarrow> str_contains r NOT_DECOMMISSIONING_REASON | None \<Rightarrow> False)"

text \<open>\<open>error.downcast_ref::<AgentRejected>()\<close>.\<close>

definition agent_rejected :: "client_error \<Rightarrow> bool" where
  "agent_rejected e = (case e of Rejected _ _ \<Rightarrow> True | _ \<Rightarrow> False)"

definition refusal_reason_of :: "codec \<Rightarrow> http_response \<Rightarrow> string option" where
  "refusal_reason_of codec response = Option.bind (hp_body response) (cd_reason codec)"

text \<open>The steps both calls share: the signature header, the raw body, the signature over it.\<close>

definition verified_body ::
  "crypto_lib \<Rightarrow> string \<Rightarrow> http_response \<Rightarrow> client_error + bytes" where
  "verified_body crypto agent_public_key_hex response =
     (case map_of (hp_headers response) SIGNATURE_HEADER of
        None \<Rightarrow> Inl MissingSignature
      | Some None \<Rightarrow> Inl SignatureNotText
      | Some (Some signature_base64) \<Rightarrow>
          (case hp_body response of
             None \<Rightarrow> Inl BodyUnreadable
           | Some body_bytes \<Rightarrow>
               if \<not> verify_base64 crypto agent_public_key_hex body_bytes signature_base64
               then Inl BadSignature else Inr body_bytes))"

text \<open>\<open>post\<close> is the HTTP client's POST of a request to a URL.\<close>

definition fetch_and_verify ::
  "(string \<Rightarrow> heartbeat_request \<Rightarrow> http_response option) \<Rightarrow> codec \<Rightarrow> crypto_lib \<Rightarrow>
   string \<Rightarrow> string \<Rightarrow> heartbeat_request \<Rightarrow> client_error + heartbeat_response" where
  "fetch_and_verify post codec crypto agent_base_url agent_public_key_hex request =
     (let url = trim_end_matches (CHR ''/'') agent_base_url @ ''/api/connectors/heartbeat''
      in case post url request of
           None \<Rightarrow> Inl (RequestFailed url)
         | Some response \<Rightarrow>
             if hp_status response = 400
             then Inl (Rejected (hp_status response) (refusal_reason_of codec response))
             else if \<not> is_success (hp_status response) then Inl (BadStatus (hp_status response))
             else
               (case verified_body crypto agent_public_key_hex response of
                  Inl error \<Rightarrow> Inl error
                | Inr body_bytes \<Rightarrow>
                    (case cd_heartbeat codec body_bytes of
                       None \<Rightarrow> Inl Unparseable
                     | Some parsed \<Rightarrow>
                         if hr_connector_public_key parsed \<noteq> Some (hq_connector_public_key request)
                         then Inl (OtherKey (hr_connector_public_key parsed)) else Inr parsed)))"

definition deregister_and_verify ::
  "(string \<Rightarrow> deregister_request \<Rightarrow> http_response option) \<Rightarrow> codec \<Rightarrow> crypto_lib \<Rightarrow>
   (string \<Rightarrow> utc option) \<Rightarrow> utc \<Rightarrow> string \<Rightarrow> string \<Rightarrow> deregister_request \<Rightarrow>
   client_error + deregister_response" where
  "deregister_and_verify post codec crypto parse_from_rfc3339 now agent_base_url agent_public_key_hex request =
     (let url = trim_end_matches (CHR ''/'') agent_base_url @ ''/api/connectors/deregister''
      in case post url request of
           None \<Rightarrow> Inl (RequestFailed url)
         | Some response \<Rightarrow>
             if hp_status response = 400 \<or> hp_status response = 409
             then Inl (Rejected (hp_status response) (refusal_reason_of codec response))
             else if \<not> is_success (hp_status response) then Inl (BadStatus (hp_status response))
             else
               (case verified_body crypto agent_public_key_hex response of
                  Inl error \<Rightarrow> Inl error
                | Inr body_bytes \<Rightarrow>
                    (case cd_deregister codec body_bytes of
                       None \<Rightarrow> Inl Unparseable
                     | Some parsed \<Rightarrow>
                         if deregister_response.dr_connector_public_key parsed \<noteq> dq_connector_public_key request
                         then Inl (OtherKey (Some (deregister_response.dr_connector_public_key parsed)))
                         else if dr_status parsed \<noteq> DEREGISTERED_STATUS
                         then Inl (OtherStatus (dr_status parsed))
                         else
                           (case parse_from_rfc3339 (dr_expires_at parsed) of
                              None \<Rightarrow> Inl (BadExpiry (dr_expires_at parsed))
                            | Some expires_at \<Rightarrow>
                                if expires_at \<le> now then Inl AnswerExpired else Inr parsed))))"

section \<open>The answers that are trusted\<close>

text \<open>The answer carries a signature of its body that verifies under the key.\<close>

definition signed_by :: "crypto_lib \<Rightarrow> string \<Rightarrow> http_response \<Rightarrow> bytes \<Rightarrow> bool" where
  "signed_by crypto key response body \<longleftrightarrow> hp_body response = Some body \<and>
     (\<exists>signature. map_of (hp_headers response) SIGNATURE_HEADER = Some (Some signature) \<and>
        verify_base64 crypto key body signature)"

lemma verified_body_Inr: "verified_body crypto key response = Inr body \<longleftrightarrow> signed_by crypto key response body"
  by (auto simp: verified_body_def signed_by_def split: option.splits)

lemma verified_body_Inl: "verified_body crypto key response = Inl e \<Longrightarrow> \<not> agent_rejected e"
  by (auto simp: verified_body_def agent_rejected_def split: option.splits if_splits)

lemma is_success_not_refusal: "is_success s \<Longrightarrow> s \<noteq> 400 \<and> s \<noteq> 409"
  by (auto simp: is_success_def)

text \<open>
  C26: a heartbeat answer is trusted exactly when the Agent answered with success, the body it
  sent verifies under that Agent's key, parses, and is for this Connector's own key
\<close>

theorem heartbeat_trusted_iff:
  "fetch_and_verify post codec crypto base key request = Inr parsed \<longleftrightarrow>
   (\<exists>response body. post (trim_end_matches (CHR ''/'') base @ ''/api/connectors/heartbeat'') request = Some response \<and>
      is_success (hp_status response) \<and> signed_by crypto key response body \<and>
      cd_heartbeat codec body = Some parsed \<and>
      hr_connector_public_key parsed = Some (hq_connector_public_key request))"
  using is_success_not_refusal
  by (auto simp: fetch_and_verify_def Let_def verified_body_Inr [symmetric]
      split: option.splits sum.splits if_splits)

theorem deregistration_trusted_iff:
  "deregister_and_verify post codec crypto parse now base key request = Inr parsed \<longleftrightarrow>
   (\<exists>response body expires_at.
      post (trim_end_matches (CHR ''/'') base @ ''/api/connectors/deregister'') request = Some response \<and>
      is_success (hp_status response) \<and> signed_by crypto key response body \<and>
      cd_deregister codec body = Some parsed \<and>
      deregister_response.dr_connector_public_key parsed = dq_connector_public_key request \<and>
      dr_status parsed = DEREGISTERED_STATUS \<and>
      parse (dr_expires_at parsed) = Some expires_at \<and> now < expires_at)"
  using is_success_not_refusal
  by (auto simp: deregister_and_verify_def Let_def verified_body_Inr [symmetric]
      split: option.splits sum.splits if_splits)

text \<open>A call is a refusal exactly on the refusal statuses.\<close>

lemma fetch_rejected:
  "(\<exists>e. fetch_and_verify post codec crypto base key request = Inl e \<and> agent_rejected e) \<longleftrightarrow>
   (\<exists>response. post (trim_end_matches (CHR ''/'') base @ ''/api/connectors/heartbeat'') request = Some response \<and>
      hp_status response = 400)"
  using verified_body_Inl
  by (auto simp: fetch_and_verify_def Let_def agent_rejected_def split: option.splits sum.splits if_splits; fastforce)

end
