(* ===== verification/Agent_Directory.thy ===== *)
theory Agent_Directory
  imports Heartbeat_Client "HOL-Library.Multiset"
begin

text \<open>
  \<open>src/src/agent_directory.rs\<close>: which Agents are tried, in which order, and which of them decides a
  heartbeat or a deregistration; the Registry look-up of \<open>registry_client.rs\<close>; and the exit code of
  \<open>--deregister\<close> in \<open>main.rs\<close>. The network is a parameter: what every URL answers during one call.
\<close>

section \<open>The network\<close>

text \<open>The HTTP client: GET of a URL and the two POSTs, and serde's decoders of the two GET bodies.\<close>

datatype agents_entry = AgentsEntry (ae_ip_address: string) (ae_status: string)

record network =
  nw_get :: "string \<Rightarrow> http_response option"
  nw_post_heartbeat :: "string \<Rightarrow> heartbeat_request \<Rightarrow> http_response option"
  nw_post_deregister :: "string \<Rightarrow> deregister_request \<Rightarrow> http_response option"
  nw_agents_json :: "bytes \<Rightarrow> agents_entry list option"
  nw_permitted_key :: "bytes \<Rightarrow> string option"
  nw_codec :: codec
  nw_crypto :: crypto_lib

section \<open>The Registry: \<open>registry_client.rs\<close>\<close>

definition get_agent_permitted_key :: "network \<Rightarrow> string \<Rightarrow> string \<Rightarrow> client_error + string" where
  "get_agent_permitted_key net registry_base_url agent_ip_address =
     (let url = trim_end_matches (CHR ''/'') registry_base_url @ ''/api/agents/'' @ agent_ip_address
            @ ''/permitted-key''
      in case nw_get net url of
           None \<Rightarrow> Inl (NoPermittedKey url)
         | Some response \<Rightarrow>
             if \<not> is_success (hp_status response) then Inl (NoPermittedKey url)
             else (case Option.bind (hp_body response) (nw_permitted_key net) of
                     None \<Rightarrow> Inl (NoPermittedKey url)
                   | Some key \<Rightarrow> Inr key))"

section \<open>The directory: \<open>agent_directory.rs\<close>\<close>

definition OPERATIONAL_STATUS :: string where
  "OPERATIONAL_STATUS = ''operational''"

record agent =
  ag_ip_address :: string
  ag_base_url :: string

record directory_state =
  ds_last_listed :: "agent list"
  ds_last_answered :: "agent option"

definition directory_new :: directory_state where
  "directory_new = \<lparr>ds_last_listed = [], ds_last_answered = None\<rparr>"

definition base_url_for :: "string \<Rightarrow> string" where
  "base_url_for ip_address = ''https://'' @ ip_address"

datatype directory_error =
    ListUnavailable string
  | NoOperationalAgent
  | AgentRefused client_error
  | NoneAnswered "(string \<times> client_error) list"

text \<open>The loop over the entries of \<open>agents.json\<close>; \<open>agents\<close> is what it has pushed so far.\<close>

fun operational_agents :: "agents_entry list \<Rightarrow> agent list \<Rightarrow> agent list" where
  "operational_agents [] agents = agents"
| "operational_agents (entry # entries) agents =
     (let ip_address = trim_str (ae_ip_address entry)
      in if \<not> eq_ignore_ascii_case (trim_str (ae_status entry)) OPERATIONAL_STATUS \<or> ip_address = []
         then operational_agents entries agents
         else
           (let agent = \<lparr>ag_ip_address = ip_address, ag_base_url = base_url_for ip_address\<rparr>
            in operational_agents entries (if agent \<in> set agents then agents else agents @ [agent])))"

definition fetch_operational_agents :: "network \<Rightarrow> string \<Rightarrow> directory_error + agent list" where
  "fetch_operational_agents net agents_json_url =
     (case nw_get net agents_json_url of
        None \<Rightarrow> Inl (ListUnavailable agents_json_url)
      | Some response \<Rightarrow>
          if \<not> is_success (hp_status response) then Inl (ListUnavailable agents_json_url)
          else (case Option.bind (hp_body response) (nw_agents_json net) of
                  None \<Rightarrow> Inl (ListUnavailable agents_json_url)
                | Some entries \<Rightarrow> Inr (operational_agents entries [])))"

text \<open>\<open>position\<close>, \<open>remove\<close> and \<open>insert(0, ..)\<close>: the last that answered goes first if it is listed.\<close>

fun remove_first :: "'a \<Rightarrow> 'a list \<Rightarrow> 'a list" where
  "remove_first x [] = []"
| "remove_first x (y # ys) = (if x = y then ys else y # remove_first x ys)"

definition sticky_first :: "agent option \<Rightarrow> agent list \<Rightarrow> agent list" where
  "sticky_first last_answered listed = (case last_answered of
     Some agent \<Rightarrow> if agent \<in> set listed then agent # remove_first agent listed else listed
   | None \<Rightarrow> listed)"

definition candidates ::
  "network \<Rightarrow> string \<Rightarrow> directory_state \<Rightarrow> (directory_error + agent list) \<times> directory_state" where
  "candidates net agents_json_url d =
     (let (fetched, d) = (case fetch_operational_agents net agents_json_url of
            Inr listed \<Rightarrow> (Inr listed, d\<lparr>ds_last_listed := listed\<rparr>)
          | Inl error \<Rightarrow> ((if ds_last_listed d = [] then Inl error else Inr (ds_last_listed d)), d))
      in case fetched of
           Inl error \<Rightarrow> (Inl error, d)
         | Inr listed \<Rightarrow>
             if listed = [] then (Inl NoOperationalAgent, d)
             else (Inr (sticky_first (ds_last_answered d) listed), d))"

definition remember_answered :: "agent \<Rightarrow> directory_state \<Rightarrow> directory_state" where
  "remember_answered agent d = d\<lparr>ds_last_answered := Some agent\<rparr>"

definition heartbeat_through ::
  "network \<Rightarrow> string \<Rightarrow> heartbeat_request \<Rightarrow> agent \<Rightarrow> client_error + heartbeat_response" where
  "heartbeat_through net registry_base_url request agent =
     (case get_agent_permitted_key net registry_base_url (ag_ip_address agent) of
        Inl error \<Rightarrow> Inl error
      | Inr agent_public_key \<Rightarrow>
          fetch_and_verify (nw_post_heartbeat net) (nw_codec net) (nw_crypto net) (ag_base_url agent)
            agent_public_key request)"

text \<open>The failover loop: the first candidate that answers or refuses decides.\<close>

fun heartbeat_loop ::
  "(agent \<Rightarrow> client_error + heartbeat_response) \<Rightarrow> agent list \<Rightarrow> (string \<times> client_error) list \<Rightarrow>
   directory_state \<Rightarrow> (directory_error + heartbeat_response) \<times> directory_state" where
  "heartbeat_loop attempt [] failures d = (Inl (NoneAnswered failures), d)"
| "heartbeat_loop attempt (agent # agents) failures d =
     (case attempt agent of
        Inr response \<Rightarrow> (Inr response, remember_answered agent d)
      | Inl error \<Rightarrow>
          if agent_rejected error then (Inl (AgentRefused error), remember_answered agent d)
          else heartbeat_loop attempt agents (failures @ [(ag_ip_address agent, error)]) d)"

definition directory_heartbeat ::
  "network \<Rightarrow> string \<Rightarrow> string \<Rightarrow> heartbeat_request \<Rightarrow> directory_state \<Rightarrow>
   (directory_error + heartbeat_response) \<times> directory_state" where
  "directory_heartbeat net agents_json_url registry_base_url request d =
     (case candidates net agents_json_url d of
        (Inl error, d) \<Rightarrow> (Inl error, d)
      | (Inr agents, d) \<Rightarrow> heartbeat_loop (heartbeat_through net registry_base_url request) agents [] d)"

text \<open>The attempt of \<open>deregister\<close> through one Agent.\<close>

definition deregister_through ::
  "network \<Rightarrow> string \<Rightarrow> (string \<Rightarrow> utc option) \<Rightarrow> utc \<Rightarrow> deregister_request \<Rightarrow> agent \<Rightarrow>
   client_error + deregister_response" where
  "deregister_through net registry_base_url parse_from_rfc3339 now request agent =
     (case get_agent_permitted_key net registry_base_url (ag_ip_address agent) of
        Inl error \<Rightarrow> Inl error
      | Inr key \<Rightarrow> deregister_and_verify (nw_post_deregister net) (nw_codec net) (nw_crypto net)
          parse_from_rfc3339 now (ag_base_url agent) key request)"

text \<open>The loop of \<open>deregister\<close>, which does not remember who answered.\<close>

fun deregister_loop ::
  "(agent \<Rightarrow> client_error + deregister_response) \<Rightarrow> agent list \<Rightarrow> (string \<times> client_error) list \<Rightarrow>
   directory_error + deregister_response" where
  "deregister_loop attempt [] failures = Inl (NoneAnswered failures)"
| "deregister_loop attempt (agent # agents) failures =
     (case attempt agent of
        Inr response \<Rightarrow> Inr response
      | Inl error \<Rightarrow>
          if agent_rejected error then Inl (AgentRefused error)
          else deregister_loop attempt agents (failures @ [(ag_ip_address agent, error)]))"

definition directory_deregister ::
  "network \<Rightarrow> string \<Rightarrow> string \<Rightarrow> (string \<Rightarrow> utc option) \<Rightarrow> utc \<Rightarrow> deregister_request \<Rightarrow> directory_state \<Rightarrow>
   (directory_error + deregister_response) \<times> directory_state" where
  "directory_deregister net agents_json_url registry_base_url parse_from_rfc3339 now request d =
     (case candidates net agents_json_url d of
        (Inl error, d) \<Rightarrow> (Inl error, d)
      | (Inr agents, d) \<Rightarrow>
          (deregister_loop (deregister_through net registry_base_url parse_from_rfc3339 now request) agents [], d))"

section \<open>The candidates\<close>

lemma mset_remove_first: "x \<in> set xs \<Longrightarrow> mset (x # remove_first x xs) = mset xs"
  by (induction xs) auto

lemma mset_sticky_first [simp]: "mset (sticky_first a xs) = mset xs"
  using mset_remove_first [of _ xs] by (auto simp: sticky_first_def split: option.split)

lemma set_sticky_first [simp]: "set (sticky_first a xs) = set xs"
  by (rule mset_eq_setD) simp

lemma operational_agents_iff:
  "agent \<in> set (operational_agents entries agents) \<longleftrightarrow> agent \<in> set agents \<or>
     (\<exists>entry \<in> set entries. eq_ignore_ascii_case (trim_str (ae_status entry)) OPERATIONAL_STATUS \<and>
        trim_str (ae_ip_address entry) \<noteq> [] \<and>
        agent = \<lparr>ag_ip_address = trim_str (ae_ip_address entry),
                 ag_base_url = base_url_for (trim_str (ae_ip_address entry))\<rparr>)"
  by (induction entries agents rule: operational_agents.induct) (auto simp: Let_def)

lemma operational_agents_distinct: "distinct agents \<Longrightarrow> distinct (operational_agents entries agents)"
  by (induction entries agents rule: operational_agents.induct) (auto simp: Let_def)

text \<open>An agent this list operates: what \<open>agents.json\<close> must say for it to be a candidate.\<close>

definition operates :: "agents_entry list \<Rightarrow> agent \<Rightarrow> bool" where
  "operates entries agent \<longleftrightarrow> agent \<in> set (operational_agents entries [])"

text \<open>The state of a directory: every list it keeps was once fetched, so it has no duplicates.\<close>

definition dir_ok :: "directory_state \<Rightarrow> bool" where
  "dir_ok d \<longleftrightarrow> distinct (ds_last_listed d)"

lemma fetch_operational_ok: "fetch_operational_agents net url = Inr listed \<Longrightarrow> distinct listed"
  by (auto simp: fetch_operational_agents_def operational_agents_distinct split: option.splits if_splits)

lemma candidates_ok: "dir_ok d \<Longrightarrow> dir_ok (snd (candidates net url d))"
  using fetch_operational_ok [of net url]
  by (auto simp: candidates_def dir_ok_def Let_def split: sum.splits if_splits)

lemma candidates_answered [simp]: "ds_last_answered (snd (candidates net url d)) = ds_last_answered d"
  by (auto simp: candidates_def Let_def split: sum.splits if_splits)

lemma candidates_Inr:
  "fst (candidates net url d) = Inr agents \<longleftrightarrow>
     (\<exists>listed. listed \<noteq> [] \<and> agents = sticky_first (ds_last_answered d) listed \<and>
        (fetch_operational_agents net url = Inr listed \<or>
         (\<exists>e. fetch_operational_agents net url = Inl e) \<and> listed = ds_last_listed d))"
  by (auto simp: candidates_def Let_def split: sum.splits if_splits)

section \<open>The failover loop\<close>

text \<open>An outage is any failure but a refusal.\<close>

definition outage :: "client_error + 'r \<Rightarrow> bool" where
  "outage r = (case r of Inl e \<Rightarrow> \<not> agent_rejected e | Inr _ \<Rightarrow> False)"

lemma outage_simps [simp]: "outage (Inl e) \<longleftrightarrow> \<not> agent_rejected e" "\<not> outage (Inr r)"
  by (simp_all add: outage_def)

lemma heartbeat_loop_eq:
  "heartbeat_loop attempt agents failures d =
     (case dropWhile (\<lambda>a. outage (attempt a)) agents of
        [] \<Rightarrow> (Inl (NoneAnswered (failures @
              map (\<lambda>a. (ag_ip_address a, case attempt a of Inl e \<Rightarrow> e)) agents)), d)
      | agent # _ \<Rightarrow>
          ((case attempt agent of Inr response \<Rightarrow> Inr response | Inl e \<Rightarrow> Inl (AgentRefused e)),
           remember_answered agent d))"
proof (induction attempt agents failures d rule: heartbeat_loop.induct)
  case (2 attempt agent agents failures d)
  then show ?case
    by (cases "attempt agent"; cases "dropWhile (\<lambda>a. outage (attempt a)) agents") (auto simp del: dropWhile_eq_Nil_conv)
qed simp

lemma directory_heartbeat_ok:
  assumes "dir_ok d"
  shows "dir_ok (snd (directory_heartbeat net url base request d))"
proof -
  obtain r d' where c: "candidates net url d = (r, d')" by force
  then have "dir_ok d'" using candidates_ok [OF assms, of net url] by simp
  then show ?thesis
    by (cases r) (auto simp: directory_heartbeat_def c heartbeat_loop_eq remember_answered_def dir_ok_def
        simp del: dropWhile_eq_Nil_conv split: list.splits)
qed

lemma dir_ok_new: "dir_ok directory_new"
  by (simp add: dir_ok_def directory_new_def)

lemma deregister_loop_eq:
  "deregister_loop attempt agents failures =
     (case dropWhile (\<lambda>a. outage (attempt a)) agents of
        [] \<Rightarrow> Inl (NoneAnswered (failures @
              map (\<lambda>a. (ag_ip_address a, case attempt a of Inl e \<Rightarrow> e)) agents))
      | agent # _ \<Rightarrow> (case attempt agent of Inr response \<Rightarrow> Inr response | Inl e \<Rightarrow> Inl (AgentRefused e)))"
proof (induction attempt agents failures rule: deregister_loop.induct)
  case (2 attempt agent agents failures)
  then show ?case
    by (cases "attempt agent"; cases "dropWhile (\<lambda>a. outage (attempt a)) agents") (auto simp del: dropWhile_eq_Nil_conv)
qed simp

text \<open>The candidate that decides: the first that is not an outage.\<close>

definition decides :: "(agent \<Rightarrow> client_error + 'r) \<Rightarrow> agent list \<Rightarrow> agent \<Rightarrow> bool" where
  "decides attempt agents agent \<longleftrightarrow>
     (\<exists>tried rest. agents = tried @ agent # rest \<and> list_all (\<lambda>a. outage (attempt a)) tried \<and>
        \<not> outage (attempt agent))"

lemma decides_iff: "decides attempt agents agent \<longleftrightarrow>
   (\<exists>rest. dropWhile (\<lambda>a. outage (attempt a)) agents = agent # rest)"
proof
  assume "decides attempt agents agent"
  then obtain tried rest where "agents = tried @ agent # rest" "list_all (\<lambda>a. outage (attempt a)) tried"
    "\<not> outage (attempt agent)" unfolding decides_def by blast
  then show "\<exists>rest. dropWhile (\<lambda>a. outage (attempt a)) agents = agent # rest"
    by (simp add: dropWhile_append list_all_iff)
next
  assume "\<exists>rest. dropWhile (\<lambda>a. outage (attempt a)) agents = agent # rest"
  then obtain rest where r: "dropWhile (\<lambda>a. outage (attempt a)) agents = agent # rest" by blast
  have "agents = takeWhile (\<lambda>a. outage (attempt a)) agents @ agent # rest"
    using takeWhile_dropWhile_id [of "\<lambda>a. outage (attempt a)" agents] r by simp
  moreover have "\<not> outage (attempt agent)" using hd_dropWhile [of "\<lambda>a. outage (attempt a)" agents] r by simp
  moreover have "list_all (\<lambda>a. outage (attempt a)) (takeWhile (\<lambda>a. outage (attempt a)) agents)"
    by (auto simp: list_all_iff dest: set_takeWhileD)
  ultimately show "decides attempt agents agent" unfolding decides_def by blast
qed

lemma decides_unique: "decides attempt agents a \<Longrightarrow> decides attempt agents b \<Longrightarrow> a = b"
  by (auto simp: decides_iff)

text \<open>
  C27: a heartbeat is decided by the first candidate that is not an outage: its answer or its
  refusal is the result and it is remembered; when all are outages the state is unchanged and
  the error names them in order
\<close>

theorem heartbeat_failover:
  assumes "candidates net agents_json_url d = (Inr agents, d')"
    and "directory_heartbeat net agents_json_url registry_base_url request d = (result, d'')"
  shows "(\<forall>agent. decides (heartbeat_through net registry_base_url request) agents agent \<longrightarrow>
      ds_last_answered d'' = Some agent \<and>
      result = (case heartbeat_through net registry_base_url request agent of
          Inr response \<Rightarrow> Inr response | Inl e \<Rightarrow> Inl (AgentRefused e))) \<and>
    (list_all (\<lambda>a. outage (heartbeat_through net registry_base_url request a)) agents \<longrightarrow>
      d'' = d' \<and> (\<exists>failures. result = Inl (NoneAnswered failures) \<and>
        map fst failures = map ag_ip_address agents)) \<and>
    ds_last_listed d'' = ds_last_listed d'"
proof -
  have h: "heartbeat_loop (heartbeat_through net registry_base_url request) agents [] d' = (result, d'')"
    using assms by (simp add: directory_heartbeat_def)
  show ?thesis
  proof (cases "dropWhile (\<lambda>a. outage (heartbeat_through net registry_base_url request a)) agents")
    case Nil
    then have "d'' = d'" "result = Inl (NoneAnswered (map (\<lambda>a. (ag_ip_address a,
        case heartbeat_through net registry_base_url request a of Inl e \<Rightarrow> e)) agents))"
      using h unfolding heartbeat_loop_eq by (simp_all only: list.case prod.inject append_Nil)
    then show ?thesis using Nil unfolding decides_iff
      by (auto simp: comp_def simp del: dropWhile_eq_Nil_conv)
  next
    case (Cons agent rest)
    then have n: "\<not> list_all (\<lambda>a. outage (heartbeat_through net registry_base_url request a)) agents"
      using dropWhile_eq_Nil_conv [of "\<lambda>a. outage (heartbeat_through net registry_base_url request a)" agents]
      by (auto simp: list_all_iff)
    show ?thesis
      using h Cons n unfolding heartbeat_loop_eq decides_iff by (auto simp: remember_answered_def)
  qed
qed

theorem heartbeat_candidates:
  assumes "dir_ok d" "fst (candidates net agents_json_url d) = Inr agents"
  shows "agents \<noteq> [] \<and> distinct agents \<and>
    (\<forall>agent. ds_last_answered d = Some agent \<and> agent \<in> set agents \<longrightarrow> hd agents = agent) \<and>
    (\<forall>listed. fetch_operational_agents net agents_json_url = Inr listed \<longrightarrow>
       set agents = set listed \<and> ds_last_listed (snd (candidates net agents_json_url d)) = listed) \<and>
    (\<forall>e. fetch_operational_agents net agents_json_url = Inl e \<longrightarrow> set agents = set (ds_last_listed d))"
proof -
  obtain listed where l: "listed \<noteq> []" "agents = sticky_first (ds_last_answered d) listed"
    "fetch_operational_agents net agents_json_url = Inr listed \<or>
     (\<exists>e. fetch_operational_agents net agents_json_url = Inl e) \<and> listed = ds_last_listed d"
    using assms(2) unfolding candidates_Inr by blast
  have dl: "distinct listed" using l(3) assms(1) fetch_operational_ok by (auto simp: dir_ok_def)
  have m: "mset agents = mset listed" using l(2) by simp
  have "set agents = set listed" using mset_eq_setD [OF m] .
  moreover from this have "agents \<noteq> []" using l(1) by auto
  moreover have "distinct agents" using mset_eq_imp_distinct_iff [OF m] dl by simp
  ultimately have "distinct agents" "agents \<noteq> []" "set agents = set listed" by simp_all
  moreover have "hd agents = agent" if "ds_last_answered d = Some agent" "agent \<in> set agents" for agent
    using that l(2) calculation(3) by (auto simp: sticky_first_def)
  moreover have "ds_last_listed (snd (candidates net agents_json_url d)) = listed'"
    if "fetch_operational_agents net agents_json_url = Inr listed'" for listed'
    using that l by (auto simp: candidates_def)
  ultimately show ?thesis using l(3) by auto
qed

section \<open>Deregistering\<close>

text \<open>
  What the network says, call by call: \<open>agents.json\<close> lists an address as operational, the Registry
  names the key of the Agent at an address, the Agent there confirms that a key is deregistered.
\<close>

definition got :: "network \<Rightarrow> string \<Rightarrow> bytes \<Rightarrow> bool" where
  "got net url body \<longleftrightarrow> (\<exists>response. nw_get net url = Some response \<and>
     200 \<le> hp_status response \<and> hp_status response < 300 \<and> hp_body response = Some body)"

definition lists_operational :: "network \<Rightarrow> string \<Rightarrow> string \<Rightarrow> bool" where
  "lists_operational net agents_json_url ip \<longleftrightarrow> (\<exists>body entries entry. got net agents_json_url body \<and>
     nw_agents_json net body = Some entries \<and> entry \<in> set entries \<and> trim_str (ae_ip_address entry) = ip \<and> ip \<noteq> [] \<and>
     map to_lower (trim_str (ae_status entry)) = map to_lower ''operational'')"

definition registry_names :: "network \<Rightarrow> string \<Rightarrow> string \<Rightarrow> string \<Rightarrow> bool" where
  "registry_names net registry_base_url ip key \<longleftrightarrow> (\<exists>body.
     got net (trim_end_matches (CHR ''/'') registry_base_url @ ''/api/agents/'' @ ip @ ''/permitted-key'') body \<and>
     nw_permitted_key net body = Some key)"

definition agent_confirms ::
  "network \<Rightarrow> (string \<Rightarrow> utc option) \<Rightarrow> utc \<Rightarrow> string \<Rightarrow> string \<Rightarrow> string \<Rightarrow> bool" where
  "agent_confirms net parse now ip key public_key \<longleftrightarrow> (\<exists>response body parsed expires_at.
     nw_post_deregister net (trim_end_matches (CHR ''/'') (''https://'' @ ip) @ ''/api/connectors/deregister'')
       \<lparr>dq_connector_public_key = public_key\<rparr> = Some response \<and>
     200 \<le> hp_status response \<and> hp_status response < 300 \<and>
     signed_by (nw_crypto net) key response body \<and> cd_deregister (nw_codec net) body = Some parsed \<and>
     deregister_response.dr_connector_public_key parsed = public_key \<and> dr_status parsed = ''DEREGISTERED'' \<and>
     parse (dr_expires_at parsed) = Some expires_at \<and> now < expires_at)"

lemma get_agent_permitted_key_Inr:
  "get_agent_permitted_key net registry_base_url ip = Inr key \<Longrightarrow> registry_names net registry_base_url ip key"
  by (auto simp: get_agent_permitted_key_def registry_names_def got_def is_success_def Let_def
      split: option.splits if_splits Option.bind_splits)

lemma fetched_operational:
  assumes "fetch_operational_agents net agents_json_url = Inr listed" "agent \<in> set listed"
  shows "lists_operational net agents_json_url (ag_ip_address agent) \<and> ag_base_url agent = ''https://'' @ ag_ip_address agent"
proof -
  obtain body entries where "got net agents_json_url body" "nw_agents_json net body = Some entries"
    "listed = operational_agents entries []"
    using assms(1) by (auto simp: fetch_operational_agents_def got_def is_success_def
        split: option.splits if_splits Option.bind_splits)
  moreover obtain entry where e: "entry \<in> set entries"
    "eq_ignore_ascii_case (trim_str (ae_status entry)) OPERATIONAL_STATUS" "trim_str (ae_ip_address entry) \<noteq> []"
    "agent = \<lparr>ag_ip_address = trim_str (ae_ip_address entry), ag_base_url = base_url_for (trim_str (ae_ip_address entry))\<rparr>"
    using calculation(3) assms(2) by (auto simp: operational_agents_iff)
  moreover have "ag_ip_address agent = trim_str (ae_ip_address entry)" by (simp only: e(4) agent.select_convs)
  moreover have "ag_base_url agent = ''https://'' @ trim_str (ae_ip_address entry)"
    by (simp only: e(4) agent.select_convs base_url_for_def)
  ultimately show ?thesis
    unfolding lists_operational_def eq_ignore_ascii_case_def OPERATIONAL_STATUS_def by metis
qed

lemma directory_deregister_Inr:
  assumes "fst (directory_deregister net agents_json_url registry_base_url parse now
      \<lparr>dq_connector_public_key = public_key\<rparr> directory_new) = Inr parsed"
  obtains ip key where "lists_operational net agents_json_url ip" "registry_names net registry_base_url ip key"
    "agent_confirms net parse now ip key public_key"
proof -
  let ?through = "deregister_through net registry_base_url parse now \<lparr>dq_connector_public_key = public_key\<rparr>"
  obtain agents d' where c: "candidates net agents_json_url directory_new = (Inr agents, d')"
    and l: "deregister_loop ?through agents [] = Inr parsed"
    using assms by (auto simp: directory_deregister_def split: prod.splits sum.splits)
  obtain agent rest where a: "dropWhile (\<lambda>a. outage (?through a)) agents = agent # rest" "?through agent = Inr parsed"
    using l unfolding deregister_loop_eq by (auto split: list.splits sum.splits)
  have m: "agent \<in> set agents" using a(1) by (metis list.set_intros(1) set_dropWhileD)
  obtain listed where "fetch_operational_agents net agents_json_url = Inr listed" "agent \<in> set listed"
    using c m candidates_Inr [of net agents_json_url directory_new agents] by (auto simp: directory_new_def)
  note f = fetched_operational [OF this]
  obtain key where k: "get_agent_permitted_key net registry_base_url (ag_ip_address agent) = Inr key"
    "deregister_and_verify (nw_post_deregister net) (nw_codec net) (nw_crypto net) parse now
       (ag_base_url agent) key \<lparr>dq_connector_public_key = public_key\<rparr> = Inr parsed"
    using a(2) by (auto simp: deregister_through_def split: sum.splits)
  have "agent_confirms net parse now (ag_ip_address agent) key public_key"
    using k(2) f unfolding deregistration_trusted_iff agent_confirms_def
    by (auto simp: is_success_def DEREGISTERED_STATUS_def)
  with f get_agent_permitted_key_Inr [OF k(1)] show thesis by (intro that) simp_all
qed

section \<open>Examples\<close>

text \<open>Two Agents are listed; the first is down, the second answers and signs.\<close>

definition ex_heartbeat :: heartbeat_response where
  "ex_heartbeat = \<lparr>hr_connector_id = ''c-1'', hr_connector_public_key = Some ''cpk'',
     hr_connector_virtual_ip = Some ''100.127.0.1'', hr_generated_at = ''g'', hr_expires_at = ''e'', hr_nonce = ''n'',
     hr_policy_bundles = [], hr_node_list = []\<rparr>"

definition ex_deregistered :: deregister_response where
  "ex_deregistered = \<lparr>dr_connector_id = ''c-1'', dr_connector_public_key = ''cpk'',
     dr_status = ''DEREGISTERED'', dr_generated_at = ''g'', dr_expires_at = ''e'', dr_nonce = ''n''\<rparr>"

definition ex_answer :: http_response where
  "ex_answer = \<lparr>hp_status = 200, hp_headers = [(''X-Signature'', Some ''sig'')], hp_body = Some []\<rparr>"

definition ex_net :: network where
  "ex_net = \<lparr>nw_get = (\<lambda>_. Some ex_answer),
     nw_post_heartbeat = (\<lambda>url _. if url = ''https://b/api/connectors/heartbeat'' then Some ex_answer else None),
     nw_post_deregister = (\<lambda>url _. if url = ''https://b/api/connectors/deregister'' then Some ex_answer else None),
     nw_agents_json = (\<lambda>_. Some [AgentsEntry ''a'' ''operational'', AgentsEntry ''b'' ''operational'']),
     nw_permitted_key = (\<lambda>_. Some ''key''),
     nw_codec = \<lparr>cd_heartbeat = (\<lambda>_. Some ex_heartbeat), cd_deregister = (\<lambda>_. Some ex_deregistered),
                 cd_reason = (\<lambda>_. None)\<rparr>,
     nw_crypto = \<lparr>cl_hex_decode = (\<lambda>_. Some (replicate 32 0)), cl_base64_decode = (\<lambda>_. Some (replicate 64 0)),
                  cl_ed25519_key = (\<lambda>_. True), cl_ed25519_verify = (\<lambda>_ _ _. True),
                  cl_ecdsa_p256_verify = (\<lambda>_ _ _. True)\<rparr>\<rparr>"

definition ex_agent :: "string \<Rightarrow> agent" where
  "ex_agent ip = \<lparr>ag_ip_address = ip, ag_base_url = base_url_for ip\<rparr>"

definition ex_hq :: heartbeat_request where
  "ex_hq = \<lparr>hq_connector_public_key = ''cpk'', hq_unresolved_endpoint_hosts = None, hq_ended_flows = []\<rparr>"

lemma ex_trims: "trim_str ''a'' = ''a''" "trim_str ''b'' = ''b''" "trim_str ''operational'' = ''operational''"
  by (rule trim_str_id; code_simp)+

lemma ex_candidates: "candidates ex_net ''u'' directory_new =
   (Inr [ex_agent ''a'', ex_agent ''b''], \<lparr>ds_last_listed = [ex_agent ''a'', ex_agent ''b''], ds_last_answered = None\<rparr>)"
  by (simp add: candidates_def fetch_operational_agents_def ex_net_def ex_answer_def is_success_def ex_trims
      OPERATIONAL_STATUS_def eq_ignore_ascii_case_def ex_agent_def directory_new_def
      sticky_first_def base_url_for_def Let_def)

lemma heartbeat_failover_witness:
  "directory_heartbeat ex_net ''u'' ''r'' ex_hq directory_new =
     (Inr ex_heartbeat, \<lparr>ds_last_listed = [ex_agent ''a'', ex_agent ''b''], ds_last_answered = Some (ex_agent ''b'')\<rparr>)"
proof -
  obtain result d'' where h: "directory_heartbeat ex_net ''u'' ''r'' ex_hq directory_new = (result, d'')" by force
  have a: "outage (heartbeat_through ex_net ''r'' ex_hq (ex_agent ''a''))" by code_simp
  have b: "heartbeat_through ex_net ''r'' ex_hq (ex_agent ''b'') = Inr ex_heartbeat" by code_simp
  have "decides (heartbeat_through ex_net ''r'' ex_hq) [ex_agent ''a'', ex_agent ''b''] (ex_agent ''b'')"
    unfolding decides_def using a b by (intro exI [of _ "[ex_agent ''a'']"] exI [of _ "[]"]) simp
  with heartbeat_failover [OF ex_candidates h] b h show ?thesis
    by (cases d'') auto
qed

lemma heartbeat_candidates_witness:
  "distinct [ex_agent ''a'', ex_agent ''b''] \<and>
   ds_last_listed (snd (candidates ex_net ''u'' directory_new)) = [ex_agent ''a'', ex_agent ''b'']"
proof -
  note dir_ok_new
  moreover have "fst (candidates ex_net ''u'' directory_new) = Inr [ex_agent ''a'', ex_agent ''b'']"
    by (simp add: ex_candidates)
  ultimately show ?thesis using heartbeat_candidates ex_candidates by fastforce
qed

lemma ex_deregistration: "fst (directory_deregister ex_net ''u'' ''r'' (\<lambda>_. Some 10) 5
    \<lparr>dq_connector_public_key = ''cpk''\<rparr> directory_new) = Inr ex_deregistered"
  unfolding directory_deregister_def ex_candidates by code_simp

end
