(* ===== verification/Flow_Control.thy ===== *)
theory Flow_Control
  imports Access_Control Flow_Table_Ops
begin

text \<open>
  The admission decisions of \<open>src/src/flow_control.rs\<close>. \<open>handle_flow_admission\<close> is composed of the
  two parts a heartbeat can run between: the decision against the policy store, and
  \<open>record_admission\<close>, the block under the flow table's lock.
\<close>

section \<open>Messages\<close>

record flow_admission_request =
  fa_flow_id :: string
  fa_gateway_id :: string
  fa_node_id :: string
  fa_port :: u16
  fa_user_public_key :: "string option"
  fa_signature :: "string option"
  fa_signed_data :: "string option"
  fa_transport :: "string option"
  fa_gateway_address :: "string option"
  fa_destination_port :: "u16 option"

definition request_dialled :: "flow_admission_request \<Rightarrow> dialled option" where
  "request_dialled r = do {
     wire \<leftarrow> fa_transport r;
     transport \<leftarrow> transport_from_wire wire;
     text \<leftarrow> fa_gateway_address r;
     gateway_address \<leftarrow> parse_ipv4 text;
     destination_port \<leftarrow> fa_destination_port r;
     Some \<lparr>dl_transport = transport, dl_gateway_address = gateway_address,
           dl_destination_port = destination_port\<rparr>
   }"

datatype recorded = Admitted | AdmittedWithoutDialledIdentity | AlreadyReleased

record flow_admission_response =
  fr_flow_id :: string
  fr_decision :: string
  fr_reason :: "string option"

record flow_release_request =
  rl_flow_id :: string
  rl_gateway_id :: string
  rl_port :: u16

record dns_admission_request =
  da_correlation_id :: string
  da_gateway_id :: string
  da_hostname :: string
  da_user_public_key :: "string option"
  da_signature :: "string option"
  da_signed_data :: "string option"

record dns_admission_response =
  dr_decision :: string
  dr_reason :: "string option"

section \<open>Authentication and the entitlement decision\<close>

text \<open>The third-party code an admission depends on.\<close>

record control_env =
  ce_crypto :: crypto_lib
  ce_parse_rfc3339 :: "string \<Rightarrow> utc option"
  ce_disk :: disk

datatype admission_outcome = OutcomeAllowed string "port_rule list" | OutcomeRefused string

text \<open>\<open>None\<close> is a panic of \<open>decide_access_at\<close>, which a store built by \<open>apply\<close> excludes.\<close>

definition authenticate_and_decide ::
  "control_env \<Rightarrow> policy_store \<Rightarrow> string \<Rightarrow> string option \<Rightarrow> string option \<Rightarrow> string option \<Rightarrow> utc \<Rightarrow>
   audit_log \<Rightarrow> (admission_outcome \<times> audit_log) option" where
  "authenticate_and_decide env store gateway_id user_public_key signature signed_data now log =
     (let refuse = (\<lambda>key reason. Some (OutcomeRefused ''invalid_signature'',
            try_record (ce_disk env) (AccessRefused gateway_id key reason) log))
      in case (user_public_key, signature, signed_data) of
           (Some user_public_key, Some signature, Some signed_data) \<Rightarrow>
             (case cl_base64_decode (ce_crypto env) signed_data of
                None \<Rightarrow> refuse user_public_key ''invalid_signature''
              | Some signed_message \<Rightarrow>
                  if \<not> verify_base64 (ce_crypto env) user_public_key signed_message signature
                  then refuse user_public_key ''invalid_signature''
                  else
                    (case decide_access_and_audit (ce_parse_rfc3339 env) (ce_disk env) store
                            gateway_id user_public_key now log of
                       None \<Rightarrow> None
                     | Some (Allowed _ rules, log) \<Rightarrow> Some (OutcomeAllowed user_public_key rules, log)
                     | Some (AccessRefusedFor reason, log) \<Rightarrow>
                         Some (OutcomeRefused (as_wire_str reason), log)))
         | _ \<Rightarrow> refuse (case user_public_key of Some key \<Rightarrow> key | None \<Rightarrow> '''') ''no_signature_presented'')"

section \<open>Flow admission\<close>

text \<open>
  The block under the flow table's lock: the rules a heartbeat applied win over those the
  decision read, and a flow released in the meantime is not admitted.
\<close>

definition record_admission ::
  "flow_admission_request \<Rightarrow> dialled option \<Rightarrow> string \<Rightarrow> port_rule list \<Rightarrow> instant \<Rightarrow> flow_table \<Rightarrow>
   (recorded \<times> string option option) \<times> flow_table" where
  "record_admission request dialled device_public_key rules now table =
     (let rules = (case current_rules (fa_gateway_id request) table of
                     Some current \<Rightarrow> current | None \<Rightarrow> rules);
          rule = map_option (\<lambda>d. map_option display_port_rule
                    (matching_rule rules (Some (dl_transport d)) (dl_destination_port d))) dialled
      in if was_recently_released (fa_flow_id request) now table
         then ((AlreadyReleased, rule), table)
         else (((case dialled of Some _ \<Rightarrow> Admitted | None \<Rightarrow> AdmittedWithoutDialledIdentity), rule),
               admit_flow (fa_node_id request) (fa_port request) dialled (fa_gateway_id request)
                 (fa_flow_id request) device_public_key rules table))"

text \<open>What the audit entry of an admission says of the rule that serves the flow.\<close>

definition admission_note :: "recorded \<Rightarrow> string option option \<Rightarrow> string option \<times> string option" where
  "admission_note recorded rule = (case (recorded, Option.bind rule id) of
     (Admitted, Some rule) \<Rightarrow> (Some rule, None)
   | (Admitted, None) \<Rightarrow> (None, Some ''no single port rule serves the flow's transport and port'')
   | (AdmittedWithoutDialledIdentity, _) \<Rightarrow>
       (None, Some ''the node sent no dialled port; only rules with equal ports serve the flow'')
   | (AlreadyReleased, _) \<Rightarrow> (None, None))"

text \<open>The reply, and the entry the code spawns a task to record in the background.\<close>

definition admission_reply ::
  "flow_admission_request \<Rightarrow> string \<Rightarrow> recorded \<Rightarrow> string option option \<Rightarrow>
   flow_admission_response \<times> audit_event option" where
  "admission_reply request device_public_key recorded rule =
     (let (port_rule, warning) = admission_note recorded rule;
          event = FlowAdmitted (fa_flow_id request) (fa_gateway_id request) device_public_key
                    port_rule warning
      in if recorded = AlreadyReleased
         then (\<lparr>fr_flow_id = fa_flow_id request, fr_decision = ''refuse'',
                fr_reason = Some ''flow_already_released''\<rparr>, None)
         else (\<lparr>fr_flow_id = fa_flow_id request, fr_decision = ''admit'', fr_reason = None\<rparr>,
               Some event))"

definition refusal_reply :: "flow_admission_request \<Rightarrow> string \<Rightarrow> flow_admission_response" where
  "refusal_reply request reason =
     \<lparr>fr_flow_id = fa_flow_id request, fr_decision = ''refuse'', fr_reason = Some reason\<rparr>"

definition handle_flow_admission ::
  "control_env \<Rightarrow> policy_store \<Rightarrow> flow_admission_request \<Rightarrow> utc \<Rightarrow> instant \<Rightarrow> audit_log \<Rightarrow> flow_table \<Rightarrow>
   ((flow_admission_response \<times> audit_event option) \<times> audit_log \<times> flow_table) option" where
  "handle_flow_admission env store request now_utc now log table =
     (let dialled = request_dialled request
      in case authenticate_and_decide env store (fa_gateway_id request) (fa_user_public_key request)
                (fa_signature request) (fa_signed_data request) now_utc log of
           None \<Rightarrow> None
         | Some (OutcomeAllowed device_public_key rules, log) \<Rightarrow>
             (let ((recorded, rule), table) =
                    record_admission request dialled device_public_key rules now table
              in Some (admission_reply request device_public_key recorded rule, log, table))
         | Some (OutcomeRefused reason, log) \<Rightarrow> Some ((refusal_reply request reason, None), log, table))"

definition handle_dns_admission ::
  "control_env \<Rightarrow> policy_store \<Rightarrow> dns_admission_request \<Rightarrow> utc \<Rightarrow> audit_log \<Rightarrow>
   (dns_admission_response \<times> audit_log) option" where
  "handle_dns_admission env store request now log =
     (case authenticate_and_decide env store (da_gateway_id request) (da_user_public_key request)
             (da_signature request) (da_signed_data request) now log of
        None \<Rightarrow> None
      | Some (OutcomeAllowed _ _, log) \<Rightarrow> Some (\<lparr>dr_decision = ''admit'', dr_reason = None\<rparr>, log)
      | Some (OutcomeRefused reason, log) \<Rightarrow>
          Some (\<lparr>dr_decision = ''refuse'', dr_reason = Some reason\<rparr>, log))"

definition handle_flow_release :: "disk \<Rightarrow> flow_release_request \<Rightarrow> audit_log \<Rightarrow> audit_log" where
  "handle_flow_release disk request log =
     try_record disk (FlowReleased (rl_flow_id request) (rl_gateway_id request)) log"

section \<open>Lemmas\<close>

text \<open>The request proves possession of the key it names.\<close>

definition proves_key ::
  "control_env \<Rightarrow> string option \<Rightarrow> string option \<Rightarrow> string option \<Rightarrow> string \<Rightarrow> bool" where
  "proves_key env upk sig sd key \<longleftrightarrow> upk = Some key \<and>
     (\<exists>s m text. sig = Some s \<and> sd = Some text \<and> cl_base64_decode (ce_crypto env) text = Some m \<and>
        verify_base64 (ce_crypto env) key m s)"

lemma authenticate_total:
  "store_ok (ce_parse_rfc3339 env) store \<Longrightarrow>
     authenticate_and_decide env store g upk sig sd now log \<noteq> None"
  using decide_access_total [of "ce_parse_rfc3339 env" store]
  by (auto simp: authenticate_and_decide_def decide_access_and_audit_def Let_def
      split: option.split access_decision.split) (metis option.distinct(1))

lemma authenticate_Allowed:
  "(\<exists>log'. authenticate_and_decide env store g upk sig sd now log = Some (OutcomeAllowed key rules, log')) \<longleftrightarrow>
     proves_key env upk sig sd key \<and>
     (\<exists>u. decide_access_at (ce_parse_rfc3339 env) store g key now = Some (Allowed u rules))"
  by (auto simp: authenticate_and_decide_def decide_access_and_audit_def proves_key_def Let_def
      split: option.splits access_decision.splits if_splits)

lemma authenticate_Refused:
  "authenticate_and_decide env store g upk sig sd now log = Some (OutcomeRefused reason, log') \<Longrightarrow>
     reason \<in> {''invalid_signature'', ''not_entitled'', ''expired_entitlement'', ''unknown_gateway''}"
  by (auto simp: authenticate_and_decide_def decide_access_and_audit_def as_wire_str_def Let_def
      split: option.splits access_decision.splits if_splits refusal_reason.splits)

text \<open>Exactly one audit write is tried per decision, and it never changes the outcome.\<close>

lemma authenticate_audit:
  "authenticate_and_decide env store g upk sig sd now log = Some (outcome, log') \<Longrightarrow>
     au_attempts log' = Suc (au_attempts log) \<and>
     (\<exists>new. au_entries log' = au_entries log @ new \<and>
        (ce_disk env (au_attempts log) = None \<longrightarrow> length new = 1))"
  by (auto simp: authenticate_and_decide_def decide_access_and_audit_def Let_def try_record_def
      record_event_def split: option.splits access_decision.splits if_splits)

lemma authenticate_disk:
  "map_option fst (authenticate_and_decide env store g upk sig sd now log) =
   map_option fst (authenticate_and_decide (env\<lparr>ce_disk := disk\<rparr>) store g upk sig sd now log')"
  by (auto simp: authenticate_and_decide_def decide_access_and_audit_def Let_def
      split: option.splits access_decision.splits)


lemma record_admission_recorded:
  "fst (fst (record_admission request d key rules now table)) =
     (if was_recently_released (fa_flow_id request) now table then AlreadyReleased
      else if d = None then AdmittedWithoutDialledIdentity else Admitted)"
  by (simp add: record_admission_def Let_def split: option.split)

lemma record_admission_table:
  "snd (record_admission request d key rules now table) =
     (if was_recently_released (fa_flow_id request) now table then table
      else admit_flow (fa_node_id request) (fa_port request) d (fa_gateway_id request) (fa_flow_id request) key
          (case current_rules (fa_gateway_id request) table of Some c \<Rightarrow> c | None \<Rightarrow> rules) table)"
  by (simp add: record_admission_def Let_def)

lemma record_admission_inv: "ft_inv table \<Longrightarrow> ft_inv (snd (record_admission request d key rules now table))"
  by (simp add: record_admission_table admit_flow_inv)

lemma admission_reply_decision [simp]:
  "fr_decision (fst (admission_reply request key recorded rule)) =
     (if recorded = AlreadyReleased then ''refuse'' else ''admit'')"
  "fr_flow_id (fst (admission_reply request key recorded rule)) = fa_flow_id request"
  "fr_reason (fst (admission_reply request key recorded rule)) =
     (if recorded = AlreadyReleased then Some ''flow_already_released'' else None)"
  by (simp_all add: admission_reply_def Let_def split_beta)

text \<open>The reply and the table an outcome leads to.\<close>

definition answer ::
  "flow_admission_request \<Rightarrow> instant \<Rightarrow> flow_table \<Rightarrow> admission_outcome \<Rightarrow>
   (flow_admission_response \<times> audit_event option) \<times> flow_table" where
  "answer request now table outcome = (case outcome of
     OutcomeAllowed key rules \<Rightarrow>
       (let ra = record_admission request (request_dialled request) key rules now table
        in (admission_reply request key (fst (fst ra)) (snd (fst ra)), snd ra))
   | OutcomeRefused reason \<Rightarrow> ((refusal_reply request reason, None), table))"

lemma handle_flow_admission_eq:
  "handle_flow_admission env store request now_utc now log table =
     map_option (\<lambda>r. (fst (answer request now table (fst r)), snd r, snd (answer request now table (fst r))))
       (authenticate_and_decide env store (fa_gateway_id request) (fa_user_public_key request)
         (fa_signature request) (fa_signed_data request) now_utc log)"
  by (auto simp: handle_flow_admission_def answer_def Let_def split_beta
      split: option.split admission_outcome.split)

section \<open>Properties\<close>

text \<open>A request is entitled when it proves its key and the policy lists that key for its gateway.\<close>

definition entitled :: "control_env \<Rightarrow> policy_store \<Rightarrow> flow_admission_request \<Rightarrow> utc \<Rightarrow> string \<Rightarrow> port_rule list \<Rightarrow> bool" where
  "entitled env store request now key rules \<longleftrightarrow>
     proves_key env (fa_user_public_key request) (fa_signature request) (fa_signed_data request) key \<and>
     (\<exists>u. decide_access_at (ce_parse_rfc3339 env) store (fa_gateway_id request) key now =
        Some (Allowed u rules))"

text \<open>
  C18: a flow admission is answered with admit exactly when the request proves possession of a
  key the applied policy entitles to the gateway and the flow was not released in the
  meantime, and the table changes exactly then, by that admission under the gateway's current
  rules
\<close>

theorem flow_admitted_iff_entitled:
  assumes "handle_flow_admission env store request now_utc now log table = Some ((reply, event), log', table')"
  shows "(fr_decision reply = ''admit'' \<longleftrightarrow>
      (\<exists>key rules. entitled env store request now_utc key rules) \<and>
      \<not> was_recently_released (fa_flow_id request) now table) \<and>
    (if fr_decision reply = ''admit''
     then (\<exists>key rules. entitled env store request now_utc key rules \<and>
        table' = admit_flow (fa_node_id request) (fa_port request) (request_dialled request)
          (fa_gateway_id request) (fa_flow_id request) key
          (case current_rules (fa_gateway_id request) table of Some c \<Rightarrow> c | None \<Rightarrow> rules) table)
     else table' = table)"
proof (cases "authenticate_and_decide env store (fa_gateway_id request) (fa_user_public_key request)
    (fa_signature request) (fa_signed_data request) now_utc log")
  case None
  then show ?thesis using assms by (simp add: handle_flow_admission_def)
next
  case (Some r)
  obtain outcome log1 where r: "r = (outcome, log1)" by force
  show ?thesis
  proof (cases outcome)
    case (OutcomeRefused reason)
    have "\<not> (\<exists>key rules. entitled env store request now_utc key rules)"
      using authenticate_Allowed [of env store "fa_gateway_id request" "fa_user_public_key request"
          "fa_signature request" "fa_signed_data request" now_utc log] Some r OutcomeRefused
      by (auto simp: entitled_def)
    then show ?thesis
      using assms Some r OutcomeRefused by (auto simp: handle_flow_admission_def refusal_reply_def)
  next
    case (OutcomeAllowed key rules)
    have e: "entitled env store request now_utc key rules"
      using authenticate_Allowed [of env store "fa_gateway_id request" "fa_user_public_key request"
          "fa_signature request" "fa_signed_data request" now_utc log key rules] Some r OutcomeAllowed
      by (auto simp: entitled_def)
    have h: "reply = fst (admission_reply request key
          (fst (fst (record_admission request (request_dialled request) key rules now table)))
          (snd (fst (record_admission request (request_dialled request) key rules now table))))"
      "table' = snd (record_admission request (request_dialled request) key rules now table)"
      using assms Some r OutcomeAllowed
      by (auto simp: handle_flow_admission_def Let_def split_beta)
    show ?thesis
      using e unfolding h by (auto simp: record_admission_recorded record_admission_table)
  qed
qed

theorem admission_survives_audit_failure:
  "map_option (\<lambda>(r, log, t). (r, t)) (handle_flow_admission env store request now_utc now log table) =
   map_option (\<lambda>(r, log, t). (r, t))
     (handle_flow_admission (env\<lparr>ce_disk := disk\<rparr>) store request now_utc now log' table)"
proof -
  have c: "map_option (\<lambda>(r, log, t). (r, t)) (handle_flow_admission e store request now_utc now l table) =
      map_option (answer request now table) (map_option fst
        (authenticate_and_decide e store (fa_gateway_id request) (fa_user_public_key request)
          (fa_signature request) (fa_signed_data request) now_utc l))" for e l
    by (simp add: handle_flow_admission_eq option.map_comp comp_def)
  show ?thesis unfolding c authenticate_disk [of env _ _ _ _ _ _ log disk log'] ..
qed

theorem admission_always_answers:
  assumes "store_ok (ce_parse_rfc3339 env) store"
  shows "\<exists>reply event log' table'. handle_flow_admission env store request now_utc now log table =
      Some ((reply, event), log', table') \<and>
    fr_flow_id reply = fa_flow_id request \<and>
    (fr_decision reply = ''admit'' \<and> fr_reason reply = None \<or>
     fr_decision reply = ''refuse'' \<and> fr_reason reply \<in> Some ` {''invalid_signature'', ''not_entitled'',
       ''expired_entitlement'', ''unknown_gateway'', ''flow_already_released''}) \<and>
    (event \<noteq> None \<longleftrightarrow> fr_decision reply = ''admit'') \<and>
    au_attempts log' = Suc (au_attempts log) \<and>
    (ce_disk env (au_attempts log) = None \<longrightarrow>
      (\<exists>e. au_entries log' = au_entries log @ [e]))"
proof -
  obtain outcome log1 where a: "authenticate_and_decide env store (fa_gateway_id request)
      (fa_user_public_key request) (fa_signature request) (fa_signed_data request) now_utc log =
      Some (outcome, log1)"
    using authenticate_total [OF assms] by (metis not_None_eq surj_pair)
  note au = authenticate_audit [OF a]
  then have au2: "ce_disk env (au_attempts log) = None \<longrightarrow> (\<exists>e. au_entries log1 = au_entries log @ [e])"
    by (auto simp: length_Suc_conv)
  have h: "handle_flow_admission env store request now_utc now log table =
      Some ((fst (fst (answer request now table outcome)), snd (fst (answer request now table outcome))),
        log1, snd (answer request now table outcome))"
    by (simp add: handle_flow_admission_eq a)
  have refused: "reason \<in> {''invalid_signature'', ''not_entitled'', ''expired_entitlement'', ''unknown_gateway''}"
    if "outcome = OutcomeRefused reason" for reason
    using authenticate_Refused a that by metis
  have fields: "fr_flow_id (fst (fst (answer request now table outcome))) = fa_flow_id request"
    by (simp add: answer_def refusal_reply_def Let_def split: admission_outcome.split)
  have decision: "let reply = fst (fst (answer request now table outcome)) in
      fr_decision reply = ''admit'' \<and> fr_reason reply = None \<or>
      fr_decision reply = ''refuse'' \<and> fr_reason reply \<in> Some ` {''invalid_signature'', ''not_entitled'',
       ''expired_entitlement'', ''unknown_gateway'', ''flow_already_released''}"
    using refused by (cases outcome) (auto simp: answer_def refusal_reply_def Let_def)
  have event: "snd (fst (answer request now table outcome)) \<noteq> None \<longleftrightarrow>
      fr_decision (fst (fst (answer request now table outcome))) = ''admit''"
    by (cases outcome) (auto simp: answer_def refusal_reply_def Let_def admission_reply_def split_beta)
  show ?thesis
  proof (intro exI conjI)
    show "handle_flow_admission env store request now_utc now log table =
      Some ((fst (fst (answer request now table outcome)), snd (fst (answer request now table outcome))),
        log1, snd (answer request now table outcome))" by (rule h)
  qed (use fields decision event au au2 in \<open>simp_all only: Let_def\<close>)
qed

theorem dns_admission_same_authority:
  "(\<exists>reply log'. handle_dns_admission env store d now log = Some (reply, log') \<and> dr_decision reply = ''admit'') \<longleftrightarrow>
   (\<exists>key u rules. proves_key env (da_user_public_key d) (da_signature d) (da_signed_data d) key \<and>
      decide_access_at (ce_parse_rfc3339 env) store (da_gateway_id d) key now = Some (Allowed u rules))"
proof -
  have "(\<exists>reply log'. handle_dns_admission env store d now log = Some (reply, log') \<and>
        dr_decision reply = ''admit'') \<longleftrightarrow>
      (\<exists>key rules log'. authenticate_and_decide env store (da_gateway_id d) (da_user_public_key d)
        (da_signature d) (da_signed_data d) now log = Some (OutcomeAllowed key rules, log'))"
    by (auto simp: handle_dns_admission_def split: option.splits prod.splits admission_outcome.splits)
  also have "\<dots> \<longleftrightarrow> (\<exists>key rules. proves_key env (da_user_public_key d) (da_signature d) (da_signed_data d) key \<and>
      (\<exists>u. decide_access_at (ce_parse_rfc3339 env) store (da_gateway_id d) key now = Some (Allowed u rules)))"
    by (simp only: authenticate_Allowed)
  finally show ?thesis by blast
qed


section \<open>A concrete admission\<close>

definition ex_env :: control_env where
  "ex_env = \<lparr>ce_crypto = \<lparr>cl_hex_decode = (\<lambda>_. Some (replicate 32 0)),
       cl_base64_decode = (\<lambda>_. Some (replicate 64 0)), cl_ed25519_key = (\<lambda>_. True),
       cl_ed25519_verify = (\<lambda>_ _ _. True), cl_ecdsa_p256_verify = (\<lambda>_ _ _. False)\<rparr>,
     ce_parse_rfc3339 = (\<lambda>_. Some 1000), ce_disk = (\<lambda>_. None)\<rparr>"

definition ex_bundle :: policy_bundle where
  "ex_bundle = \<lparr>pb_gateway_id = ''g-1'', pb_location = ''l'', pb_hostname = ''h'', pb_access_mode = ''private'',
     pb_endpoints = [\<lparr>ep_host = ''10.0.0.5'', ep_port = 443\<rparr>], pb_port_rules = None,
     pb_entitlement_list = [\<lparr>en_user_id = ''u-1'', en_device_public_key = Some ''dev-1''\<rparr>]\<rparr>"

definition ex_store :: policy_store where
  "ex_store = Some \<lparr>ps_connector_id = ''c'', ps_generated_at = ''t0'', ps_expires_at = ''t1'',
     ps_policy_bundles = [ex_bundle], ps_node_list = []\<rparr>"

definition ex_request :: flow_admission_request where
  "ex_request = \<lparr>fa_flow_id = ''f-1'', fa_gateway_id = ''g-1'', fa_node_id = ''n-1'', fa_port = 40100,
     fa_user_public_key = Some ''dev-1'', fa_signature = Some ''s'', fa_signed_data = Some ''d'',
     fa_transport = Some ''tcp'', fa_gateway_address = Some ''100.64.0.9'', fa_destination_port = Some 443\<rparr>"

lemma ex_store_ok: "store_ok (ce_parse_rfc3339 ex_env) ex_store"
  by (simp add: store_ok_def ex_store_def ex_env_def)

lemma ex_admits: "map_option (\<lambda>(r, l, t). fr_decision (fst r))
    (handle_flow_admission ex_env ex_store ex_request 0 0 audit_log_new flow_table_new) = Some ''admit''"
  by code_simp

lemma flow_admitted_iff_entitled_witness:
  "\<exists>key rules. entitled ex_env ex_store ex_request 0 key rules \<and>
     \<not> was_recently_released ''f-1'' 0 flow_table_new"
proof -
  obtain reply event log' table' where
    h: "handle_flow_admission ex_env ex_store ex_request 0 0 audit_log_new flow_table_new =
      Some ((reply, event), log', table')" and "fr_decision reply = ''admit''"
    using ex_admits by auto
  then show ?thesis
    using flow_admitted_iff_entitled [OF h] by (auto simp: ex_request_def)
qed

lemma admission_always_answers_witness:
  "\<exists>reply event log' table'. handle_flow_admission ex_env ex_store ex_request 0 0 audit_log_new flow_table_new =
      Some ((reply, event), log', table') \<and> fr_flow_id reply = ''f-1'' \<and> au_attempts log' = 1"
  using admission_always_answers [OF ex_store_ok, of ex_request 0 0 audit_log_new flow_table_new]
  by (auto simp: ex_request_def audit_log_new_def)

end
