(* ===== verification/Admission_Poller.thy ===== *)
theory Admission_Poller
  imports Flow_Control Flow_Table_Props
begin

text \<open>
  The pollers of \<open>src/src/admission_poller.rs\<close>: the task per node that a heartbeat starts and stops, one
  turn of its polling loop, and the handlers of the messages it receives over the state the control
  plane shares (\<open>ControlPlaneState\<close> of \<open>src/src/flow_control.rs\<close>). An admission runs as a task of its
  own; \<open>Control_Plane\<close> interleaves those with everything else. The HTTP exchange is an input.
\<close>

section \<open>Constants and paths\<close>

definition MAX_CONCURRENT_ADMISSIONS_PER_NODE :: nat where
  "MAX_CONCURRENT_ADMISSIONS_PER_NODE = 16"

definition poll_path :: "string \<Rightarrow> string" where
  "poll_path connector_id = ''/api/connector/'' @ connector_id @ ''/poll''"

definition result_path :: "string \<Rightarrow> string" where
  "result_path connector_id = ''/api/connector/'' @ connector_id @ ''/admission-result''"

section \<open>The set of pollers\<close>

text \<open>
  A running task: what it was spawned with, and the number of the spawn, so that a restarted poller
  is told from one left running. Aborting a task drops it.
\<close>

record poller_task =
  pt_connector_id :: string
  pt_spawn :: nat

record admission_pollers =
  pl_connector_id :: "string option"
  pl_tasks :: "(string, poller_task) hmap"
  pl_spawned :: nat

definition pollers_new :: admission_pollers where
  "pollers_new = \<lparr>pl_connector_id = None, pl_tasks = [], pl_spawned = 0\<rparr>"

definition stop_all :: "admission_pollers \<Rightarrow> admission_pollers" where
  "stop_all p = p\<lparr>pl_tasks := []\<rparr>"

text \<open>The body of the spawning loop of \<open>sync\<close>.\<close>

definition start_poller :: "string \<Rightarrow> heartbeat_node \<Rightarrow> admission_pollers \<Rightarrow> admission_pollers" where
  "start_poller connector_id node p =
     (if hm_contains (pl_tasks p) (hn_node_id node) then p
      else p\<lparr>pl_tasks := hm_insert (hn_node_id node)
                \<lparr>pt_connector_id = connector_id, pt_spawn = pl_spawned p\<rparr> (pl_tasks p),
             pl_spawned := Suc (pl_spawned p)\<rparr>)"

definition sync_pollers :: "string \<Rightarrow> heartbeat_node list \<Rightarrow> admission_pollers \<Rightarrow> admission_pollers" where
  "sync_pollers connector_id nodes p =
     (if is_blank connector_id then (stop_all p)\<lparr>pl_connector_id := None\<rparr>
      else
        (let p = (if pl_connector_id p \<noteq> Some connector_id
                  then (stop_all p)\<lparr>pl_connector_id := Some connector_id\<rparr> else p);
             seen = map hn_node_id nodes;
             p = p\<lparr>pl_tasks := hm_retain (\<lambda>node_id _. node_id \<in> set seen) (pl_tasks p)\<rparr>
         in fold (start_poller connector_id) nodes p))"

section \<open>The work a poller receives\<close>

record poll_message =
  pm_kind :: string
  pm_admission :: "flow_admission_request option"
  pm_release :: "flow_release_request option"
  pm_dns_admission :: "dns_admission_request option"

text \<open>
  What the control plane shares (\<open>ControlPlaneState\<close>): policy, audit log, flow table, and the
  channel a reclaimed packet is handed back through.
\<close>

record control_plane =
  cp_store :: policy_store
  cp_log :: audit_log
  cp_table :: flow_table
  cp_recovered :: "(string \<times> bytes) list"

text \<open>What is posted back to a node's Gatekeeper.\<close>

datatype result_body =
    FlowResult flow_admission_response
  | DnsResult string dns_admission_response

datatype posted = Posted string string result_body

text \<open>
  \<open>connect_registered\<close>: the socket is bound first and the port the system gave it is registered before
  anything is sent, so a connection that then fails leaves its port registered. A request that cannot
  be built counts as a connection that failed.
\<close>

datatype connection = NotBound | ConnectFailed u16 | Connected u16

definition connect_registered :: "string \<Rightarrow> connection \<Rightarrow> flow_table \<Rightarrow> bool \<times> flow_table" where
  "connect_registered node_id connection table = (case connection of
     NotBound \<Rightarrow> (False, table)
   | ConnectFailed port \<Rightarrow> (False, record_outbound_control_channel_port node_id port table)
   | Connected port \<Rightarrow> (True, record_outbound_control_channel_port node_id port table))"

text \<open>The tail both handlers share: connect and post; a result that cannot be sent is dropped.\<close>

definition post_result ::
  "string \<Rightarrow> string \<Rightarrow> connection \<Rightarrow> result_body \<Rightarrow> control_plane \<Rightarrow> posted list \<times> control_plane" where
  "post_result node_id connector_id connection body s =
     (let (connected, table) = connect_registered node_id connection (cp_table s);
          s = s\<lparr>cp_table := table\<rparr>
      in (if connected then [Posted node_id (result_path connector_id) body] else [], s))"

text \<open>
  \<open>handle_admission\<close> after the decision's reply: an admitted flow's buffered packet is taken back,
  under the poller's own node.
\<close>

definition reclaim_packet ::
  "string \<Rightarrow> flow_admission_request \<Rightarrow> flow_admission_response \<Rightarrow> instant \<Rightarrow> control_plane \<Rightarrow> control_plane" where
  "reclaim_packet node_id request response now s =
     (if fr_decision response = ''admit''
      then (case take_pending node_id (fa_port request) (request_dialled request) now (cp_table s) of
              (Some packet, table) \<Rightarrow>
                s\<lparr>cp_table := table, cp_recovered := cp_recovered s @ [(node_id, packet)]\<rparr>
            | (None, table) \<Rightarrow> s\<lparr>cp_table := table\<rparr>)
      else s)"

text \<open>
  The moment a handler runs at: the wall clock, the instants of the lock and of the reclaim, and how
  its connection to the Gatekeeper goes.
\<close>

record moment =
  mo_utc :: utc
  mo_now :: instant
  mo_reclaim :: instant
  mo_connection :: connection

text \<open>The audit entry of an admission is written by a task of its own; it is recorded here at once.\<close>

definition handle_admission ::
  "control_env \<Rightarrow> moment \<Rightarrow> string \<Rightarrow> string \<Rightarrow> flow_admission_request option \<Rightarrow> control_plane \<Rightarrow>
   (posted list \<times> control_plane) option" where
  "handle_admission env mo node_id connector_id request s = (case request of
     None \<Rightarrow> Some ([], s)
   | Some request \<Rightarrow>
       (case handle_flow_admission env (cp_store s) request (mo_utc mo) (mo_now mo) (cp_log s) (cp_table s) of
          None \<Rightarrow> None
        | Some ((response, event), log, table) \<Rightarrow>
            (let log = (case event of Some event \<Rightarrow> try_record (ce_disk env) event log | None \<Rightarrow> log);
                 s = s\<lparr>cp_log := log, cp_table := table\<rparr>;
                 s = reclaim_packet node_id request response (mo_reclaim mo) s
             in Some (post_result node_id connector_id (mo_connection mo) (FlowResult response) s))))"

definition handle_dns ::
  "control_env \<Rightarrow> moment \<Rightarrow> string \<Rightarrow> string \<Rightarrow> dns_admission_request option \<Rightarrow> control_plane \<Rightarrow>
   (posted list \<times> control_plane) option" where
  "handle_dns env mo node_id connector_id request s = (case request of
     None \<Rightarrow> Some ([], s)
   | Some request \<Rightarrow>
       (case handle_dns_admission env (cp_store s) request (mo_utc mo) (cp_log s) of
          None \<Rightarrow> None
        | Some (response, log) \<Rightarrow>
            Some (post_result node_id connector_id (mo_connection mo)
              (DnsResult (da_correlation_id request) response) (s\<lparr>cp_log := log\<rparr>))))"

definition handle_release ::
  "control_env \<Rightarrow> moment \<Rightarrow> flow_release_request option \<Rightarrow> control_plane \<Rightarrow> control_plane" where
  "handle_release env mo request s = (case request of
     None \<Rightarrow> s
   | Some request \<Rightarrow>
       s\<lparr>cp_table := release (rl_flow_id request) (mo_now mo) (cp_table s),
         cp_log := handle_flow_release (ce_disk env) request (cp_log s)\<rparr>)"

definition handle_message ::
  "control_env \<Rightarrow> moment \<Rightarrow> string \<Rightarrow> string \<Rightarrow> poll_message \<Rightarrow> control_plane \<Rightarrow>
   (posted list \<times> control_plane) option" where
  "handle_message env mo node_id connector_id message s =
     (if pm_kind message = ''admission'' then handle_admission env mo node_id connector_id (pm_admission message) s
      else if pm_kind message = ''dns_admission'' then handle_dns env mo node_id connector_id (pm_dns_admission message) s
      else if pm_kind message = ''release'' then Some ([], handle_release env mo (pm_release message) s)
      else Some ([], s))"

text \<open>
  \<open>dispatch_message\<close>: an admission becomes a task of its own when a slot is free (\<open>None\<close>: the poll
  loop waits for one); anything else is handled at once. \<open>in_flight\<close> are the tasks not yet done.
\<close>

definition dispatch_message ::
  "control_env \<Rightarrow> moment \<Rightarrow> string \<Rightarrow> string \<Rightarrow> poll_message \<Rightarrow> poll_message list \<Rightarrow> control_plane \<Rightarrow>
   (poll_message list \<times> (posted list \<times> control_plane) option) option" where
  "dispatch_message env mo node_id connector_id message in_flight s =
     (if pm_kind message \<noteq> ''admission'' \<and> pm_kind message \<noteq> ''dns_admission''
      then Some (in_flight, handle_message env mo node_id connector_id message s)
      else if length in_flight < MAX_CONCURRENT_ADMISSIONS_PER_NODE
      then Some (in_flight @ [message], Some ([], s))
      else None)"

text \<open>
  One turn of \<open>run_poller\<close>: connect (registering the port), poll, and dispatch what a successful
  answer says. \<open>got\<close> is the HTTP exchange's status and what serde made of its body; \<open>None\<close> when it
  failed or timed out. The flag says that the turn ends with the back-off sleep.
\<close>

datatype poll_turn =
    PollBackoff
  | PollWaits
  | PollDone "poll_message list" "posted list"

definition poller_turn ::
  "control_env \<Rightarrow> moment \<Rightarrow> string \<Rightarrow> string \<Rightarrow> connection \<Rightarrow> (nat \<times> poll_message option) option \<Rightarrow>
   poll_message list \<Rightarrow> control_plane \<Rightarrow> (poll_turn \<times> control_plane) option" where
  "poller_turn env mo node_id connector_id poll_connection got in_flight s =
     (let (connected, table) = connect_registered node_id poll_connection (cp_table s);
          s = s\<lparr>cp_table := table\<rparr>
      in if \<not> connected then Some (PollBackoff, s)
         else (case got of
           Some (status, Some message) \<Rightarrow>
             if \<not> (200 \<le> status \<and> status < 300) then Some (PollBackoff, s)
             else (case dispatch_message env mo node_id connector_id message in_flight s of
                     None \<Rightarrow> Some (PollWaits, s)
                   | Some (in_flight, None) \<Rightarrow> None
                   | Some (in_flight, Some (posts, s)) \<Rightarrow> Some (PollDone in_flight posts, s))
         | _ \<Rightarrow> Some (PollBackoff, s)))"

section \<open>The pollers follow the node list\<close>

definition pollers_ok :: "admission_pollers \<Rightarrow> bool" where
  "pollers_ok p \<longleftrightarrow> hm_ok (pl_tasks p) \<and>
     (\<forall>n task. hm_get (pl_tasks p) n = Some task \<longrightarrow>
        pl_connector_id p = Some (pt_connector_id task) \<and> pt_spawn task < pl_spawned p)"

lemma pollers_ok_new: "pollers_ok pollers_new"
  by (simp add: pollers_ok_def pollers_new_def)

lemma start_poller_ok:
  "pollers_ok p \<Longrightarrow> pl_connector_id p = Some c \<Longrightarrow>
     pollers_ok (start_poller c node p) \<and> pl_connector_id (start_poller c node p) = Some c"
  by (auto simp: pollers_ok_def start_poller_def hm_simps hm_oks less_SucI split: if_splits)

lemma start_poller_get:
  "hm_get (pl_tasks (start_poller c node p)) n =
     (if n = hn_node_id node \<and> hm_get (pl_tasks p) n = None
      then Some \<lparr>pt_connector_id = c, pt_spawn = pl_spawned p\<rparr> else hm_get (pl_tasks p) n)"
  by (auto simp: start_poller_def hm_simps hm_contains_def)

lemma fold_start_ok:
  "pollers_ok p \<Longrightarrow> pl_connector_id p = Some c \<Longrightarrow>
     pollers_ok (fold (start_poller c) nodes p) \<and> pl_connector_id (fold (start_poller c) nodes p) = Some c"
  by (induction nodes arbitrary: p) (auto simp: start_poller_ok)

lemma fold_start_keeps:
  "hm_get (pl_tasks p) n = Some task \<Longrightarrow> hm_get (pl_tasks (fold (start_poller c) nodes p)) n = Some task"
  by (induction nodes arbitrary: p) (auto simp: start_poller_get)

lemma fold_start_running:
  "hm_get (pl_tasks (fold (start_poller c) nodes p)) n \<noteq> None \<longleftrightarrow>
     hm_get (pl_tasks p) n \<noteq> None \<or> n \<in> hn_node_id ` set nodes"
  by (induction nodes arbitrary: p) (auto simp: start_poller_get)

text \<open>The pollers as they are when the spawning loop starts.\<close>

definition kept_pollers :: "string \<Rightarrow> heartbeat_node list \<Rightarrow> admission_pollers \<Rightarrow> admission_pollers" where
  "kept_pollers c nodes p =
     (let p = (if pl_connector_id p \<noteq> Some c then (stop_all p)\<lparr>pl_connector_id := Some c\<rparr> else p)
      in p\<lparr>pl_tasks := hm_retain (\<lambda>n _. n \<in> hn_node_id ` set nodes) (pl_tasks p)\<rparr>)"

lemma sync_pollers_eq:
  "\<not> is_blank c \<Longrightarrow> sync_pollers c nodes p = fold (start_poller c) nodes (kept_pollers c nodes p)"
  by (simp add: sync_pollers_def kept_pollers_def Let_def)

lemma kept_pollers_get:
  "pollers_ok p \<Longrightarrow> hm_get (pl_tasks (kept_pollers c nodes p)) n =
     (if pl_connector_id p = Some c \<and> n \<in> hn_node_id ` set nodes then hm_get (pl_tasks p) n else None)"
  by (auto simp: kept_pollers_def stop_all_def pollers_ok_def hm_simps Let_def split: option.split)

lemma kept_pollers_ok:
  "pollers_ok p \<Longrightarrow> pollers_ok (kept_pollers c nodes p) \<and> pl_connector_id (kept_pollers c nodes p) = Some c"
  by (auto simp: kept_pollers_def stop_all_def pollers_ok_def hm_simps hm_oks Let_def split: option.splits if_splits)

lemma sync_pollers_ok: "pollers_ok p \<Longrightarrow> pollers_ok (sync_pollers c nodes p)"
proof (cases "is_blank c")
  case True
  assume "pollers_ok p"
  with True show ?thesis by (simp add: sync_pollers_def stop_all_def pollers_ok_def)
next
  case False
  assume "pollers_ok p"
  with False show ?thesis
    using fold_start_ok [of "kept_pollers c nodes p" c nodes] kept_pollers_ok [of p c nodes]
    by (simp add: sync_pollers_eq)
qed

text \<open>A poller that runs after a sync ran before it, or is a new task.\<close>

lemma fold_start_spawned:
  "pl_spawned p \<le> pl_spawned (fold (start_poller c) nodes p) \<and>
   (hm_get (pl_tasks (fold (start_poller c) nodes p)) n = Some task \<longrightarrow>
      hm_get (pl_tasks p) n = Some task \<or> pl_spawned p \<le> pt_spawn task)"
proof (induction nodes arbitrary: p)
  case (Cons node nodes)
  have "pl_spawned p \<le> pl_spawned (start_poller c node p)" by (simp add: start_poller_def)
  with Cons [of "start_poller c node p"] show ?case by (auto simp: start_poller_get split: if_splits)
qed simp

lemma sync_pollers_spawned:
  assumes "pollers_ok p"
  shows "pl_spawned p \<le> pl_spawned (sync_pollers c nodes p)"
    and "hm_get (pl_tasks (sync_pollers c nodes p)) n = Some task \<Longrightarrow>
      hm_get (pl_tasks p) n = Some task \<or> pl_spawned p \<le> pt_spawn task"
proof -
  have k: "pl_spawned (kept_pollers c nodes p) = pl_spawned p"
    by (simp add: kept_pollers_def stop_all_def Let_def)
  show "pl_spawned p \<le> pl_spawned (sync_pollers c nodes p)"
    using fold_start_spawned [of "kept_pollers c nodes p" c nodes] k
    by (cases "is_blank c") (simp_all add: sync_pollers_eq, simp add: sync_pollers_def stop_all_def)
  show "hm_get (pl_tasks p) n = Some task \<or> pl_spawned p \<le> pt_spawn task"
    if "hm_get (pl_tasks (sync_pollers c nodes p)) n = Some task"
  proof (cases "is_blank c")
    case True
    with that show ?thesis by (simp add: sync_pollers_def stop_all_def)
  next
    case False
    with that fold_start_spawned [of "kept_pollers c nodes p" c nodes n task] k show ?thesis
      by (auto simp: sync_pollers_eq kept_pollers_get [OF assms] split: if_splits)
  qed
qed

theorem pollers_follow_the_node_list:
  assumes "pollers_ok p"
  shows "pollers_ok (sync_pollers c nodes p) \<and>
    (hm_get (pl_tasks (sync_pollers c nodes p)) n \<noteq> None \<longleftrightarrow> \<not> is_blank c \<and> n \<in> hn_node_id ` set nodes) \<and>
    (\<forall>task. hm_get (pl_tasks (sync_pollers c nodes p)) n = Some task \<longrightarrow> pt_connector_id task = c) \<and>
    (\<forall>task. hm_get (pl_tasks p) n = Some task \<and> pl_connector_id p = Some c \<and> \<not> is_blank c \<and>
        n \<in> hn_node_id ` set nodes \<longrightarrow> hm_get (pl_tasks (sync_pollers c nodes p)) n = Some task)"
proof (cases "is_blank c")
  case True
  then show ?thesis
    using assms by (auto simp: sync_pollers_def stop_all_def pollers_ok_def)
next
  case False
  have ok: "pollers_ok (fold (start_poller c) nodes (kept_pollers c nodes p))"
    "pl_connector_id (fold (start_poller c) nodes (kept_pollers c nodes p)) = Some c"
    using fold_start_ok kept_pollers_ok [OF assms] by blast+
  then have spawned: "pt_connector_id task = c"
    if "hm_get (pl_tasks (sync_pollers c nodes p)) n = Some task" for task
    using that by (auto simp: sync_pollers_eq [OF False] pollers_ok_def)
  have running: "hm_get (pl_tasks (sync_pollers c nodes p)) n \<noteq> None \<longleftrightarrow> n \<in> hn_node_id ` set nodes"
    unfolding sync_pollers_eq [OF False] fold_start_running
    by (simp add: kept_pollers_get [OF assms] del: not_None_eq)
  have kept: "hm_get (pl_tasks (sync_pollers c nodes p)) n = Some task"
    if "hm_get (pl_tasks p) n = Some task \<and> pl_connector_id p = Some c \<and> n \<in> hn_node_id ` set nodes" for task
    unfolding sync_pollers_eq [OF False]
    by (rule fold_start_keeps) (use that in \<open>simp add: kept_pollers_get [OF assms]\<close>)
  show ?thesis
    using sync_pollers_ok [OF assms] False running spawned kept by blast
qed

definition ex_polled_node :: heartbeat_node where
  "ex_polled_node = \<lparr>hn_node_id = ''n-1'', hn_ip_address = ''198.51.100.7'', hn_wireguard_public_key = None\<rparr>"

lemma pollers_follow_the_node_list_witness:
  "hm_get (pl_tasks (sync_pollers ''c-1'' [ex_polled_node] pollers_new)) ''n-1'' \<noteq> None \<and>
   hm_get (pl_tasks (sync_pollers ''c-1'' [ex_polled_node] pollers_new)) ''n-2'' = None"
proof -
  have "\<not> is_blank ''c-1''"
    by (simp add: is_blank_def trim_str_id starts_white_def ends_white_def white_space_def)
  then show ?thesis
    using pollers_follow_the_node_list [OF pollers_ok_new, of "''c-1''" "[ex_polled_node]" "''n-1''"]
      pollers_follow_the_node_list [OF pollers_ok_new, of "''c-1''" "[ex_polled_node]" "''n-2''"]
    by (simp add: ex_polled_node_def)
qed

end
