(* ===== verification/Reconcile.thy ===== *)
theory Reconcile
  imports Access_Control Gateway_End Flow_Table_Props
    "HOL-Library.Multiset" "HOL-Library.List_Lexorder" "HOL-Library.Char_ord" "HOL-Library.Product_Lexorder" "HOL-Library.Option_ord"
begin

text \<open>
  What a newly applied package changes, from \<open>src/src/main.rs\<close>: the hosts reported as unresolved, the
  flows whose entitlement was dropped and their gateway-end reports, the flows whose port rule was
  removed, and the audit entries of the package. The digest crates are parameters.
\<close>


section \<open>The endpoint hosts\<close>

definition collect_endpoint_hosts :: "policy_bundle list \<Rightarrow> string list" where
  "collect_endpoint_hosts bundles = map pr_internal_host (concat (map bundle_rules bundles))"

text \<open>\<open>sort\<close>, \<open>dedup\<close> and \<open>retain\<close>; strings compare byte by byte.\<close>

definition unresolved_hosts_in :: "policy_bundle list \<Rightarrow> dns_cache \<Rightarrow> string list" where
  "unresolved_hosts_in bundles dns_cache =
     filter (\<lambda>host. dns_resolve dns_cache host = None)
       (remdups_adj (sort (collect_endpoint_hosts bundles)))"

section \<open>Dropped entitlements\<close>

definition still_entitled :: "policy_bundle \<Rightarrow> policy_bundle list \<Rightarrow> string list" where
  "still_entitled old_bundle new_bundles =
     (case find (\<lambda>bundle. pb_gateway_id bundle = pb_gateway_id old_bundle) new_bundles of
        Some bundle \<Rightarrow> List.map_filter en_device_public_key (pb_entitlement_list bundle)
      | None \<Rightarrow> [])"

text \<open>
  The body of the inner loop. The reports are pushed in order; \<open>next_id n\<close> is what the \<open>n\<close>-th call of
  \<open>new_report_id\<close> returns.
\<close>

definition drop_entitlement ::
  "(nat \<Rightarrow> string) \<Rightarrow> i64 \<Rightarrow> policy_bundle \<Rightarrow> policy_bundle list \<Rightarrow> entitlement \<Rightarrow>
   gateway_end_report list \<times> flow_table \<Rightarrow> gateway_end_report list \<times> flow_table" where
  "drop_entitlement next_id now_ms old_bundle new_bundles entitlement rt = (case rt of (reports, table) \<Rightarrow>
     (case en_device_public_key entitlement of
        None \<Rightarrow> (reports, table)
      | Some device_public_key \<Rightarrow>
          if device_public_key \<in> set (still_entitled old_bundle new_bundles) then (reports, table)
          else
            (let (evicted, table) = evict_gateway_device (pb_gateway_id old_bundle) device_public_key table
             in if evicted > 0
                then (reports @ [\<lparr>gr_report_id = next_id (length reports),
                        gr_gateway_id = pb_gateway_id old_bundle, gr_user_id = en_user_id entitlement,
                        gr_device_public_key = device_public_key, gr_ended_at = now_ms,
                        gr_flows_ended = evicted\<rparr>], table)
                else (reports, table))))"

definition reconcile_dropped_entitlements ::
  "(nat \<Rightarrow> string) \<Rightarrow> policy_bundle list \<Rightarrow> policy_bundle list \<Rightarrow> i64 \<Rightarrow> flow_table \<Rightarrow>
   gateway_end_report list \<times> flow_table" where
  "reconcile_dropped_entitlements next_id old_bundles new_bundles now_ms table =
     fold (\<lambda>old_bundle. fold (drop_entitlement next_id now_ms old_bundle new_bundles)
            (pb_entitlement_list old_bundle)) old_bundles ([], table)"

text \<open>The audit entries of the reports, then the queue.\<close>

definition queue_gateway_end_reports ::
  "disk \<Rightarrow> (nat \<Rightarrow> string option) \<Rightarrow> gateway_end_report list \<Rightarrow> audit_log \<times> gateway_end_queue \<Rightarrow>
   audit_log \<times> gateway_end_queue" where
  "queue_gateway_end_reports disk queue_disk reports lq = (case lq of (log, queue) \<Rightarrow>
     (fold (\<lambda>report. try_record disk (FlowsEnded (gr_gateway_id report) (gr_user_id report)
              (gr_device_public_key report) (gr_flows_ended report) (gr_report_id report))) reports log,
      snd (enqueue queue_disk reports queue)))"

section \<open>The audit entries of an applied package\<close>

text \<open>serde_json, ring's SHA-256 and the hex crate.\<close>

record digest_lib =
  dg_json :: "(string \<times> string option) list \<Rightarrow> bytes"
  dg_sha256 :: "bytes \<Rightarrow> bytes"
  dg_hex :: "bytes \<Rightarrow> string"

definition entitlement_list_sha256 :: "digest_lib \<Rightarrow> entitlement list \<Rightarrow> string" where
  "entitlement_list_sha256 lib entitlements =
     (let pairs = map (\<lambda>e. (en_user_id e, en_device_public_key e)) entitlements
      in dg_hex lib (dg_sha256 lib (dg_json lib (sort pairs))))"

definition configuration :: "policy_bundle \<Rightarrow> string \<times> string \<times> port_rule list" where
  "configuration bundle = (pb_location bundle, pb_hostname bundle, bundle_rules bundle)"

definition bundle_unchanged :: "policy_bundle list option \<Rightarrow> policy_bundle \<Rightarrow> bool" where
  "bundle_unchanged old_bundles bundle =
     (case Option.bind old_bundles (find (\<lambda>o'. pb_gateway_id o' = pb_gateway_id bundle)) of
        Some old \<Rightarrow> configuration old = configuration bundle
      | None \<Rightarrow> False)"

definition bundle_audit_events ::
  "digest_lib \<Rightarrow> policy_bundle list option \<Rightarrow> policy_bundle list \<Rightarrow> audit_event list" where
  "bundle_audit_events lib old_bundles new_bundles =
     concat (map (\<lambda>bundle.
       (if bundle_unchanged old_bundles bundle then []
        else [PolicyBundleApplied (pb_gateway_id bundle) (pb_location bundle) (pb_hostname bundle)
                (bundle_rules bundle)]) @
       [EntitlementListReceived (pb_gateway_id bundle) (length (pb_entitlement_list bundle))
          (entitlement_list_sha256 lib (pb_entitlement_list bundle))]) new_bundles)"

section \<open>Changed rules\<close>

definition rule_change_event :: "string \<Rightarrow> rule_ended_flow list \<Rightarrow> audit_event" where
  "rule_change_event gateway_id ended =
     FlowsEndedByRuleChange gateway_id (length ended)
       (map (\<lambda>flow. \<lparr>ef_flow_id = re_flow_id flow, ef_device_public_key = re_device_public_key flow\<rparr>) ended)"

text \<open>The loop of \<open>reconcile_endpoint_changes\<close>; \<open>now\<close> is the clock \<open>update_rules\<close> reads.\<close>

fun refresh_bundles ::
  "instant \<Rightarrow> policy_bundle list \<Rightarrow> flow_table \<Rightarrow> audit_event list \<times> flow_table" where
  "refresh_bundles now [] table = ([], table)"
| "refresh_bundles now (bundle # bundles) table =
     (let (ended, table) = update_rules (pb_gateway_id bundle) (bundle_rules bundle) now table;
          (events, table) = refresh_bundles now bundles table
      in (if ended = [] then events else rule_change_event (pb_gateway_id bundle) ended # events, table))"

definition reconcile_endpoint_changes ::
  "policy_bundle list \<Rightarrow> instant \<Rightarrow> flow_table \<Rightarrow> audit_event list \<times> flow_table" where
  "reconcile_endpoint_changes new_bundles now table =
     refresh_bundles now new_bundles
       (retain_gateway_rules (\<lambda>gateway_id. \<exists>bundle \<in> set new_bundles. pb_gateway_id bundle = gateway_id) table)"

section \<open>The hosts reported as unresolved\<close>

lemma distinct_remdups_adj_sorted: "sorted xs \<Longrightarrow> distinct (remdups_adj xs)"
proof (induction xs rule: remdups_adj.induct)
  case (3 x y xs)
  have "x \<notin> set (y # xs)" if "x \<noteq> y"
    using 3(3) that by (auto simp: order.antisym)
  with 3 show ?case by auto
qed auto

theorem unresolved_hosts_exact:
  "set (unresolved_hosts_in bundles cache) =
     {pr_internal_host rule | rule bundle. bundle \<in> set bundles \<and> rule \<in> set (bundle_rules bundle) \<and>
        dns_resolve cache (pr_internal_host rule) = None} \<and>
   sorted (unresolved_hosts_in bundles cache) \<and> distinct (unresolved_hosts_in bundles cache) \<and>
   list_all (\<lambda>host. parse_ipv4 host = None) (unresolved_hosts_in bundles cache)"
proof (intro conjI)
  have s: "sorted (remdups_adj (sort (collect_endpoint_hosts bundles)))"
    by (simp add: sorted_remdups_adj)
  then show "sorted (unresolved_hosts_in bundles cache)"
    by (simp add: unresolved_hosts_in_def sorted_wrt_filter)
  show "distinct (unresolved_hosts_in bundles cache)"
    by (simp add: unresolved_hosts_in_def distinct_remdups_adj_sorted)
  show "set (unresolved_hosts_in bundles cache) =
     {pr_internal_host rule | rule bundle. bundle \<in> set bundles \<and> rule \<in> set (bundle_rules bundle) \<and>
        dns_resolve cache (pr_internal_host rule) = None}"
    by (auto simp: unresolved_hosts_in_def collect_endpoint_hosts_def)
  show "list_all (\<lambda>host. parse_ipv4 host = None) (unresolved_hosts_in bundles cache)"
    using dns.unresolved_not_literal [of cache] by (auto simp: unresolved_hosts_in_def list_all_iff)
qed

section \<open>What a dropped entitlement ends\<close>

text \<open>A gateway and device the old bundles entitled and the new ones do not.\<close>

definition dropped :: "policy_bundle list \<Rightarrow> policy_bundle list \<Rightarrow> string \<Rightarrow> string \<Rightarrow> bool" where
  "dropped old_bundles new_bundles g dev \<longleftrightarrow>
     (\<exists>old_bundle \<in> set old_bundles. pb_gateway_id old_bundle = g \<and>
        (\<exists>e \<in> set (pb_entitlement_list old_bundle). en_device_public_key e = Some dev) \<and>
        dev \<notin> set (still_entitled old_bundle new_bundles))"

lemma evict_gateway_device_flows:
  assumes "ft_inv t"
  shows "hm_get (ft_flows (snd (evict_gateway_device g dev t))) key =
      (case hm_get (ft_flows t) key of None \<Rightarrow> None
       | Some f \<Rightarrow> if af_gateway_id f = g \<and> af_device_public_key f = dev then None else Some f)"
  unfolding evict_gateway_device_def remove_flows_where_flows [OF ft_inv_flows_hm_ok [OF assms]]
  by (auto split: option.split)

text \<open>How many flows a device has at a gateway.\<close>

definition flows_of :: "string \<Rightarrow> string \<Rightarrow> flow_table \<Rightarrow> nat" where
  "flows_of g dev t = card {key. \<exists>f. hm_get (ft_flows t) key = Some f \<and> af_gateway_id f = g \<and> af_device_public_key f = dev}"

lemma evict_count:
  assumes "ft_inv t"
  shows "fst (evict_gateway_device g dev t) = flows_of g dev t"
  unfolding evict_gateway_device_def flows_of_def
    remove_flows_where_count [OF ft_inv_flows_hm_ok [OF assms]] by simp

text \<open>The device evictions a reconciliation makes, in order: gateway, user and device.\<close>

definition evictions :: "policy_bundle list \<Rightarrow> policy_bundle list \<Rightarrow> (string \<times> string \<times> string) list" where
  "evictions old_bundles new_bundles = concat (map (\<lambda>old_bundle.
     List.map_filter (\<lambda>e. case en_device_public_key e of
         None \<Rightarrow> None
       | Some dev \<Rightarrow> if dev \<in> set (still_entitled old_bundle new_bundles) then None
                     else Some (pb_gateway_id old_bundle, en_user_id e, dev))
       (pb_entitlement_list old_bundle)) old_bundles)"

definition evict_one ::
  "(nat \<Rightarrow> string) \<Rightarrow> i64 \<Rightarrow> string \<times> string \<times> string \<Rightarrow> gateway_end_report list \<times> flow_table \<Rightarrow>
   gateway_end_report list \<times> flow_table" where
  "evict_one next_id now_ms gud rt = (case (gud, rt) of ((g, u, dev), (reports, table)) \<Rightarrow>
     (let (evicted, table) = evict_gateway_device g dev table
      in (if evicted > 0
          then reports @ [\<lparr>gr_report_id = next_id (length reports), gr_gateway_id = g, gr_user_id = u,
                 gr_device_public_key = dev, gr_ended_at = now_ms, gr_flows_ended = evicted\<rparr>]
          else reports, table)))"

lemma fold_drop_entitlement:
  "fold (drop_entitlement next_id now_ms old_bundle new_bundles) es rt =
   fold (evict_one next_id now_ms) (List.map_filter (\<lambda>e. case en_device_public_key e of
         None \<Rightarrow> None
       | Some dev \<Rightarrow> if dev \<in> set (still_entitled old_bundle new_bundles) then None
                     else Some (pb_gateway_id old_bundle, en_user_id e, dev)) es) rt"
  by (induction es arbitrary: rt)
    (auto simp: map_filter_simps drop_entitlement_def evict_one_def split_beta Let_def split: option.split)

lemma reconcile_evicts:
  "reconcile_dropped_entitlements next_id old_bundles new_bundles now_ms table =
   fold (evict_one next_id now_ms) (evictions old_bundles new_bundles) ([], table)"
proof -
  have "fold (\<lambda>old_bundle. fold (drop_entitlement next_id now_ms old_bundle new_bundles)
          (pb_entitlement_list old_bundle)) bs rt =
      fold (evict_one next_id now_ms) (evictions bs new_bundles) rt" for bs rt
    by (induction bs arbitrary: rt) (simp_all add: evictions_def fold_drop_entitlement)
  then show ?thesis by (simp add: reconcile_dropped_entitlements_def)
qed

definition evicted_pairs :: "(string \<times> string \<times> string) list \<Rightarrow> (string \<times> string) set" where
  "evicted_pairs gs = (\<lambda>(g, u, dev). (g, dev)) ` set gs"

lemma evicted_pairs_iff:
  "(g, dev) \<in> evicted_pairs (evictions old_bundles new_bundles) \<longleftrightarrow> dropped old_bundles new_bundles g dev"
proof -
  have mf: "y \<in> set (List.map_filter f xs) \<longleftrightarrow> (\<exists>x \<in> set xs. f x = Some y)" for f :: "'a \<Rightarrow> 'b option" and xs y
    by (force simp: map_filter_def)
  have "(g, dev) \<in> evicted_pairs (evictions old_bundles new_bundles) \<longleftrightarrow>
      (\<exists>u. (g, u, dev) \<in> set (evictions old_bundles new_bundles))"
    by (force simp: evicted_pairs_def)
  also have "\<dots> \<longleftrightarrow> (\<exists>u. \<exists>b \<in> set old_bundles. \<exists>e \<in> set (pb_entitlement_list b).
      en_device_public_key e = Some dev \<and> dev \<notin> set (still_entitled b new_bundles) \<and>
      g = pb_gateway_id b \<and> u = en_user_id e)"
    (is "?l = ?r")
  proof
    show "?l \<Longrightarrow> ?r" by (fastforce simp: evictions_def mf split: option.splits if_splits)
    assume ?r
    then obtain b e where "b \<in> set old_bundles" "e \<in> set (pb_entitlement_list b)"
      "en_device_public_key e = Some dev" "dev \<notin> set (still_entitled b new_bundles)" "g = pb_gateway_id b" by blast
    then show ?l by (intro exI [of _ "en_user_id e"]) (force simp: evictions_def mf)
  qed
  finally show ?thesis by (auto simp: dropped_def)
qed

text \<open>What a prefix of the evictions has done to the table and to the reports.\<close>

definition evicts_to ::
  "flow_table \<Rightarrow> (string \<times> string) set \<Rightarrow> gateway_end_report list \<times> flow_table \<Rightarrow> bool" where
  "evicts_to t ps rt \<longleftrightarrow> ft_inv (snd rt) \<and>
     (\<forall>key. hm_get (ft_flows (snd rt)) key = (case hm_get (ft_flows t) key of None \<Rightarrow> None
        | Some f \<Rightarrow> if (af_gateway_id f, af_device_public_key f) \<in> ps then None else Some f)) \<and>
     (\<forall>r \<in> set (fst rt). gr_flows_ended r = flows_of (gr_gateway_id r) (gr_device_public_key r) t) \<and>
     (\<lambda>r. (gr_gateway_id r, gr_device_public_key r)) ` set (fst rt) = {(g, d) \<in> ps. flows_of g d t > 0} \<and>
     distinct (map (\<lambda>r. (gr_gateway_id r, gr_device_public_key r)) (fst rt))"

lemma evict_gateway_device_inv': "ft_inv t \<Longrightarrow> ft_inv (snd (evict_gateway_device g dev t))"
  by (rule evict_gateway_device_inv)

lemma evicts_to_step:
  assumes "evicts_to t ps rt"
  shows "evicts_to t (insert (g, dev) ps) (evict_one next_id now_ms (g, u, dev) rt)"
proof -
  obtain reports t1 where rt: "rt = (reports, t1)" by force
  have i: "ft_inv t1" and fl: "hm_get (ft_flows t1) key = (case hm_get (ft_flows t) key of None \<Rightarrow> None
        | Some f \<Rightarrow> if (af_gateway_id f, af_device_public_key f) \<in> ps then None else Some f)" for key
    using assms by (simp_all add: evicts_to_def rt)
  have n: "flows_of g dev t1 = (if (g, dev) \<in> ps then 0 else flows_of g dev t)"
  proof (cases "(g, dev) \<in> ps")
    case True
    then have "{key. \<exists>f. hm_get (ft_flows t1) key = Some f \<and> af_gateway_id f = g \<and> af_device_public_key f = dev} = {}"
      by (auto simp: fl split: option.splits if_splits)
    then show ?thesis using True unfolding flows_of_def by (simp only: card.empty if_True)
  next
    case False
    then have "{key. \<exists>f. hm_get (ft_flows t1) key = Some f \<and> af_gateway_id f = g \<and> af_device_public_key f = dev} =
      {key. \<exists>f. hm_get (ft_flows t) key = Some f \<and> af_gateway_id f = g \<and> af_device_public_key f = dev}"
      by (auto simp: fl split: option.splits if_splits)
    then show ?thesis using False unfolding flows_of_def by (simp only: if_False)
  qed
  let ?t2 = "snd (evict_gateway_device g dev t1)"
  have t2: "ft_inv ?t2" "hm_get (ft_flows ?t2) key = (case hm_get (ft_flows t) key of None \<Rightarrow> None
        | Some f \<Rightarrow> if (af_gateway_id f, af_device_public_key f) \<in> insert (g, dev) ps then None else Some f)" for key
    using i by (auto simp: evict_gateway_device_inv evict_gateway_device_flows [OF i] fl split: option.split)
  have one: "evict_one next_id now_ms (g, u, dev) rt =
      (if flows_of g dev t1 > 0
       then reports @ [\<lparr>gr_report_id = next_id (length reports), gr_gateway_id = g, gr_user_id = u,
              gr_device_public_key = dev, gr_ended_at = now_ms, gr_flows_ended = flows_of g dev t1\<rparr>]
       else reports, ?t2)"
    using evict_count [OF i, of g dev] by (simp add: evict_one_def rt split_beta Let_def)
  show ?thesis
  proof (cases "(g, dev) \<in> ps \<or> flows_of g dev t = 0")
    case True
    then have "evict_one next_id now_ms (g, u, dev) rt = (reports, ?t2)"
      unfolding one using n by auto
    then show ?thesis
      using assms t2 True by (auto simp: evicts_to_def rt)
  next
    case False
    then have "evict_one next_id now_ms (g, u, dev) rt =
      (reports @ [\<lparr>gr_report_id = next_id (length reports), gr_gateway_id = g, gr_user_id = u,
              gr_device_public_key = dev, gr_ended_at = now_ms, gr_flows_ended = flows_of g dev t\<rparr>], ?t2)"
      unfolding one using n by auto
    then show ?thesis
      using assms t2 False by (auto simp: evicts_to_def rt)
  qed
qed

lemma fold_evicts_to:
  "evicts_to t ps rt \<Longrightarrow> evicts_to t (ps \<union> evicted_pairs gs) (fold (evict_one next_id now_ms) gs rt)"
proof (induction gs arbitrary: ps rt)
  case Nil
  then show ?case by (simp add: evicted_pairs_def)
next
  case (Cons gud gs)
  obtain g u dev where g: "gud = (g, u, dev)" by (cases gud) auto
  have "insert (g, dev) ps \<union> evicted_pairs gs = ps \<union> evicted_pairs (gud # gs)"
    by (simp add: evicted_pairs_def g)
  with Cons.IH [OF evicts_to_step [OF Cons.prems, of g dev next_id now_ms u]] show ?case
    by (simp add: g)
qed

lemma reconcile_evicts_to:
  assumes "ft_inv t"
  shows "evicts_to t {(g, d). dropped old_bundles new_bundles g d}
    (reconcile_dropped_entitlements next_id old_bundles new_bundles now_ms t)"
proof -
  have "evicts_to t {} ([], t)"
    using assms by (auto simp: evicts_to_def split: option.split)
  from fold_evicts_to [OF this, of "evictions old_bundles new_bundles" next_id now_ms]
  have "evicts_to t (evicted_pairs (evictions old_bundles new_bundles))
      (reconcile_dropped_entitlements next_id old_bundles new_bundles now_ms t)"
    by (simp add: reconcile_evicts)
  moreover have "evicted_pairs (evictions old_bundles new_bundles) = {(g, d). dropped old_bundles new_bundles g d}"
    using evicted_pairs_iff by auto
  ultimately show ?thesis by simp
qed

text \<open>
  C22: a heartbeat that drops entitlements ends exactly the flows of the devices dropped from
  their gateways and reports each such gateway and device that had flows once, with the number
  of flows ended
\<close>

theorem dropped_entitlements_end_exactly_their_flows:
  assumes "ft_inv t"
    and "reconcile_dropped_entitlements next_id old_bundles new_bundles now_ms t = (reports, t')"
  shows "hm_get (ft_flows t') key = (case hm_get (ft_flows t) key of None \<Rightarrow> None
      | Some flow \<Rightarrow> if dropped old_bundles new_bundles (af_gateway_id flow) (af_device_public_key flow)
                     then None else Some flow) \<and>
    distinct (map (\<lambda>r. (gr_gateway_id r, gr_device_public_key r)) reports) \<and>
    (\<lambda>r. (gr_gateway_id r, gr_device_public_key r, gr_flows_ended r)) ` set reports =
      {(g, dev, flows_of g dev t) | g dev. dropped old_bundles new_bundles g dev \<and> flows_of g dev t > 0}"
proof -
  have e: "evicts_to t {(g, d). dropped old_bundles new_bundles g d} (reports, t')"
    using reconcile_evicts_to [OF assms(1)] assms(2) by metis
  have img: "(\<lambda>r. (gr_gateway_id r, gr_device_public_key r)) ` set reports =
      {(g, d). dropped old_bundles new_bundles g d \<and> flows_of g d t > 0}"
    and cnt: "\<forall>r \<in> set reports. gr_flows_ended r = flows_of (gr_gateway_id r) (gr_device_public_key r) t"
    using e by (auto simp: evicts_to_def)
  have "(\<lambda>r. (gr_gateway_id r, gr_device_public_key r, gr_flows_ended r)) ` set reports =
      (\<lambda>(g, d). (g, d, flows_of g d t)) ` (\<lambda>r. (gr_gateway_id r, gr_device_public_key r)) ` set reports"
    using cnt by (force simp: image_image)
  then show ?thesis
    using e unfolding img by (auto simp: evicts_to_def split: option.split)
qed

section \<open>What changed rules end\<close>

lemma refresh_bundles_inv: "ft_inv t \<Longrightarrow> ft_inv (snd (refresh_bundles now bundles t))"
  by (induction now bundles t rule: refresh_bundles.induct)
    (simp_all add: split_beta Let_def, metis prod.collapse update_rules_inv)

text \<open>One gateway's refresh: the flows left, the rules and the flows reported.\<close>

lemma update_rules_flow:
  assumes "ft_inv t"
  shows "hm_get (ft_flows (snd (update_rules g rules now t))) key =
      (case hm_get (ft_flows t) key of None \<Rightarrow> None
       | Some flow \<Rightarrow>
           if af_gateway_id flow \<noteq> g then Some flow
           else if still_served key flow rules then Some (flow\<lparr>af_rules := rules\<rparr>) else None)"
    and "hm_get (ft_gateway_rules (snd (update_rules g rules now t))) g' =
      (if g' = g then Some rules else hm_get (ft_gateway_rules t) g')"
  using update_rules_flows [OF assms, of g rules now key] update_rules_all [OF assms, of g rules now]
  by (auto simp: unserved_def with_rules_def hm_simps split: option.split)

text \<open>The rule lists a package gives a gateway, in its order: one, none, or several when it is listed twice.\<close>

definition listings :: "policy_bundle list \<Rightarrow> string \<Rightarrow> port_rule list list" where
  "listings bundles g = map bundle_rules (filter (\<lambda>b. pb_gateway_id b = g) bundles)"

lemma listings_simps [simp]:
  "listings [] g = []"
  "listings (b # bundles) g = (if pb_gateway_id b = g then [bundle_rules b] else []) @ listings bundles g"
  by (simp_all add: listings_def)

lemma still_served_rules [simp]: "still_served key (flow\<lparr>af_rules := rules\<rparr>) = still_served key flow"
  by (rule ext) (simp add: still_served_def)

lemma refresh_bundles_flows:
  assumes "ft_inv t"
  shows "hm_get (ft_flows (snd (refresh_bundles now bundles t))) key =
      (case hm_get (ft_flows t) key of None \<Rightarrow> None
       | Some flow \<Rightarrow>
           (let ruless = listings bundles (af_gateway_id flow)
            in if ruless = [] then Some flow
               else if list_all (still_served key flow) ruless then Some (flow\<lparr>af_rules := last ruless\<rparr>) else None))"
    and "hm_get (ft_gateway_rules (snd (refresh_bundles now bundles t))) g =
      (if listings bundles g = [] then hm_get (ft_gateway_rules t) g else Some (last (listings bundles g)))"
  using assms
proof (induction bundles arbitrary: t)
  case Nil
  { case 1 show ?case by (simp split: option.split) next case 2 show ?case by simp }
next
  case (Cons b bundles)
  {
    case 1
    let ?t = "snd (update_rules (pb_gateway_id b) (bundle_rules b) now t)"
    have i: "ft_inv ?t" using 1 by (rule update_rules_inv)
    show ?case
      using Cons.IH(1) [OF i] update_rules_flow(1) [OF 1, of "pb_gateway_id b" "bundle_rules b" now key]
      by (auto simp: split_beta Let_def split: option.splits)
  next
    case 2
    let ?t = "snd (update_rules (pb_gateway_id b) (bundle_rules b) now t)"
    have i: "ft_inv ?t" using 2 by (rule update_rules_inv)
    show ?case
      using Cons.IH(2) [OF i] update_rules_flow(2) [OF 2, of "pb_gateway_id b" "bundle_rules b" now g]
      by (auto simp: split_beta Let_def split: option.splits)
  }
qed

lemma retain_rules_flows [simp]: "ft_flows (retain_gateway_rules keep t) = ft_flows t"
  by (simp add: retain_gateway_rules_def)

lemma retain_rules_get:
  "ft_inv t \<Longrightarrow> hm_get (ft_gateway_rules (retain_gateway_rules keep t)) g =
     (if keep g then hm_get (ft_gateway_rules t) g else None)"
  by (auto simp: retain_gateway_rules_def ft_inv_def hm_simps split: option.split)

lemma retain_rules_inv: "ft_inv t \<Longrightarrow> ft_inv (retain_gateway_rules keep t)"
  by (rule retain_gateway_rules_inv)

text \<open>The reported gateways are those with flows ended by the change.\<close>

lemma update_rules_ended:
  assumes "ft_inv t"
  shows "fst (update_rules g rules now t) = [] \<longleftrightarrow>
    (\<forall>key flow. hm_get (ft_flows t) key = Some flow \<longrightarrow> af_gateway_id flow = g \<longrightarrow> still_served key flow rules)"
proof -
  have "fst (update_rules g rules now t) = [] \<longleftrightarrow> set (fst (update_rules g rules now t)) = {}" by simp
  then show ?thesis
    unfolding update_rules_reports [OF assms, of g rules now] unserved_def by blast
qed

lemma refresh_bundles_events:
  assumes "ft_inv t"
  shows "(\<exists>n fs. FlowsEndedByRuleChange g n fs \<in> set (fst (refresh_bundles now bundles t))) \<longleftrightarrow>
    (\<exists>key flow. hm_get (ft_flows t) key = Some flow \<and> af_gateway_id flow = g \<and>
       \<not> list_all (still_served key flow) (listings bundles g))"
  using assms
proof (induction bundles arbitrary: t)
  case Nil
  then show ?case by simp
next
  case (Cons b bundles)
  let ?t = "snd (update_rules (pb_gateway_id b) (bundle_rules b) now t)"
  have i: "ft_inv ?t" using Cons.prems by (rule update_rules_inv)
  note f = update_rules_flow(1) [OF Cons.prems, of "pb_gateway_id b" "bundle_rules b" now]
  have split: "(\<exists>n fs. FlowsEndedByRuleChange g n fs \<in> set (fst (refresh_bundles now (b # bundles) t))) \<longleftrightarrow>
      g = pb_gateway_id b \<and> fst (update_rules (pb_gateway_id b) (bundle_rules b) now t) \<noteq> [] \<or>
      (\<exists>n fs. FlowsEndedByRuleChange g n fs \<in> set (fst (refresh_bundles now bundles ?t)))"
    by (auto simp: split_beta Let_def rule_change_event_def)
  show ?case
  proof (cases "g = pb_gateway_id b")
    case True
    have "(\<exists>key flow. hm_get (ft_flows ?t) key = Some flow \<and> af_gateway_id flow = g \<and>
        \<not> list_all (still_served key flow) (listings bundles g)) \<longleftrightarrow>
      (\<exists>key flow. hm_get (ft_flows t) key = Some flow \<and> af_gateway_id flow = g \<and>
        still_served key flow (bundle_rules b) \<and> \<not> list_all (still_served key flow) (listings bundles g))"
      unfolding f by (auto simp: True split: option.splits if_splits)
    then show ?thesis
      unfolding split Cons.IH [OF i] update_rules_ended [OF Cons.prems] using True by auto
  next
    case False
    have "(\<exists>key flow. hm_get (ft_flows ?t) key = Some flow \<and> af_gateway_id flow = g \<and>
        \<not> list_all (still_served key flow) (listings bundles g)) \<longleftrightarrow>
      (\<exists>key flow. hm_get (ft_flows t) key = Some flow \<and> af_gateway_id flow = g \<and>
        \<not> list_all (still_served key flow) (listings bundles g))"
      unfolding f using False by (auto split: option.splits if_splits)
    then show ?thesis unfolding split Cons.IH [OF i] using False by simp
  qed
qed

text \<open>
  C23: a heartbeat's rules replace those of every flow of a listed gateway that still serves
  it, end the others, leave flows of unlisted gateways alone, become the gateways' current
  rules, and the end of flows is audited for exactly the gateways that lost one. A gateway the
  package lists more than once keeps a flow only if every one of its rule lists serves it, and
  the last of them is the one in force
\<close>

theorem changed_rules_apply_exactly:
  assumes "ft_inv t" "reconcile_endpoint_changes new_bundles now t = (events, t')"
  shows "hm_get (ft_flows t') key =
      (case hm_get (ft_flows t) key of None \<Rightarrow> None
       | Some flow \<Rightarrow>
           (let ruless = listings new_bundles (af_gateway_id flow)
            in if ruless = [] then Some flow
               else if list_all (still_served key flow) ruless then Some (flow\<lparr>af_rules := last ruless\<rparr>) else None)) \<and>
    current_rules g t' = (if listings new_bundles g = [] then None else Some (last (listings new_bundles g))) \<and>
    ((\<exists>n fs. FlowsEndedByRuleChange g n fs \<in> set events) \<longleftrightarrow>
      (\<exists>key flow. hm_get (ft_flows t) key = Some flow \<and> af_gateway_id flow = g \<and> hm_get (ft_flows t') key = None))"
proof -
  let ?keep = "\<lambda>gateway_id. \<exists>bundle \<in> set new_bundles. pb_gateway_id bundle = gateway_id"
  let ?r = "retain_gateway_rules ?keep t"
  have i: "ft_inv ?r" using assms(1) by (rule retain_rules_inv)
  have t': "t' = snd (refresh_bundles now new_bundles ?r)" and e: "events = fst (refresh_bundles now new_bundles ?r)"
    using assms(2) by (simp_all add: reconcile_endpoint_changes_def)
  have k: "?keep g \<longleftrightarrow> listings new_bundles g \<noteq> []" by (auto simp: listings_def filter_empty_conv)
  note flows = refresh_bundles_flows(1) [OF i, of now new_bundles, folded t', unfolded retain_rules_flows]
  have ends: "hm_get (ft_flows t') key = None \<longleftrightarrow> \<not> list_all (still_served key flow) (listings new_bundles (af_gateway_id flow))"
    if "hm_get (ft_flows t) key = Some flow" for key flow
    using that unfolding flows by (auto simp: Let_def)
  have "(\<exists>n fs. FlowsEndedByRuleChange g n fs \<in> set events) \<longleftrightarrow>
      (\<exists>key flow. hm_get (ft_flows t) key = Some flow \<and> af_gateway_id flow = g \<and> hm_get (ft_flows t') key = None)"
    unfolding e refresh_bundles_events [OF i] retain_rules_flows using ends by metis
  moreover have "current_rules g t' = (if listings new_bundles g = [] then None else Some (last (listings new_bundles g)))"
    unfolding t' current_rules_def refresh_bundles_flows(2) [OF i]
    using k by (simp add: retain_rules_get [OF assms(1)])
  ultimately show ?thesis using flows by blast
qed

section \<open>The audit of a package\<close>

lemma sort_mset_eq: "mset xs = mset ys \<Longrightarrow> sort xs = sort ys"
  by (metis mset_sort properties_for_sort sorted_sort)

theorem package_audit_exact:
  "PolicyBundleApplied g l h rules \<in> set (bundle_audit_events lib old new) \<longleftrightarrow>
     (\<exists>b \<in> set new. \<not> bundle_unchanged old b \<and> g = pb_gateway_id b \<and> (l, h, rules) = configuration b)"
  by (auto simp: bundle_audit_events_def configuration_def)

section \<open>Examples\<close>

definition ex_gateway :: "port_rule list \<Rightarrow> entitlement list \<Rightarrow> policy_bundle" where
  "ex_gateway rules entitlements = \<lparr>pb_gateway_id = ''g-1'', pb_location = ''loc'', pb_hostname = ''gw'',
     pb_access_mode = [], pb_endpoints = [], pb_port_rules = Some rules, pb_entitlement_list = entitlements\<rparr>"

definition ex_entitlement :: entitlement where
  "ex_entitlement = \<lparr>en_user_id = ''u-1'', en_device_public_key = Some ''dev-1''\<rparr>"

lemma dropped_entitlements_end_exactly_their_flows_witness:
  "hm_get (ft_flows (snd (reconcile_dropped_entitlements (\<lambda>_. ''r'') [ex_gateway ex_rules [ex_entitlement]]
      [ex_gateway ex_rules []] 7 (run ex_events)))) (flow_key_new ''n-1'' 40100 (Some ex_dialled)) = None"
proof -
  obtain reports t' where r: "reconcile_dropped_entitlements (\<lambda>_. ''r'') [ex_gateway ex_rules [ex_entitlement]]
      [ex_gateway ex_rules []] 7 (run ex_events) = (reports, t')" by force
  have "dropped [ex_gateway ex_rules [ex_entitlement]] [ex_gateway ex_rules []] ''g-1'' ''dev-1''"
    by (simp add: dropped_def ex_gateway_def ex_entitlement_def still_entitled_def map_filter_simps)
  then show ?thesis
    using dropped_entitlements_end_exactly_their_flows [OF run_inv r,
        of "flow_key_new ''n-1'' 40100 (Some ex_dialled)"] r
    by (simp add: ex_flow new_flow_def)
qed

lemma changed_rules_apply_exactly_witness:
  "hm_get (ft_flows (snd (reconcile_endpoint_changes [ex_gateway [] [ex_entitlement]] 0 (run ex_events))))
     (flow_key_new ''n-1'' 40100 (Some ex_dialled)) = None \<and>
   (\<exists>n fs. FlowsEndedByRuleChange ''g-1'' n fs
      \<in> set (fst (reconcile_endpoint_changes [ex_gateway [] [ex_entitlement]] 0 (run ex_events))))"
proof -
  obtain events t' where r: "reconcile_endpoint_changes [ex_gateway [] [ex_entitlement]] 0 (run ex_events) = (events, t')"
    by force
  let ?b = "ex_gateway [] [ex_entitlement]" and ?key = "flow_key_new ''n-1'' 40100 (Some ex_dialled)"
  let ?flow = "new_flow (Some ex_dialled) ''g-1'' ''f-1'' ''dev-1'' ex_rules"
  have n: "\<not> still_served ?key flow (bundle_rules ?b)" for flow
    by (simp add: still_served_def matching_rule_def rules_for_def ex_gateway_def bundle_rules_def)
  have l: "listings [?b] ''g-1'' = [bundle_rules ?b]" by (simp add: ex_gateway_def)
  have g: "af_gateway_id ?flow = ''g-1''" by (simp add: new_flow_def)
  note c = changed_rules_apply_exactly [OF run_inv r, of ?key "''g-1''"]
  have gone: "hm_get (ft_flows t') ?key = None"
    using c n l g by (simp add: ex_flow)
  moreover have "\<exists>n fs. FlowsEndedByRuleChange ''g-1'' n fs \<in> set events"
    using c gone g ex_flow by blast
  ultimately show ?thesis by (simp add: r)
qed

end
