(* ===== verification/Control_Plane.thy ===== *)
theory Control_Plane
  imports Admission_Poller Reconcile
begin

text \<open>
  The control plane as a machine: what runs between its lock acquisitions. An admission is two steps,
  the decision of \<open>authenticate_and_decide\<close> and the block of \<open>handle_flow_admission\<close> under the flow
  table's lock, with any number of admissions in between them (\<open>admission_poller.rs\<close> spawns a task for
  each). A heartbeat is three: the package is applied, dropped entitlements are reconciled, changed
  rules are reconciled (\<open>run_heartbeat\<close> of \<open>main.rs\<close>). Releases, aborted tasks and the packet loops'
  table operations come between any two. The table is changed by table operations only
  (\<open>cp_do_events\<close>), so the admission table of \<open>Flow_Machine\<close> decides every property.
\<close>

section \<open>The state and its steps\<close>

text \<open>An admission decided and not yet recorded: what \<open>record_admission\<close> will be called with.\<close>

record cp_task =
  tk_request :: flow_admission_request
  tk_device :: string
  tk_rules :: "port_rule list"

text \<open>
  How far a heartbeat has come: between heartbeats, with its package applied (the old bundles, if any,
  and the new ones), or with the dropped entitlements reconciled.
\<close>

datatype heartbeat_stage =
    HbIdle
  | HbApplied "policy_bundle list option" "policy_bundle list"
  | HbReconciled "policy_bundle list"

record cp_machine =
  cm_store :: policy_store
  cm_log :: audit_log
  cm_table :: flow_table
  cm_tasks :: "cp_task list"
  cm_stage :: heartbeat_stage

definition cp_init :: cp_machine where
  "cp_init = \<lparr>cm_store = policy_store_new, cm_log = audit_log_new, cm_table = flow_table_new,
     cm_tasks = [], cm_stage = HbIdle\<rparr>"

datatype cp_label =
    LDecide flow_admission_request utc
  | LRecord nat instant
  | LAbort nat
  | LRelease flow_release_request instant
  | LApply heartbeat_response utc
  | LReconcile "nat \<Rightarrow> string" i64
  | LRules instant
  | LTraffic ft_event

text \<open>The table operations of the packet loops, the pollers' connections and the dial of a heartbeat.\<close>

definition is_traffic :: "ft_event \<Rightarrow> bool" where
  "is_traffic e = (case e of
     EvAdmit _ _ _ _ _ _ _ \<Rightarrow> False | EvRelease _ _ \<Rightarrow> False | EvEvictDevice _ _ \<Rightarrow> False
   | EvUpdateRules _ _ _ \<Rightarrow> False | EvRetainRules _ \<Rightarrow> False | _ \<Rightarrow> True)"

definition forget_task :: "nat \<Rightarrow> 'a list \<Rightarrow> 'a list" where
  "forget_task i xs = take i xs @ drop (Suc i) xs"

text \<open>One step, \<open>None\<close> where it cannot be taken: no such task, another stage, or a panic.\<close>

definition cp_decide :: "control_env \<Rightarrow> flow_admission_request \<Rightarrow> utc \<Rightarrow> cp_machine \<Rightarrow> cp_machine option" where
  "cp_decide env request now s =
     (case authenticate_and_decide env (cm_store s) (fa_gateway_id request) (fa_user_public_key request)
             (fa_signature request) (fa_signed_data request) now (cm_log s) of
        None \<Rightarrow> None
      | Some (OutcomeRefused _, log) \<Rightarrow> Some (s\<lparr>cm_log := log\<rparr>)
      | Some (OutcomeAllowed key rules, log) \<Rightarrow>
          Some (s\<lparr>cm_log := log, cm_tasks := cm_tasks s @
                  [\<lparr>tk_request = request, tk_device = key, tk_rules = rules\<rparr>]\<rparr>))"

definition cp_record :: "control_env \<Rightarrow> nat \<Rightarrow> instant \<Rightarrow> cp_machine \<Rightarrow> cp_machine option" where
  "cp_record env i now s =
     (if i < length (cm_tasks s)
      then
        (let task = cm_tasks s ! i;
             ((recorded, rule), table) = record_admission (tk_request task) (request_dialled (tk_request task))
                 (tk_device task) (tk_rules task) now (cm_table s)
         in Some (s\<lparr>cm_table := table, cm_tasks := forget_task i (cm_tasks s),
              cm_log := (case snd (admission_reply (tk_request task) (tk_device task) recorded rule) of
                 Some event \<Rightarrow> try_record (ce_disk env) event (cm_log s) | None \<Rightarrow> cm_log s)\<rparr>))
      else None)"

definition cp_apply :: "control_env \<Rightarrow> heartbeat_response \<Rightarrow> utc \<Rightarrow> cp_machine \<Rightarrow> cp_machine option" where
  "cp_apply env response now s =
     (if cm_stage s \<noteq> HbIdle then None
      else
        (let old_bundles = map_option ps_policy_bundles (current_policy (cm_store s))
         in case apply_at (ce_parse_rfc3339 env) response now (cm_store s) of
              (Inl _, _) \<Rightarrow> Some s
            | (Inr _, store) \<Rightarrow>
                Some (s\<lparr>cm_store := store, cm_stage := HbApplied old_bundles (hr_policy_bundles response)\<rparr>)))"

definition cp_reconcile :: "(nat \<Rightarrow> string) \<Rightarrow> i64 \<Rightarrow> cp_machine \<Rightarrow> cp_machine option" where
  "cp_reconcile next_id now_ms s = (case cm_stage s of
     HbApplied None new_bundles \<Rightarrow> Some (s\<lparr>cm_stage := HbReconciled new_bundles\<rparr>)
   | HbApplied (Some old_bundles) new_bundles \<Rightarrow>
       Some (s\<lparr>cm_table := snd (reconcile_dropped_entitlements next_id old_bundles new_bundles now_ms (cm_table s)),
               cm_stage := HbReconciled new_bundles\<rparr>)
   | _ \<Rightarrow> None)"

definition cp_rules :: "instant \<Rightarrow> cp_machine \<Rightarrow> cp_machine option" where
  "cp_rules now s = (case cm_stage s of
     HbReconciled new_bundles \<Rightarrow>
       Some (s\<lparr>cm_table := snd (reconcile_endpoint_changes new_bundles now (cm_table s)), cm_stage := HbIdle\<rparr>)
   | _ \<Rightarrow> None)"

fun cp_do :: "control_env \<Rightarrow> cp_label \<Rightarrow> cp_machine \<Rightarrow> cp_machine option" where
  "cp_do env (LDecide request now) s = cp_decide env request now s"
| "cp_do env (LRecord i now) s = cp_record env i now s"
| "cp_do env (LAbort i) s = (if i < length (cm_tasks s) then Some (s\<lparr>cm_tasks := forget_task i (cm_tasks s)\<rparr>) else None)"
| "cp_do env (LRelease request now) s =
     Some (s\<lparr>cm_table := release (rl_flow_id request) now (cm_table s),
             cm_log := handle_flow_release (ce_disk env) request (cm_log s)\<rparr>)"
| "cp_do env (LApply response now) s = cp_apply env response now s"
| "cp_do env (LReconcile next_id now_ms) s = cp_reconcile next_id now_ms s"
| "cp_do env (LRules now) s = cp_rules now s"
| "cp_do env (LTraffic e) s = (if is_traffic e then Some (s\<lparr>cm_table := ft_step e (cm_table s)\<rparr>) else None)"

text \<open>A run whose steps all meet a guard on the state they start from.\<close>

inductive cp_run :: "(cp_label \<Rightarrow> cp_machine \<Rightarrow> bool) \<Rightarrow> control_env \<Rightarrow> cp_machine \<Rightarrow> cp_label list \<Rightarrow> cp_machine \<Rightarrow> bool"
  for guard env where
  cp_run_nil: "cp_run guard env s [] s"
| cp_run_step: "cp_run guard env s ls s' \<Longrightarrow> guard l s' \<Longrightarrow> cp_do env l s' = Some s'' \<Longrightarrow>
     cp_run guard env s (ls @ [l]) s''"

inductive_cases cp_run_snocE: "cp_run guard env s (ls @ [l]) s''"

section \<open>Every step is a sequence of table operations\<close>

lemma fold_evict_one_events:
  "snd (fold (evict_one next_id now_ms) gs rt) = fold ft_step (map (\<lambda>(g, u, dev). EvEvictDevice g dev) gs) (snd rt)"
  by (induction gs arbitrary: rt) (auto simp: evict_one_def split_beta Let_def)

lemma refresh_bundles_events_fold:
  "snd (refresh_bundles now bundles t) =
     fold ft_step (map (\<lambda>b. EvUpdateRules (pb_gateway_id b) (bundle_rules b) now) bundles) t"
  by (induction bundles arbitrary: t) (auto simp: split_beta Let_def)

definition reconcile_events :: "policy_bundle list \<Rightarrow> policy_bundle list \<Rightarrow> ft_event list" where
  "reconcile_events old_bundles new_bundles = map (\<lambda>(g, u, dev). EvEvictDevice g dev) (evictions old_bundles new_bundles)"

definition rule_events :: "policy_bundle list \<Rightarrow> instant \<Rightarrow> ft_event list" where
  "rule_events bundles now = EvRetainRules (map pb_gateway_id bundles) #
     map (\<lambda>b. EvUpdateRules (pb_gateway_id b) (bundle_rules b) now) bundles"

lemma reconcile_is_events:
  "snd (reconcile_dropped_entitlements next_id old_bundles new_bundles now_ms t) =
     fold ft_step (reconcile_events old_bundles new_bundles) t"
  by (simp add: reconcile_evicts fold_evict_one_events reconcile_events_def)

lemma rules_are_events:
  "snd (reconcile_endpoint_changes bundles now t) = fold ft_step (rule_events bundles now) t"
proof -
  have "(\<lambda>g. \<exists>b \<in> set bundles. pb_gateway_id b = g) = (\<lambda>g. g \<in> set (map pb_gateway_id bundles))" by auto
  then show ?thesis
    by (simp add: reconcile_endpoint_changes_def refresh_bundles_events_fold rule_events_def)
qed

text \<open>The operations a step runs on the table.\<close>

definition admission_event :: "cp_task \<Rightarrow> flow_table \<Rightarrow> ft_event" where
  "admission_event task t = EvAdmit (fa_node_id (tk_request task)) (fa_port (tk_request task))
     (request_dialled (tk_request task)) (fa_gateway_id (tk_request task)) (fa_flow_id (tk_request task))
     (tk_device task)
     (case current_rules (fa_gateway_id (tk_request task)) t of Some c \<Rightarrow> c | None \<Rightarrow> tk_rules task)"

definition step_events :: "cp_label \<Rightarrow> cp_machine \<Rightarrow> ft_event list" where
  "step_events l s = (case l of
     LRecord i now \<Rightarrow>
       if was_recently_released (fa_flow_id (tk_request (cm_tasks s ! i))) now (cm_table s) then []
       else [admission_event (cm_tasks s ! i) (cm_table s)]
   | LRelease request now \<Rightarrow> [EvRelease (rl_flow_id request) now]
   | LReconcile _ _ \<Rightarrow> (case cm_stage s of
       HbApplied (Some old_bundles) new_bundles \<Rightarrow> reconcile_events old_bundles new_bundles | _ \<Rightarrow> [])
   | LRules now \<Rightarrow> (case cm_stage s of HbReconciled new_bundles \<Rightarrow> rule_events new_bundles now | _ \<Rightarrow> [])
   | LTraffic e \<Rightarrow> [e]
   | _ \<Rightarrow> [])"

lemma cp_decide_table [simp]: "cp_decide env request now s = Some s' \<Longrightarrow> cm_table s' = cm_table s"
  by (auto simp: cp_decide_def split: option.splits admission_outcome.splits prod.splits)

lemma cp_apply_table [simp]: "cp_apply env response now s = Some s' \<Longrightarrow> cm_table s' = cm_table s"
  by (auto simp: cp_apply_def Let_def split: prod.splits sum.splits if_splits)

lemma cp_record_Some:
  assumes "cp_record env i now s = Some s'"
  shows "i < length (cm_tasks s)" "cm_tasks s' = forget_task i (cm_tasks s)"
    "cm_store s' = cm_store s" "cm_stage s' = cm_stage s"
    "cm_table s' = snd (record_admission (tk_request (cm_tasks s ! i))
          (request_dialled (tk_request (cm_tasks s ! i))) (tk_device (cm_tasks s ! i)) (tk_rules (cm_tasks s ! i))
          now (cm_table s))"
  using assms by (auto simp: cp_record_def Let_def split_beta split: if_splits)

lemma cp_do_events:
  assumes "cp_do env l s = Some s'"
  shows "cm_table s' = fold ft_step (step_events l s) (cm_table s)"
proof (cases l)
  case (LRecord i now)
  then show ?thesis
    using cp_record_Some(5) [of env i now s s'] assms
    by (auto simp: step_events_def record_admission_table admission_event_def)
next
  case (LReconcile next_id now_ms)
  then show ?thesis
    using assms by (auto simp: cp_reconcile_def step_events_def reconcile_is_events
        split: heartbeat_stage.splits option.splits)
next
  case (LRules now)
  then show ?thesis
    using assms by (auto simp: cp_rules_def step_events_def rules_are_events split: heartbeat_stage.splits)
qed (use assms in \<open>auto simp: step_events_def split: if_splits\<close>)

lemma cp_do_inv: "cp_do env l s = Some s' \<Longrightarrow> ft_inv (cm_table s) \<Longrightarrow> ft_inv (cm_table s')"
  unfolding cp_do_events by (rule ft_run.inv_run)

lemma cp_do_admissions:
  "cp_do env l s = Some s' \<Longrightarrow> ft_inv (cm_table s) \<Longrightarrow>
     admissions (cm_table s') = fold at_step (step_events l s) (admissions (cm_table s))"
  unfolding cp_do_events by (rule ft_run.simulates_run)


lemma cp_run_inv: "cp_run guard env s ls s' \<Longrightarrow> ft_inv (cm_table s) \<Longrightarrow> ft_inv (cm_table s')"
  by (induction rule: cp_run.induct) (auto dest: cp_do_inv)

section \<open>A release that overtakes its admission\<close>

lemma at_flow_absent_step:
  assumes "\<forall>key x. at_flows a key = Some x \<longrightarrow> ad_flow_id x \<noteq> f"
    and "\<And>n p d g dev rules. e \<noteq> EvAdmit n p d g f dev rules"
  shows "\<forall>key x. at_flows (at_step e a) key = Some x \<longrightarrow> ad_flow_id x \<noteq> f"
proof (intro allI impI)
  fix key x
  assume "at_flows (at_step e a) key = Some x"
  from at_step_origin [OF this] show "ad_flow_id x \<noteq> f"
    using assms by (elim disjE exE) (auto, metis)
qed

lemma at_flow_absent_steps:
  assumes "\<forall>key x. at_flows a key = Some x \<longrightarrow> ad_flow_id x \<noteq> f"
    and "\<forall>e \<in> set es. \<forall>n p d g dev rules. e \<noteq> EvAdmit n p d g f dev rules"
  shows "\<forall>key x. at_flows (fold at_step es a) key = Some x \<longrightarrow> ad_flow_id x \<noteq> f"
  using assms
proof (induction es arbitrary: a)
  case (Cons e es)
  have "\<forall>key x. at_flows (at_step e a) key = Some x \<longrightarrow> ad_flow_id x \<noteq> f"
    by (rule at_flow_absent_step) (use Cons.prems in auto)
  then show ?case using Cons.IH Cons.prems(2) by simp
qed simp

lemma fold_remember_released [simp]:
  "ft_recently_released (fold (remember_rule_ended now) ks t) = ft_recently_released t"
  by (induction ks arbitrary: t) (simp_all add: remember_rule_ended_eq)

lemma check_rule_ended_released [simp]:
  "ft_recently_released (snd (check_rule_ended now ks t)) = ft_recently_released t"
  by (induction ks arbitrary: t) (auto split: option.splits)

lemma forward_released [simp]: "ft_recently_released (snd (forward n p d dp cache t)) = ft_recently_released t"
proof -
  have i: "ft_recently_released (snd (forward_with_identity key dl cache t)) = ft_recently_released t" for key dl
    by (auto simp: forward_with_identity_def Let_def split: option.split sum.split prod.split)
  have l: "ft_recently_released (snd (forward_legacy n p d dp cache t)) = ft_recently_released t"
    by (auto simp: forward_legacy_def Let_def split: option.split sum.split)
  show ?thesis unfolding forward_eq using i l by (auto split: option.split)
qed

lemma ft_step_released:
  assumes "\<And>f now. e \<noteq> EvRelease f now"
  shows "ft_recently_released (ft_step e t) = ft_recently_released t"
proof (cases e)
  case (EvRelease f now)
  then show ?thesis using assms by blast
qed (simp_all add: evict_node_eq Let_def evict_gateway_device_def update_rules_tail refreshed_def
    retain_gateway_rules_def is_rule_ended_def buffer_pending_def take_pending_def
    record_control_channel_port_def record_outbound_control_channel_port_def split_beta split: option.split)

text \<open>Clock readings from a release until its memory ends; only records and releases read it.\<close>

definition within :: "instant \<Rightarrow> cp_label \<Rightarrow> bool" where
  "within at l = (case l of
     LRecord _ now \<Rightarrow> at \<le> now \<and> now \<le> at + RELEASED_FLOW_MEMORY
   | LRelease _ now \<Rightarrow> at \<le> now \<and> now \<le> at + RELEASED_FLOW_MEMORY
   | _ \<Rightarrow> True)"

definition stays_released :: "string \<Rightarrow> instant \<Rightarrow> flow_table \<Rightarrow> bool" where
  "stays_released f at t \<longleftrightarrow> ft_inv t \<and>
     (\<exists>r. hm_get (ft_recently_released t) f = Some r \<and> at \<le> r \<and> r \<le> at + RELEASED_FLOW_MEMORY) \<and>
     (\<forall>key x. at_flows (admissions t) key = Some x \<longrightarrow> ad_flow_id x \<noteq> f)"

lemma stays_released_event:
  assumes "stays_released f at t" "\<And>g now. e \<noteq> EvRelease g now" "\<And>n p d g dev rules. e \<noteq> EvAdmit n p d g f dev rules"
  shows "stays_released f at (ft_step e t)"
proof -
  have i: "ft_inv t" and n: "\<forall>key x. at_flows (admissions t) key = Some x \<longrightarrow> ad_flow_id x \<noteq> f"
    using assms(1) by (auto simp only: stays_released_def)
  have "\<forall>key x. at_flows (admissions (ft_step e t)) key = Some x \<longrightarrow> ad_flow_id x \<noteq> f"
    unfolding admissions_step [OF i] by (rule at_flow_absent_step [OF n assms(3)])
  then show ?thesis
    using assms(1) ft_step_inv [OF i] ft_step_released [OF assms(2)] by (simp only: stays_released_def)
qed

lemma stays_released_events:
  assumes "stays_released f at t"
    and "\<forall>e \<in> set es. (\<forall>g now. e \<noteq> EvRelease g now) \<and> (\<forall>n p d g dev rules. e \<noteq> EvAdmit n p d g f dev rules)"
  shows "stays_released f at (fold ft_step es t)"
  using assms
proof (induction es arbitrary: t)
  case (Cons e es)
  have "stays_released f at (ft_step e t)"
    by (rule stays_released_event [OF Cons.prems(1)]) (use Cons.prems(2) in auto)
  then show ?case using Cons.IH Cons.prems(2) by simp
qed simp

lemma release_flows:
  assumes "ft_inv t"
  shows "at_flows (admissions (release f now t)) key = (case at_flows (admissions t) key of
     None \<Rightarrow> None | Some x \<Rightarrow> if ad_flow_id x \<noteq> f then Some x else None)"
  by (simp only: admissions_release [OF assms] at_step.simps at_flows_keep_flows)

lemma release_absent:
  "ft_inv t \<Longrightarrow> (\<forall>key x. at_flows (admissions (release f now t)) key = Some x \<longrightarrow> ad_flow_id x \<noteq> f) \<longleftrightarrow> True"
  by (auto simp: release_flows simp del: admissions_sel split: option.splits if_splits)

lemma stays_released_new:
  assumes "ft_inv t"
  shows "stays_released f now (release f now t)"
proof -
  have "hm_get (ft_recently_released (release f now t)) f = Some now"
    by (simp add: release_eq Let_def hm_simps)
  then show ?thesis
    using release_inv [OF assms] by (simp only: stays_released_def release_absent [OF assms]) simp
qed

lemma stays_released_again:
  assumes "stays_released f at t" "at \<le> now" "now \<le> at + RELEASED_FLOW_MEMORY"
  shows "stays_released f at (release g now t)"
proof -
  have i: "ft_inv t" using assms(1) by (simp add: stays_released_def)
  have o': "hm_ok (ft_recently_released t)" using i by (simp add: ft_inv_def)
  obtain r where r: "hm_get (ft_recently_released t) f = Some r" "at \<le> r" "r \<le> at + RELEASED_FLOW_MEMORY"
    using assms(1) by (auto simp: stays_released_def)
  have "duration_since now r \<le> RELEASED_FLOW_MEMORY" using assms r by (simp add: duration_since_def)
  then have "\<exists>r. hm_get (ft_recently_released (release g now t)) f = Some r \<and> at \<le> r \<and> r \<le> at + RELEASED_FLOW_MEMORY"
    using r assms(2,3) o' by (auto simp: release_eq Let_def hm_simps)
  then show ?thesis
    using assms(1) release_inv [OF i] by (auto simp: stays_released_def release_flows [OF i] simp del: admissions_sel split: option.splits if_splits)
qed

lemma stays_released_remembered:
  assumes "stays_released f at t" "at \<le> now" "now \<le> at + RELEASED_FLOW_MEMORY"
  shows "was_recently_released f now t"
proof -
  obtain r where "hm_get (ft_recently_released t) f = Some r" "at \<le> r"
    using assms(1) by (auto simp: stays_released_def)
  then show ?thesis using assms(2,3) by (simp add: was_recently_released_def duration_since_def)
qed

lemma stays_released_step:
  assumes "stays_released f at (cm_table s)" "within at l" "cp_do env l s = Some s'"
  shows "stays_released f at (cm_table s')"
proof (cases "\<exists>request now. l = LRelease request now")
  case True
  then show ?thesis using assms stays_released_again by (auto simp: within_def)
next
  case False
  have "\<forall>e \<in> set (step_events l s). (\<forall>g now. e \<noteq> EvRelease g now) \<and> (\<forall>n p d g dev rules. e \<noteq> EvAdmit n p d g f dev rules)"
  proof (cases l)
    case (LRecord i now)
    then have w: "at \<le> now" "now \<le> at + RELEASED_FLOW_MEMORY" using assms(2) by (simp_all add: within_def)
    show ?thesis
      using stays_released_remembered [OF assms(1) w] LRecord
      by (cases "fa_flow_id (tk_request (cm_tasks s ! i)) = f") (simp_all add: step_events_def admission_event_def)
  next
    case (LTraffic e)
    then show ?thesis using assms(3) by (auto simp: step_events_def is_traffic_def split: if_splits)
  next
    case (LReconcile next_id now_ms)
    then show ?thesis by (auto simp: step_events_def reconcile_events_def split: heartbeat_stage.split option.split)
  next
    case (LRules now)
    then show ?thesis by (auto simp: step_events_def rule_events_def split: heartbeat_stage.split)
  next
    case (LRelease request now)
    then show ?thesis using False by simp
  qed (simp_all add: step_events_def)
  then show ?thesis
    unfolding cp_do_events [OF assms(3)] by (rule stays_released_events [OF assms(1)])
qed

lemma stays_released_run:
  "cp_run (\<lambda>l _. within at l) env s ls s' \<Longrightarrow> stays_released f at (cm_table s) \<Longrightarrow> stays_released f at (cm_table s')"
  by (induction rule: cp_run.induct) (auto intro: stays_released_step)

text \<open>
  C11: once a release of a flow was handled, no interleaving of admissions, heartbeats and
  packets leaves that flow admitted for thirty seconds, however late the decision of its
  admission is recorded
\<close>

theorem release_overtakes_admission:
  assumes "ft_inv (cm_table s)" "cp_do env (LRelease request at) s = Some s1"
    and "cp_run (\<lambda>l _. within at l) env s1 ls s'"
  shows "\<not> (\<exists>key flow. hm_get (ft_flows (cm_table s')) key = Some flow \<and> af_flow_id flow = rl_flow_id request)"
proof -
  have "stays_released (rl_flow_id request) at (cm_table s1)"
    using assms(1,2) by (auto simp: stays_released_new)
  then have "stays_released (rl_flow_id request) at (cm_table s')"
    using stays_released_run [OF assms(3)] by blast
  then show ?thesis by (fastforce simp: stays_released_def)
qed

end
