(* ===== verification/Control_Entitlement.thy ===== *)
theory Control_Entitlement
  imports Control_Plane
begin

text \<open>
  What holds of the flows at every point of the control plane's runs: their rules are those of the
  policy in force, and, when no heartbeat falls between an admission's decision and its recording,
  so are their entitlements. Without that condition they are not; the last theorem is the run.
\<close>

section \<open>Flows follow the rules in force\<close>

definition rules_follow :: "admission_table \<Rightarrow> bool" where
  "rules_follow a \<longleftrightarrow> (\<forall>key x rules. at_flows a key = Some x \<longrightarrow> at_rules a (ad_gateway x) = Some rules \<longrightarrow>
     ad_rules x = rules)"

lemma rules_follow_mono:
  assumes "rules_follow a" "\<And>g r. at_rules b g = Some r \<Longrightarrow> at_rules a g = Some r"
    and "\<And>key x. at_flows b key = Some x \<Longrightarrow>
      \<exists>y. at_flows a key = Some y \<and> ad_gateway y = ad_gateway x \<and> ad_rules y = ad_rules x"
  shows "rules_follow b"
  unfolding rules_follow_def
proof (intro allI impI)
  fix key x rules
  assume x: "at_flows b key = Some x" and r: "at_rules b (ad_gateway x) = Some rules"
  obtain y where y: "at_flows a key = Some y" "ad_gateway y = ad_gateway x" "ad_rules y = ad_rules x"
    using assms(3) [OF x] by blast
  have "at_rules a (ad_gateway y) = Some rules" using assms(2) [OF r] y(2) by simp
  with assms(1) y(1) have "ad_rules y = rules" unfolding rules_follow_def by blast
  with y(3) show "ad_rules x = rules" by simp
qed

lemma rules_follow_keep: "rules_follow a \<Longrightarrow> rules_follow (keep_flows p a)"
  by (rule rules_follow_mono [of a]) (auto split: option.splits if_splits)

lemma at_touch_rules [simp]: "at_rules (at_touch n p d dp cache a) = at_rules a"
  by (auto simp: at_touch_def split: option.split forwarding.split prod.split)

lemma rules_follow_step:
  assumes "rules_follow a"
    and "\<And>n p d g f dev rules r. e = EvAdmit n p d g f dev rules \<Longrightarrow> at_rules a g = Some r \<Longrightarrow> rules = r"
  shows "rules_follow (at_step e a)"
proof (cases e)
  case (EvAdmit n p d g f dev rules)
  then show ?thesis using assms by (auto simp: rules_follow_def)
next
  case (EvEvictNode n)
  then show ?thesis
    using rules_follow_keep [OF assms(1), of "\<lambda>key _. fk_node_id key \<noteq> n"]
    by (simp add: rules_follow_def)
next
  case (EvUpdateRules g rules now)
  have rule: "at_rules a (ad_gateway x) = Some r \<Longrightarrow> ad_rules x = r" if "at_flows a key = Some x" for key x r
    using assms(1) that by (simp add: rules_follow_def)
  show ?thesis
    unfolding rules_follow_def
  proof (intro allI impI)
    fix key x r
    assume x: "at_flows (at_step e a) key = Some x" and r: "at_rules (at_step e a) (ad_gateway x) = Some r"
    obtain y where y: "at_flows a key = Some y" "x = (if ad_gateway y = g then y\<lparr>ad_rules := rules\<rparr> else y)"
      using x by (auto simp: EvUpdateRules Let_def split: option.splits if_splits)
    show "ad_rules x = r"
      using rule [OF y(1)] y(2) r by (auto simp: EvUpdateRules Let_def split: if_splits)
  qed
next
  case (EvRetainRules gs)
  show ?thesis
    by (rule rules_follow_mono [OF assms(1)]) (auto simp: EvRetainRules restrict_map_def split: if_splits)
next
  case (EvForward n p d dp cache)
  show ?thesis
    by (rule rules_follow_mono [OF assms(1)]) (use at_touch_flows in \<open>fastforce simp: EvForward\<close>)+
qed (simp_all add: rules_follow_keep assms(1))

definition no_admit :: "ft_event \<Rightarrow> bool" where
  "no_admit e \<longleftrightarrow> (\<forall>n p d g f dev rules. e \<noteq> EvAdmit n p d g f dev rules)"

lemma rules_follow_steps: "rules_follow a \<Longrightarrow> list_all no_admit es \<Longrightarrow> rules_follow (fold at_step es a)"
proof (induction es arbitrary: a)
  case (Cons e es)
  have "rules_follow (at_step e a)"
    by (rule rules_follow_step [OF Cons.prems(1)]) (use Cons.prems(2) in \<open>auto simp: no_admit_def\<close>)
  then show ?case using Cons by simp
qed simp

lemma step_events_no_admit:
  assumes "cp_do env l s = Some s'" "\<And>i now. l \<noteq> LRecord i now"
  shows "list_all no_admit (step_events l s)"
proof (cases l)
  case (LTraffic e)
  then show ?thesis using assms(1) by (auto simp: step_events_def is_traffic_def no_admit_def split: if_splits)
qed (use assms(2) in \<open>auto simp: step_events_def reconcile_events_def rule_events_def no_admit_def list_all_iff
  split: heartbeat_stage.split option.split\<close>)

lemma rules_follow_do:
  assumes "cp_do env l s = Some s'" "ft_inv (cm_table s)" "rules_follow (admissions (cm_table s))"
  shows "rules_follow (admissions (cm_table s'))"
proof (cases "\<exists>i now. l = LRecord i now")
  case True
  have "rules_follow (at_step (admission_event task t) (admissions t))" if "rules_follow (admissions t)" for task t
    using that by (intro rules_follow_step) (auto simp: admission_event_def current_rules_def)
  then show ?thesis
    using True assms unfolding cp_do_admissions [OF assms(1,2)] by (auto simp: step_events_def)
next
  case False
  then show ?thesis
    unfolding cp_do_admissions [OF assms(1,2)]
    by (intro rules_follow_steps [OF assms(3)] step_events_no_admit [OF assms(1)]) blast
qed

text \<open>The rules a list of bundles gives a gateway: its last bundle wins.\<close>

definition rules_of :: "policy_bundle list \<Rightarrow> string \<Rightarrow> port_rule list option" where
  "rules_of bundles g = map_option bundle_rules (find (\<lambda>b. pb_gateway_id b = g) (rev bundles))"

lemma update_all_rules:
  "at_rules (fold at_step (map (\<lambda>b. EvUpdateRules (pb_gateway_id b) (bundle_rules b) now) bundles) a) g =
     (case rules_of bundles g of Some r \<Rightarrow> Some r | None \<Rightarrow> at_rules a g)"
  by (induction bundles rule: rev_induct) (auto simp: rules_of_def Let_def)

lemma rule_events_rules: "at_rules (fold at_step (rule_events bundles now) a) g = rules_of bundles g"
proof -
  have "rules_of bundles g = None \<Longrightarrow> g \<notin> pb_gateway_id ` set bundles"
    by (auto simp: rules_of_def find_None_iff)
  then show ?thesis
    by (simp add: rule_events_def update_all_rules restrict_map_def split: option.split)
qed

lemma at_rules_same:
  assumes "list_all (\<lambda>e. (\<forall>g rules now. e \<noteq> EvUpdateRules g rules now) \<and> (\<forall>gs. e \<noteq> EvRetainRules gs)) es"
  shows "at_rules (fold at_step es a) = at_rules a"
  using assms
proof (induction es arbitrary: a)
  case (Cons e es)
  have "at_rules (at_step e a) = at_rules a"
    using Cons.prems
    by (cases e) (auto simp: at_touch_def Let_def split: option.split forwarding.split prod.split)
  then show ?case using Cons by simp
qed simp

section \<open>The policy in force and the stage\<close>

definition stage_ok :: "cp_machine \<Rightarrow> bool" where
  "stage_ok s \<longleftrightarrow> (case cm_stage s of
     HbIdle \<Rightarrow> (\<forall>state g. cm_store s = Some state \<longrightarrow>
        at_rules (admissions (cm_table s)) g = rules_of (ps_policy_bundles state) g)
   | HbApplied _ new_bundles \<Rightarrow> (\<exists>state. cm_store s = Some state \<and> ps_policy_bundles state = new_bundles)
   | HbReconciled new_bundles \<Rightarrow> (\<exists>state. cm_store s = Some state \<and> ps_policy_bundles state = new_bundles))"

lemma cp_decide_keeps:
  assumes "cp_decide env request now s = Some s'"
  shows "cm_store s' = cm_store s" "cm_stage s' = cm_stage s" "cm_table s' = cm_table s"
  using assms by (auto simp: cp_decide_def split: option.splits admission_outcome.splits prod.splits)

lemma cp_apply_cases:
  assumes "cp_apply env response now s = Some s'"
  shows "cm_stage s = HbIdle \<and>
    (s' = s \<or> (\<exists>state. ps_policy_bundles state = hr_policy_bundles response \<and>
       s' = s\<lparr>cm_store := Some state, cm_stage := HbApplied (map_option ps_policy_bundles (cm_store s))
              (hr_policy_bundles response)\<rparr>))"
proof -
  have idle: "cm_stage s = HbIdle" using assms by (simp add: cp_apply_def split: if_splits)
  obtain r store where a: "apply_at (ce_parse_rfc3339 env) response now (cm_store s) = (r, store)" by force
  then have "(\<exists>e. r = Inl e) \<and> store = cm_store s \<or>
      r = Inr () \<and> (\<exists>state. store = Some state \<and> ps_policy_bundles state = hr_policy_bundles response)"
    by (auto simp: apply_at_def split: option.splits if_splits)
  then show ?thesis
    using assms idle a by (elim disjE conjE exE) (auto simp: cp_apply_def Let_def current_policy_def)
qed

lemma step_events_rules_kept:
  assumes "cp_do env l s = Some s'" "\<And>now. l \<noteq> LRules now"
  shows "list_all (\<lambda>e. (\<forall>g rules now. e \<noteq> EvUpdateRules g rules now) \<and> (\<forall>gs. e \<noteq> EvRetainRules gs)) (step_events l s)"
proof (cases l)
  case (LTraffic e)
  then show ?thesis using assms(1) by (auto simp: step_events_def is_traffic_def split: if_splits)
qed (use assms(2) in \<open>auto simp: step_events_def reconcile_events_def admission_event_def list_all_iff
  split: heartbeat_stage.split option.split\<close>)

lemma stage_ok_do:
  assumes "cp_do env l s = Some s'" "ft_inv (cm_table s)" "stage_ok s"
  shows "stage_ok s'"
proof -
  have kept: "at_rules (admissions (cm_table s')) = at_rules (admissions (cm_table s))" if "\<And>now. l \<noteq> LRules now"
    unfolding cp_do_admissions [OF assms(1,2)] by (rule at_rules_same [OF step_events_rules_kept [OF assms(1) that]])
  show ?thesis
  proof (cases l)
    case (LRules now)
    then obtain new_bundles where "cm_stage s = HbReconciled new_bundles" "cm_stage s' = HbIdle" "cm_store s' = cm_store s"
      using assms(1) by (auto simp: cp_rules_def split: heartbeat_stage.splits)
    then show ?thesis
      using assms(3) LRules unfolding stage_ok_def cp_do_admissions [OF assms(1,2)]
      by (auto simp: step_events_def rule_events_rules simp del: admissions_sel)
  next
    case (LDecide request now)
    then show ?thesis using assms cp_decide_keeps [of env request now s s']
      by (simp add: stage_ok_def split: heartbeat_stage.splits)
  next
    case (LRecord i now)
    then show ?thesis
      using assms kept cp_record_Some(3,4) [of env i now s s']
      by (simp add: stage_ok_def del: admissions_sel split: heartbeat_stage.splits)
  next
    case (LApply response now)
    then have "cp_apply env response now s = Some s'" using assms(1) by simp
    from conjunct2 [OF cp_apply_cases [OF this]] show ?thesis
    proof
      assume "s' = s"
      then show ?thesis using assms(3) by simp
    next
      assume "\<exists>state. ps_policy_bundles state = hr_policy_bundles response \<and>
        s' = s\<lparr>cm_store := Some state, cm_stage := HbApplied (map_option ps_policy_bundles (cm_store s))
              (hr_policy_bundles response)\<rparr>"
      then show ?thesis by (elim exE conjE) (simp add: stage_ok_def)
    qed
  next
    case (LReconcile next_id now_ms)
    then show ?thesis
      using assms by (auto simp: cp_reconcile_def stage_ok_def split: heartbeat_stage.splits option.splits)
  qed (use assms kept in \<open>auto simp: stage_ok_def simp del: admissions_sel split: if_splits heartbeat_stage.splits\<close>)
qed

definition cp_ok :: "cp_machine \<Rightarrow> bool" where
  "cp_ok s \<longleftrightarrow> ft_inv (cm_table s) \<and> rules_follow (admissions (cm_table s)) \<and> stage_ok s"

lemma cp_ok_init: "cp_ok cp_init"
  by (simp add: cp_ok_def cp_init_def ft_inv_new rules_follow_def admissions_new no_admissions_def stage_ok_def
      policy_store_new_def del: admissions_sel)

lemma cp_ok_do: "cp_do env l s = Some s' \<Longrightarrow> cp_ok s \<Longrightarrow> cp_ok s'"
  using cp_do_inv rules_follow_do stage_ok_do unfolding cp_ok_def by blast

lemma cp_ok_run: "cp_run guard env s ls s' \<Longrightarrow> cp_ok s \<Longrightarrow> cp_ok s'"
  by (induction rule: cp_run.induct) (auto dest: cp_ok_do)

text \<open>
  C12: however admissions, releases, heartbeats and packets interleave, between heartbeats
  every flow of a gateway of the policy in force follows exactly that policy's rules
\<close>

theorem flows_follow_the_rules_in_force:
  assumes "cp_run (\<lambda>_ _. True) env cp_init ls s" "cm_stage s = HbIdle"
    and "hm_get (ft_flows (cm_table s)) key = Some flow"
    and "cm_store s = Some state" "rules_of (ps_policy_bundles state) (af_gateway_id flow) = Some rules"
  shows "af_rules flow = rules \<and> current_rules (af_gateway_id flow) (cm_table s) = Some rules"
proof -
  have ok: "cp_ok s" by (rule cp_ok_run [OF assms(1) cp_ok_init])
  then have c: "at_rules (admissions (cm_table s)) (af_gateway_id flow) = Some rules"
    using assms(2,4,5) by (simp add: cp_ok_def stage_ok_def)
  have "at_flows (admissions (cm_table s)) key = Some (admission_of flow)" using assms(3) by simp
  with c ok have "ad_rules (admission_of flow) = rules"
    unfolding cp_ok_def rules_follow_def by (metis admission_of_sel(1))
  with c show ?thesis by (simp add: current_rules_def)
qed


section \<open>Flows stay entitled\<close>

definition entitled_in :: "policy_bundle list \<Rightarrow> string \<Rightarrow> string \<Rightarrow> bool" where
  "entitled_in bundles g dev \<longleftrightarrow> (\<exists>b. find (\<lambda>b. pb_gateway_id b = g) bundles = Some b \<and>
     Some dev \<in> en_device_public_key ` set (pb_entitlement_list b))"

lemma set_map_filter_key:
  "dev \<in> set (List.map_filter en_device_public_key es) \<longleftrightarrow> Some dev \<in> en_device_public_key ` set es"
  by (induction es) (auto simp: map_filter_simps split: option.split)

lemma still_entitled_iff: "dev \<in> set (still_entitled b bundles) \<longleftrightarrow> entitled_in bundles (pb_gateway_id b) dev"
  by (cases "find (\<lambda>bundle. pb_gateway_id bundle = pb_gateway_id b) bundles")
    (simp_all add: still_entitled_def entitled_in_def set_map_filter_key)

lemma entitled_dropped:
  assumes "entitled_in old_bundles g dev" "\<not> entitled_in new_bundles g dev"
  shows "dropped old_bundles new_bundles g dev"
proof -
  obtain b where b: "find (\<lambda>b. pb_gateway_id b = g) old_bundles = Some b"
    "Some dev \<in> en_device_public_key ` set (pb_entitlement_list b)"
    using assms(1) by (auto simp: entitled_in_def)
  then have "b \<in> set old_bundles" "pb_gateway_id b = g" using find_Some_mem [OF b(1)] by simp_all
  with b(2) assms(2) show ?thesis
    unfolding dropped_def still_entitled_iff by (auto intro!: bexI [of _ b])
qed

lemma evict_all_flows:
  "at_flows (fold at_step (map (\<lambda>(g, u, dev). EvEvictDevice g dev) gs) a) key =
     (case at_flows a key of None \<Rightarrow> None
      | Some x \<Rightarrow> if (ad_gateway x, ad_device x) \<in> evicted_pairs gs then None else Some x)"
proof (induction gs arbitrary: a)
  case Nil
  then show ?case by (simp add: evicted_pairs_def split: option.split)
next
  case (Cons gud gs)
  obtain g u dev where gud: "gud = (g, u, dev)" by (cases gud)
  have p: "evicted_pairs (gud # gs) = insert (g, dev) (evicted_pairs gs)" by (simp add: evicted_pairs_def gud)
  show ?case
    unfolding p using Cons.IH [of "at_step (EvEvictDevice g dev) a"]
    by (cases "at_flows a key") (auto simp: gud)
qed

lemma reconcile_flows:
  "at_flows (fold at_step (reconcile_events old_bundles new_bundles) a) key = Some x \<longleftrightarrow>
     at_flows a key = Some x \<and> \<not> dropped old_bundles new_bundles (ad_gateway x) (ad_device x)"
  by (auto simp: reconcile_events_def evict_all_flows evicted_pairs_iff split: option.splits if_splits)

text \<open>The bundles that entitle a flow at each stage of a heartbeat.\<close>

definition in_force :: "cp_machine \<Rightarrow> policy_bundle list" where
  "in_force s = (case cm_store s of Some state \<Rightarrow> ps_policy_bundles state | None \<Rightarrow> [])"

definition vouched :: "cp_machine \<Rightarrow> string \<Rightarrow> string \<Rightarrow> bool" where
  "vouched s g dev \<longleftrightarrow> entitled_in (in_force s) g dev \<or>
     (case cm_stage s of HbApplied (Some old_bundles) _ \<Rightarrow> entitled_in old_bundles g dev | _ \<Rightarrow> False)"

definition flows_vouched :: "cp_machine \<Rightarrow> bool" where
  "flows_vouched s \<longleftrightarrow>
     (\<forall>key x. at_flows (admissions (cm_table s)) key = Some x \<longrightarrow> vouched s (ad_gateway x) (ad_device x)) \<and>
     (\<forall>task \<in> set (cm_tasks s). entitled_in (in_force s) (fa_gateway_id (tk_request task)) (tk_device task))"

lemma steps_origin:
  assumes "at_flows (fold at_step es a) key = Some x" "list_all no_admit es"
  shows "\<exists>y. at_flows a key = Some y \<and> ad_gateway y = ad_gateway x \<and> ad_device y = ad_device x"
  using assms
proof (induction es arbitrary: a)
  case (Cons e es)
  then obtain y where y: "at_flows (at_step e a) key = Some y" "ad_gateway y = ad_gateway x" "ad_device y = ad_device x"
    by auto
  from at_step_origin [OF y(1)] Cons.prems(2) y(2,3) show ?case by (auto simp: no_admit_def)
qed simp

lemma vouched_origin:
  assumes "flows_vouched s" "at_flows (fold at_step es (admissions (cm_table s))) key = Some x" "list_all no_admit es"
  shows "vouched s (ad_gateway x) (ad_device x)"
proof -
  obtain y where y: "at_flows (admissions (cm_table s)) key = Some y" "ad_gateway y = ad_gateway x" "ad_device y = ad_device x"
    using steps_origin [OF assms(2,3)] by blast
  then have "vouched s (ad_gateway y) (ad_device y)" using assms(1) unfolding flows_vouched_def by blast
  then show ?thesis by (simp add: y(2,3))
qed

lemma set_forget_task: "set (forget_task i xs) \<subseteq> set xs"
  using set_take_subset set_drop_subset by (fastforce simp: forget_task_def)

lemma decided_entitled:
  assumes "authenticate_and_decide env store g upk sig sd now log = Some (OutcomeAllowed key rules, log')"
  shows "\<exists>state. store = Some state \<and> entitled_in (ps_policy_bundles state) g key"
proof -
  obtain u where "decide_access_at (ce_parse_rfc3339 env) store g key now = Some (Allowed u rules)"
    using authenticate_Allowed [of env store g upk sig sd now log key rules] assms by auto
  then obtain state b e where d: "store = Some state" "find (\<lambda>b. pb_gateway_id b = g) (ps_policy_bundles state) = Some b"
    "find (\<lambda>e. en_device_public_key e = Some key) (pb_entitlement_list b) = Some e"
    unfolding decide_access_Allowed by blast
  have "Some key \<in> en_device_public_key ` set (pb_entitlement_list b)"
    using find_Some_mem [OF d(3)] by (metis image_eqI)
  with d(1,2) show ?thesis by (auto simp: entitled_in_def)
qed

text \<open>The guard of a run in which no heartbeat is applied while an admission is decided and not recorded.\<close>

definition admissions_atomic :: "cp_label \<Rightarrow> cp_machine \<Rightarrow> bool" where
  "admissions_atomic l s = (case l of LApply _ _ \<Rightarrow> cm_tasks s = [] | _ \<Rightarrow> True)"

text \<open>A step that admits nothing, keeps the policy and adds no task keeps every flow vouched for.\<close>

lemma vouched_kept:
  assumes "cp_do env l s = Some s'" "ft_inv (cm_table s)" "flows_vouched s" "list_all no_admit (step_events l s)"
    and "cm_store s' = cm_store s" "cm_stage s' = cm_stage s" "set (cm_tasks s') \<subseteq> set (cm_tasks s)"
  shows "flows_vouched s'"
proof -
  have v: "vouched s' = vouched s" and f: "in_force s' = in_force s"
    by (simp_all add: vouched_def in_force_def assms(5,6) fun_eq_iff)
  have "vouched s (ad_gateway x) (ad_device x)"
    if "at_flows (admissions (cm_table s')) key = Some x" for key x
    by (rule vouched_origin [OF assms(3) that [unfolded cp_do_admissions [OF assms(1,2)]] assms(4)])
  then show ?thesis
    using assms(3,7) unfolding flows_vouched_def v f by blast
qed

lemma vouched_do:
  assumes "cp_do env l s = Some s'" "cp_ok s" "flows_vouched s" "admissions_atomic l s"
  shows "flows_vouched s'"
proof -
  have i: "ft_inv (cm_table s)" and st: "stage_ok s" using assms(2) by (simp_all add: cp_ok_def)
  note adm = cp_do_admissions [OF assms(1) i]
  show ?thesis
  proof (cases l)
    case (LDecide request now)
    then have d: "cp_decide env request now s = Some s'" using assms(1) by simp
    have "\<forall>task \<in> set (cm_tasks s'). entitled_in (in_force s) (fa_gateway_id (tk_request task)) (tk_device task)"
      using d assms(3) decided_entitled
      by (fastforce simp: cp_decide_def flows_vouched_def in_force_def
          split: option.splits admission_outcome.splits prod.splits)
    then show ?thesis
      using cp_decide_keeps [OF d] assms(3) by (simp add: flows_vouched_def vouched_def in_force_def)
  next
    case (LRecord i now)
    then have r: "cp_record env i now s = Some s'" using assms(1) by simp
    note k = cp_record_Some [OF r]
    have v: "vouched s' = vouched s" "in_force s' = in_force s"
      by (simp_all add: vouched_def in_force_def k fun_eq_iff)
    let ?task = "cm_tasks s ! i"
    have t: "entitled_in (in_force s) (fa_gateway_id (tk_request ?task)) (tk_device ?task)"
      using assms(3) k(1) by (simp add: flows_vouched_def)
    have "vouched s (ad_gateway x) (ad_device x)" if "at_flows (admissions (cm_table s')) key = Some x" for key x
      using that t assms(3) unfolding adm LRecord
      by (auto simp: step_events_def admission_event_def flows_vouched_def vouched_def
          simp del: admissions_sel split: if_splits)
    moreover have "set (cm_tasks s') \<subseteq> set (cm_tasks s)" using set_forget_task k(2) by metis
    ultimately show ?thesis using assms(3) unfolding flows_vouched_def v by blast
  next
    case (LAbort i)
    then show ?thesis
      using assms(1,3) set_forget_task [THEN subsetD]
      by (intro vouched_kept [OF assms(1) i]) (auto simp: step_events_def split: if_splits)
  next
    case (LApply response now)
    then have "cp_apply env response now s = Some s'" using assms(1) by simp
    note c = cp_apply_cases [OF this]
    show ?thesis
    proof (cases "s' = s")
      case False
      then obtain state where s': "s' = s\<lparr>cm_store := Some state,
          cm_stage := HbApplied (map_option ps_policy_bundles (cm_store s)) (hr_policy_bundles response)\<rparr>"
        "cm_stage s = HbIdle" using c by auto
      then show ?thesis
        using assms(3,4) LApply
        by (auto simp: flows_vouched_def vouched_def in_force_def admissions_atomic_def entitled_in_def
            simp del: admissions_sel split: option.splits)
    qed (use assms(3) in simp)
  next
    case (LReconcile next_id now_ms)
    then have r: "cp_reconcile next_id now_ms s = Some s'" using assms(1) by simp
    then obtain old new_bundles where h: "cm_stage s = HbApplied old new_bundles"
      by (auto simp: cp_reconcile_def split: heartbeat_stage.splits)
    then have f: "in_force s = new_bundles" using st by (auto simp: stage_ok_def in_force_def)
    have s': "cm_stage s' = HbReconciled new_bundles" "cm_store s' = cm_store s" "cm_tasks s' = cm_tasks s"
      using r h by (auto simp: cp_reconcile_def split: option.splits)
    then have f': "in_force s' = new_bundles" using f by (simp add: in_force_def)
    have "entitled_in new_bundles (ad_gateway x) (ad_device x)"
      if "at_flows (admissions (cm_table s')) key = Some x" for key x
    proof (cases old)
      case None
      then show ?thesis
        using that assms(3) h f unfolding adm LReconcile
        by (auto simp: step_events_def flows_vouched_def vouched_def simp del: admissions_sel)
    next
      case (Some old_bundles)
      then have "at_flows (admissions (cm_table s)) key = Some x"
        "\<not> dropped old_bundles new_bundles (ad_gateway x) (ad_device x)"
        using that h unfolding adm LReconcile by (simp_all add: step_events_def reconcile_flows del: admissions_sel)
      moreover from this(1) have "vouched s (ad_gateway x) (ad_device x)"
        using assms(3) unfolding flows_vouched_def by blast
      ultimately show ?thesis
        using h f Some entitled_dropped [of old_bundles "ad_gateway x" "ad_device x" new_bundles]
        by (auto simp: vouched_def)
    qed
    then show ?thesis
      using assms(3) s' f f' by (simp add: flows_vouched_def vouched_def del: admissions_sel)
  next
    case (LRules now)
    then obtain new_bundles where s': "cm_stage s = HbReconciled new_bundles" "cm_stage s' = HbIdle"
      "cm_store s' = cm_store s" "cm_tasks s' = cm_tasks s"
      using assms(1) by (auto simp: cp_rules_def split: heartbeat_stage.splits)
    have n: "list_all no_admit (step_events l s)" by (rule step_events_no_admit [OF assms(1)]) (simp add: LRules)
    have f: "in_force s' = in_force s" by (simp add: in_force_def s')
    have "entitled_in (in_force s) (ad_gateway x) (ad_device x)"
      if "at_flows (admissions (cm_table s')) key = Some x" for key x
      using vouched_origin [OF assms(3) that [unfolded adm] n] s'(1) by (simp add: vouched_def)
    then show ?thesis
      using assms(3) s' f by (simp add: flows_vouched_def vouched_def del: admissions_sel)
  next
    case (LRelease request now)
    have n: "list_all no_admit (step_events l s)" by (rule step_events_no_admit [OF assms(1)]) (simp add: LRelease)
    show ?thesis by (rule vouched_kept [OF assms(1) i assms(3) n]) (use assms(1) LRelease in auto)
  next
    case (LTraffic e)
    have n: "list_all no_admit (step_events l s)" by (rule step_events_no_admit [OF assms(1)]) (simp add: LTraffic)
    show ?thesis by (rule vouched_kept [OF assms(1) i assms(3) n]) (use assms(1) LTraffic in \<open>auto split: if_splits\<close>)
  qed
qed

lemma vouched_run:
  "cp_run admissions_atomic env s ls s' \<Longrightarrow> cp_ok s \<Longrightarrow> flows_vouched s \<Longrightarrow> flows_vouched s'"
  by (induction rule: cp_run.induct) (auto dest: cp_ok_run vouched_do)

text \<open>
  C8: in every run of the control plane in which no package is applied between the decision of
  an admission and its recording, every admitted flow is, between heartbeats, of a device the
  policy in force lists for its gateway
\<close>

theorem admitted_flows_stay_entitled:
  assumes "cp_run admissions_atomic env cp_init ls s" "cm_stage s = HbIdle"
    and "hm_get (ft_flows (cm_table s)) key = Some flow"
  shows "\<exists>state. cm_store s = Some state \<and>
    entitled_in (ps_policy_bundles state) (af_gateway_id flow) (af_device_public_key flow)"
proof -
  have "flows_vouched cp_init"
    by (simp add: flows_vouched_def cp_init_def admissions_new no_admissions_def del: admissions_sel)
  then have "flows_vouched s" by (rule vouched_run [OF assms(1) cp_ok_init])
  moreover have "at_flows (admissions (cm_table s)) key = Some (admission_of flow)" using assms(3) by simp
  ultimately have "vouched s (ad_gateway (admission_of flow)) (ad_device (admission_of flow))"
    unfolding flows_vouched_def by blast
  then show ?thesis
    using assms(2) by (auto simp: vouched_def in_force_def entitled_in_def split: option.splits)
qed


section \<open>Concrete runs\<close>

fun cp_exec :: "(cp_label \<Rightarrow> cp_machine \<Rightarrow> bool) \<Rightarrow> control_env \<Rightarrow> cp_label list \<Rightarrow> cp_machine \<Rightarrow> cp_machine option" where
  "cp_exec guard env [] s = Some s"
| "cp_exec guard env (l # ls) s = (if guard l s then Option.bind (cp_do env l s) (cp_exec guard env ls) else None)"

lemma cp_run_append_exec:
  "cp_run guard env s0 ls0 s \<Longrightarrow> cp_exec guard env ls s = Some s' \<Longrightarrow> cp_run guard env s0 (ls0 @ ls) s'"
proof (induction ls arbitrary: ls0 s)
  case Nil
  then show ?case by simp
next
  case (Cons l ls)
  then obtain s1 where "guard l s" "cp_do env l s = Some s1" "cp_exec guard env ls s1 = Some s'"
    by (auto simp: bind_eq_Some_conv split: if_splits)
  then show ?case using Cons.IH [of "ls0 @ [l]" s1] cp_run_step [OF Cons.prems(1), of l s1] by simp
qed

lemma cp_run_exec: "cp_exec guard env ls s = Some s' \<Longrightarrow> cp_run guard env s ls s'"
  using cp_run_append_exec [OF cp_run_nil, of guard env ls s s'] by simp

lemma cp_exec_append:
  "cp_exec guard env (ls @ ls') s = Some s' \<longleftrightarrow>
     (\<exists>s1. cp_exec guard env ls s = Some s1 \<and> cp_exec guard env ls' s1 = Some s')"
  by (induction ls arbitrary: s) (auto simp: bind_eq_Some_conv)

abbreviation any_run :: "cp_label \<Rightarrow> cp_machine \<Rightarrow> bool" where
  "any_run \<equiv> \<lambda>_ _. True"

definition ex_package :: "entitlement list \<Rightarrow> heartbeat_response" where
  "ex_package entitlements = \<lparr>hr_connector_id = ''c-1'', hr_connector_public_key = None,
     hr_connector_virtual_ip = None, hr_generated_at = ''t0'', hr_expires_at = ''t1'', hr_nonce = ''n'',
     hr_policy_bundles = [ex_bundle\<lparr>pb_entitlement_list := entitlements\<rparr>], hr_node_list = []\<rparr>"

definition ex_beat :: "entitlement list \<Rightarrow> cp_label list" where
  "ex_beat entitlements = [LApply (ex_package entitlements) 0, LReconcile (\<lambda>_. ''r'') 0, LRules 0]"

definition ex_listed :: "entitlement list" where
  "ex_listed = [\<lparr>en_user_id = ''u-1'', en_device_public_key = Some ''dev-1''\<rparr>]"


definition ex_race :: "cp_label list" where
  "ex_race = ex_beat ex_listed @ [LDecide ex_request 0] @ ex_beat [] @ [LRecord 0 0] @ ex_beat []"

definition ex_key :: flow_key where
  "ex_key = flow_key_new ''n-1'' 40100 (Some \<lparr>dl_transport = Tcp, dl_gateway_address = Ipv4 100 64 0 9,
     dl_destination_port = 443\<rparr>)"

lemma ex_race_exec:
  "map_option (\<lambda>s. (cm_stage s = HbIdle, map_option (\<lambda>f. (af_gateway_id f, af_device_public_key f))
       (hm_get (ft_flows (cm_table s)) ex_key), map_option ps_policy_bundles (cm_store s)))
     (cp_exec any_run ex_env ex_race cp_init) =
   Some (True, Some (''g-1'', ''dev-1''), Some [ex_bundle\<lparr>pb_entitlement_list := []\<rparr>])"
  by code_simp


text \<open>
  C20: an admission decided before a heartbeat drops its entitlement and recorded after it
  leaves a flow the policy in force does not entitle, and the next heartbeat leaves it there
\<close>

theorem stale_admission_survives:
  "\<exists>s flow. cp_run (\<lambda>_ _. True) ex_env cp_init ex_race s \<and> cm_stage s = HbIdle \<and>
     hm_get (ft_flows (cm_table s)) ex_key = Some flow \<and>
     \<not> entitled_in (in_force s) (af_gateway_id flow) (af_device_public_key flow)"
proof -
  obtain s flow state where s: "cp_exec any_run ex_env ex_race cp_init = Some s" "cm_stage s = HbIdle"
    "hm_get (ft_flows (cm_table s)) ex_key = Some flow" "cm_store s = Some state"
    "ps_policy_bundles state = [ex_bundle\<lparr>pb_entitlement_list := []\<rparr>]"
    using ex_race_exec by auto
  then show ?thesis
    by (intro exI [of _ s] exI [of _ flow]) (simp add: cp_run_exec entitled_in_def in_force_def)
qed

definition ex_release :: flow_release_request where
  "ex_release = \<lparr>rl_flow_id = ''f-1'', rl_gateway_id = ''g-1'', rl_port = 40100\<rparr>"

definition ex_decided :: "cp_label list" where
  "ex_decided = ex_beat ex_listed @ [LDecide ex_request 0]"

lemma ex_decided_exec:
  "map_option (\<lambda>s. length (cm_tasks s)) (cp_exec any_run ex_env ex_decided cp_init) = Some 1"
  by code_simp

lemma cp_record_enabled: "i < length (cm_tasks s) \<Longrightarrow> \<exists>s'. cp_do env (LRecord i now) s = Some s'"
  by (simp add: cp_record_def Let_def split_beta)

lemma release_overtakes_admission_witness:
  "\<exists>s s1 s'. cp_exec any_run ex_env ex_decided cp_init = Some s \<and>
     cp_do ex_env (LRelease ex_release 5) s = Some s1 \<and> cp_do ex_env (LRecord 0 6) s1 = Some s' \<and>
     (\<nexists>key flow. hm_get (ft_flows (cm_table s')) key = Some flow \<and> af_flow_id flow = ''f-1'')"
proof -
  obtain s where s: "cp_exec any_run ex_env ex_decided cp_init = Some s" "length (cm_tasks s) = 1"
    using ex_decided_exec by auto
  obtain s1 where r: "cp_do ex_env (LRelease ex_release 5) s = Some s1" by simp
  then have "length (cm_tasks s1) = 1" using s(2) by auto
  then obtain s' where r': "cp_do ex_env (LRecord 0 6) s1 = Some s'"
    using cp_record_enabled [of 0 s1 ex_env 6] by auto
  have i: "ft_inv (cm_table s)" using cp_ok_run [OF cp_run_exec [OF s(1)] cp_ok_init] by (simp add: cp_ok_def)
  from r' have e: "cp_exec (\<lambda>l _. within 5 l) ex_env [LRecord 0 6] s1 = Some s'"
    by (simp add: within_def RELEASED_FLOW_MEMORY_def from_secs_def)
  have "\<nexists>key flow. hm_get (ft_flows (cm_table s')) key = Some flow \<and> af_flow_id flow = ''f-1''"
    using release_overtakes_admission [OF i r cp_run_exec [OF e]] by (simp add: ex_release_def)
  with s(1) r r' show ?thesis by blast
qed

definition ex_admitted :: "cp_label list" where
  "ex_admitted = ex_decided @ [LRecord 0 0]"

lemma ex_admitted_exec:
  "map_option (\<lambda>s. (cm_stage s = HbIdle,
       map_option (\<lambda>state. rules_of (ps_policy_bundles state) ''g-1'') (cm_store s),
       map_option af_gateway_id (hm_get (ft_flows (cm_table s)) ex_key)))
     (cp_exec admissions_atomic ex_env ex_admitted cp_init) =
   Some (True, Some (Some (bundle_rules ex_bundle)), Some ''g-1'')"
  "map_option (\<lambda>s. (cm_stage s = HbIdle,
       map_option (\<lambda>state. rules_of (ps_policy_bundles state) ''g-1'') (cm_store s),
       map_option af_gateway_id (hm_get (ft_flows (cm_table s)) ex_key)))
     (cp_exec any_run ex_env ex_admitted cp_init) =
   Some (True, Some (Some (bundle_rules ex_bundle)), Some ''g-1'')"
  by code_simp+

lemma flows_follow_the_rules_in_force_witness:
  "\<exists>s flow. cp_exec any_run ex_env ex_admitted cp_init = Some s \<and>
     hm_get (ft_flows (cm_table s)) ex_key = Some flow \<and> af_rules flow = bundle_rules ex_bundle"
proof -
  obtain s flow state where s: "cp_exec any_run ex_env ex_admitted cp_init = Some s"
    "cm_stage s = HbIdle" "hm_get (ft_flows (cm_table s)) ex_key = Some flow" "af_gateway_id flow = ''g-1''"
    "cm_store s = Some state" "rules_of (ps_policy_bundles state) ''g-1'' = Some (bundle_rules ex_bundle)"
    using ex_admitted_exec(2) by auto
  with flows_follow_the_rules_in_force [OF cp_run_exec [OF s(1)] s(2,3,5), of "bundle_rules ex_bundle"] show ?thesis
    by (intro exI [of _ s] exI [of _ flow]) simp
qed

lemma admitted_flows_stay_entitled_witness:
  "\<exists>s flow state. cp_exec admissions_atomic ex_env ex_admitted cp_init = Some s \<and>
     hm_get (ft_flows (cm_table s)) ex_key = Some flow \<and> cm_store s = Some state \<and>
     entitled_in (ps_policy_bundles state) ''g-1'' (af_device_public_key flow)"
proof -
  obtain s flow where s: "cp_exec admissions_atomic ex_env ex_admitted cp_init = Some s"
    "cm_stage s = HbIdle" "hm_get (ft_flows (cm_table s)) ex_key = Some flow" "af_gateway_id flow = ''g-1''"
    using ex_admitted_exec(1) by auto
  with admitted_flows_stay_entitled [OF cp_run_exec [OF s(1)] s(2,3)] show ?thesis by auto
qed

end
