(* ===== verification/Connector.thy ===== *)
theory Connector
  imports Data_Plane Agent_Directory Control_Entitlement
begin

text \<open>
  The daemon of \<open>src/src/main.rs\<close>: the state \<open>main\<close> creates, a whole heartbeat (\<open>run_heartbeat\<close>)
  composed of the components in the order the code calls them, the two loops that run it and what they
  log of it. What runs between a heartbeat's steps is \<open>Control_Plane\<close>'s.
\<close>

section \<open>State and environment\<close>

text \<open>What \<open>main\<close> creates and every heartbeat works on.\<close>

record 't connector =
  co_directory :: directory_state
  co_store :: policy_store
  co_log :: audit_log
  co_manager :: "'t tunnel_manager"
  co_table :: flow_table
  co_cache :: dns_cache
  co_pollers :: admission_pollers
  co_queue :: gateway_end_queue

definition connector_new ::
  "(bytes \<Rightarrow> gateway_end_report list option) \<Rightarrow> file_read \<Rightarrow> 't connector" where
  "connector_new from_slice queue_file = \<lparr>co_directory = directory_new, co_store = policy_store_new, co_log = audit_log_new,
     co_manager = tunnel_manager_new, co_table = flow_table_new, co_cache = dns_new, co_pollers = pollers_new,
     co_queue = load_queue from_slice queue_file\<rparr>"

text \<open>The third-party code, the network, the disks and the configuration a heartbeat depends on.\<close>

record 't host =
  hs_net :: network
  hs_agents_json_url :: string
  hs_registry_base_url :: string
  hs_parse_rfc3339 :: "string \<Rightarrow> utc option"
  hs_show_utc :: "utc \<Rightarrow> string"
  hs_audit_disk :: disk
  hs_queue_disk :: "nat \<Rightarrow> string option"
  hs_tunn :: "'t tunn_lib"
  hs_decode_base64 :: "string \<Rightarrow> bytes option"
  hs_new_tunn :: "u32 \<Rightarrow> bytes \<Rightarrow> 't"
  hs_lookup :: "string \<Rightarrow> (string + ipv4addr list) option"
  hs_digest :: digest_lib
  hs_next_id :: "nat \<Rightarrow> string"

text \<open>The clocks a heartbeat reads, in the order it reads them.\<close>

record heartbeat_clock =
  hc_pending_ms :: i64
  hc_apply :: utc
  hc_ended_ms :: i64
  hc_now :: instant

section \<open>The exchange\<close>

definition heartbeat_request_for ::
  "'t host \<Rightarrow> heartbeat_clock \<Rightarrow> string \<Rightarrow> 't connector \<Rightarrow> heartbeat_request \<times> 't connector" where
  "heartbeat_request_for host clock connector_public_key c =
     (let old_bundles = map_option ps_policy_bundles (current_policy (co_store c));
          unresolved_endpoint_hosts = map_option (\<lambda>bundles. unresolved_hosts_in bundles (co_cache c)) old_bundles;
          (ended_flows, queue) = pending_reports (hs_queue_disk host) (hc_pending_ms clock) (co_queue c)
      in (\<lparr>hq_connector_public_key = connector_public_key,
           hq_unresolved_endpoint_hosts = unresolved_endpoint_hosts, hq_ended_flows = ended_flows\<rparr>,
          c\<lparr>co_queue := queue\<rparr>))"

text \<open>The reports a trusted answer's request carried are delivered, whatever becomes of its package.\<close>

definition exchange_heartbeat ::
  "'t host \<Rightarrow> heartbeat_clock \<Rightarrow> string \<Rightarrow> 't connector \<Rightarrow>
   (directory_error + heartbeat_response) \<times> 't connector" where
  "exchange_heartbeat host clock connector_public_key c =
     (let (request, c) = heartbeat_request_for host clock connector_public_key c;
          sent_report_ids = map gr_report_id (hq_ended_flows request);
          (result, directory) = directory_heartbeat (hs_net host) (hs_agents_json_url host)
              (hs_registry_base_url host) request (co_directory c);
          c = c\<lparr>co_directory := directory\<rparr>
      in case result of
           Inl error \<Rightarrow> (Inl error, c)
         | Inr response \<Rightarrow>
             (Inr response, c\<lparr>co_queue := snd (acknowledge (hs_queue_disk host) sent_report_ids (co_queue c))\<rparr>))"

section \<open>Putting a package in force\<close>

definition display_apply_error :: "(utc \<Rightarrow> string) \<Rightarrow> apply_error \<Rightarrow> string" where
  "display_apply_error show_utc e = (case e of
     UnparseableExpiry expires_at \<Rightarrow> ''heartbeat package has an unparseable expires_at: '' @ expires_at
   | PackageExpired expires_at now \<Rightarrow> ''heartbeat package expired at '' @ expires_at @ '' (now '' @ show_utc now @
       '') - rejecting, not updating local policy state'')"

definition apply_package ::
  "'t host \<Rightarrow> heartbeat_clock \<Rightarrow> heartbeat_response \<Rightarrow> 't connector \<Rightarrow> (apply_error + unit) \<times> 't connector" where
  "apply_package host clock response c =
     (let (apply_result, store) = apply_at (hs_parse_rfc3339 host) response (hc_apply clock) (co_store c);
          event = (case apply_result of
             Inr _ \<Rightarrow> PolicyApplied (hr_connector_id response) (length (hr_policy_bundles response))
                        (length (hr_node_list response))
           | Inl error \<Rightarrow> PolicyRejected (display_apply_error (hs_show_utc host) error))
      in (apply_result, c\<lparr>co_store := store, co_log := try_record (hs_audit_disk host) event (co_log c)\<rparr>))"

definition record_all :: "disk \<Rightarrow> audit_event list \<Rightarrow> audit_log \<Rightarrow> audit_log" where
  "record_all disk = fold (try_record disk)"

definition end_dropped_flows ::
  "'t host \<Rightarrow> heartbeat_clock \<Rightarrow> policy_bundle list option \<Rightarrow> policy_bundle list \<Rightarrow> 't connector \<Rightarrow> 't connector" where
  "end_dropped_flows host clock old_bundles new_bundles c = (case old_bundles of
     None \<Rightarrow> c
   | Some old_bundles \<Rightarrow>
       (let (reports, table) = reconcile_dropped_entitlements (hs_next_id host) old_bundles new_bundles
                (hc_ended_ms clock) (co_table c);
            (log, queue) = queue_gateway_end_reports (hs_audit_disk host) (hs_queue_disk host) reports
                (co_log c, co_queue c)
        in c\<lparr>co_table := table, co_log := log, co_queue := queue\<rparr>))"

definition end_unserved_flows ::
  "'t host \<Rightarrow> heartbeat_clock \<Rightarrow> policy_bundle list \<Rightarrow> 't connector \<Rightarrow> 't connector" where
  "end_unserved_flows host clock new_bundles c =
     (let (events, table) = reconcile_endpoint_changes new_bundles (hc_now clock) (co_table c)
      in c\<lparr>co_table := table, co_log := record_all (hs_audit_disk host) events (co_log c)\<rparr>)"

text \<open>Everything after the package is in force; the effects are the handshakes sent.\<close>

definition put_in_force ::
  "'t host \<Rightarrow> heartbeat_clock \<Rightarrow> policy_bundle list option \<Rightarrow> heartbeat_response \<Rightarrow> 't connector \<Rightarrow>
   effect list \<times> 't connector" where
  "put_in_force host clock old_bundles response c =
     (let new_bundles = hr_policy_bundles response;
          node_list = hr_node_list response;
          c = c\<lparr>co_log := record_all (hs_audit_disk host)
                  (bundle_audit_events (hs_digest host) old_bundles new_bundles) (co_log c)\<rparr>;
          (effects, manager, table) = dial_new_nodes (hs_tunn host) (hs_decode_base64 host) (hs_new_tunn host)
              node_list (co_manager c, co_table c);
          c = c\<lparr>co_manager := manager, co_table := table,
                co_pollers := sync_pollers (hr_connector_id response) node_list (co_pollers c)\<rparr>;
          c = end_dropped_flows host clock old_bundles new_bundles c;
          c = end_unserved_flows host clock new_bundles c
      in (effects, c\<lparr>co_cache := dns_refresh (hs_lookup host) (collect_endpoint_hosts new_bundles) (co_cache c)\<rparr>))"

datatype heartbeat_failure = ExchangeFailed directory_error | PackageRejected apply_error

definition run_heartbeat ::
  "'t host \<Rightarrow> heartbeat_clock \<Rightarrow> string \<Rightarrow> 't connector \<Rightarrow>
   (heartbeat_failure + ipv4addr option) \<times> effect list \<times> 't connector" where
  "run_heartbeat host clock connector_public_key c =
     (let old_bundles = map_option ps_policy_bundles (current_policy (co_store c))
      in case exchange_heartbeat host clock connector_public_key c of
           (Inl error, c) \<Rightarrow> (Inl (ExchangeFailed error), [], c)
         | (Inr response, c) \<Rightarrow>
             (case apply_package host clock response c of
                (Inl error, c) \<Rightarrow> (Inl (PackageRejected error), [], c)
              | (Inr _, c) \<Rightarrow>
                  (let (effects, c) = put_in_force host clock old_bundles response c
                   in (Inr (Option.bind (hr_connector_virtual_ip response) parse_ipv4), effects, c))))"

section \<open>The two heartbeat loops of \<open>main\<close>\<close>

text \<open>What is logged of a heartbeat's result.\<close>

datatype heartbeat_notice =
    NotRegisteredNotice string
  | HeartbeatErrorNotice heartbeat_failure
  | NoAddressYet
  | RestartNeeded ipv4addr ipv4addr
  | NoNotice

definition log_heartbeat_failure :: "heartbeat_failure \<Rightarrow> string \<Rightarrow> heartbeat_notice" where
  "log_heartbeat_failure error connector_public_key = (case error of
     ExchangeFailed (AgentRefused (Rejected _ reason)) \<Rightarrow>
       if is_not_registered reason then NotRegisteredNotice connector_public_key else HeartbeatErrorNotice error
   | _ \<Rightarrow> HeartbeatErrorNotice error)"

text \<open>
  The start-up loop, an element per attempt: it ends with the first heartbeat that brings an address,
  which the TUN device is then created with; \<open>None\<close> while it is still retrying.
\<close>

fun startup_loop ::
  "string \<Rightarrow> ('t host \<times> heartbeat_clock) list \<Rightarrow> 't connector \<Rightarrow>
   ipv4addr option \<times> heartbeat_notice list \<times> 't connector" where
  "startup_loop connector_public_key [] c = (None, [], c)"
| "startup_loop connector_public_key ((host, clock) # attempts) c =
     (case run_heartbeat host clock connector_public_key c of
        (Inr (Some ip), _, c) \<Rightarrow> (Some ip, [], c)
      | (Inr None, _, c) \<Rightarrow>
          (let (r, notices, c) = startup_loop connector_public_key attempts c in (r, NoAddressYet # notices, c))
      | (Inl error, _, c) \<Rightarrow>
          (let (r, notices, c) = startup_loop connector_public_key attempts c
           in (r, log_heartbeat_failure error connector_public_key # notices, c)))"

definition steady_turn ::
  "'t host \<Rightarrow> heartbeat_clock \<Rightarrow> string \<Rightarrow> ipv4addr \<Rightarrow> 't connector \<Rightarrow> heartbeat_notice \<times> effect list \<times> 't connector" where
  "steady_turn host clock connector_public_key connector_virtual_ip c =
     (case run_heartbeat host clock connector_public_key c of
        (Inr (Some latest), effects, c) \<Rightarrow>
          (if latest \<noteq> connector_virtual_ip then RestartNeeded connector_virtual_ip latest else NoNotice, effects, c)
      | (Inr None, effects, c) \<Rightarrow> (NoNotice, effects, c)
      | (Inl error, effects, c) \<Rightarrow> (log_heartbeat_failure error connector_public_key, effects, c))"

section \<open>What each part leaves alone\<close>

lemma heartbeat_request_keeps:
  assumes "heartbeat_request_for host clock pk c = (request, c')"
  shows "c' = c\<lparr>co_queue := snd (pending_reports (hs_queue_disk host) (hc_pending_ms clock) (co_queue c))\<rparr>"
    "hq_ended_flows request = fst (pending_reports (hs_queue_disk host) (hc_pending_ms clock) (co_queue c))"
  using assms by (auto simp: heartbeat_request_for_def Let_def split: prod.splits)

lemma exchange_keeps:
  assumes "exchange_heartbeat host clock pk c = (r, c')"
  shows "co_queue c' = (case r of
       Inl _ \<Rightarrow> snd (pending_reports (hs_queue_disk host) (hc_pending_ms clock) (co_queue c))
     | Inr _ \<Rightarrow> snd (acknowledge (hs_queue_disk host)
         (map gr_report_id (fst (pending_reports (hs_queue_disk host) (hc_pending_ms clock) (co_queue c))))
         (snd (pending_reports (hs_queue_disk host) (hc_pending_ms clock) (co_queue c))))) \<and>
    co_store c' = co_store c \<and> co_log c' = co_log c \<and> co_manager c' = co_manager c \<and>
    co_table c' = co_table c \<and> co_cache c' = co_cache c \<and> co_pollers c' = co_pollers c"
proof -
  obtain request c1 where q: "heartbeat_request_for host clock pk c = (request, c1)" by force
  obtain a d where h: "directory_heartbeat (hs_net host) (hs_agents_json_url host)
      (hs_registry_base_url host) request (co_directory c) = (a, d)" by force
  show ?thesis
    using assms heartbeat_request_keeps [OF q]
    by (cases a) (auto simp: exchange_heartbeat_def q h)
qed

lemma exchange_frame:
  assumes "exchange_heartbeat host clock pk c = (r, c')"
  shows "co_store c' = co_store c" "co_log c' = co_log c" "co_manager c' = co_manager c"
    "co_table c' = co_table c" "co_cache c' = co_cache c" "co_pollers c' = co_pollers c"
  using exchange_keeps [OF assms] by simp_all

lemma apply_package_frame:
  assumes "apply_package host clock response c = (r, c')"
  shows "apply_at (hs_parse_rfc3339 host) response (hc_apply clock) (co_store c) = (r, co_store c')"
    "co_manager c' = co_manager c" "co_table c' = co_table c" "co_cache c' = co_cache c"
    "co_pollers c' = co_pollers c" "co_queue c' = co_queue c" "co_directory c' = co_directory c"
    "co_log c' = try_record (hs_audit_disk host) (case r of
        Inr _ \<Rightarrow> PolicyApplied (hr_connector_id response) (length (hr_policy_bundles response))
                   (length (hr_node_list response))
      | Inl error \<Rightarrow> PolicyRejected (display_apply_error (hs_show_utc host) error)) (co_log c)"
  using assms by (auto simp: apply_package_def Let_def split: prod.splits)

lemma end_dropped_frame [simp]:
  "co_store (end_dropped_flows host clock old new c) = co_store c"
  "co_manager (end_dropped_flows host clock old new c) = co_manager c"
  "co_cache (end_dropped_flows host clock old new c) = co_cache c"
  "co_pollers (end_dropped_flows host clock old new c) = co_pollers c"
  "co_directory (end_dropped_flows host clock old new c) = co_directory c"
  by (auto simp: end_dropped_flows_def Let_def split: option.split prod.split)

lemma end_dropped_table:
  "co_table (end_dropped_flows host clock old new c) =
     fold ft_step (case old of None \<Rightarrow> [] | Some old_bundles \<Rightarrow> reconcile_events old_bundles new) (co_table c)"
proof (cases old)
  case None
  then show ?thesis by (simp add: end_dropped_flows_def)
next
  case (Some old_bundles)
  then show ?thesis
    using reconcile_is_events [of "hs_next_id host" old_bundles new "hc_ended_ms clock" "co_table c"]
    by (simp add: end_dropped_flows_def Let_def split_beta)
qed

lemma end_unserved_frame [simp]:
  "co_store (end_unserved_flows host clock new c) = co_store c"
  "co_manager (end_unserved_flows host clock new c) = co_manager c"
  "co_cache (end_unserved_flows host clock new c) = co_cache c"
  "co_pollers (end_unserved_flows host clock new c) = co_pollers c"
  "co_directory (end_unserved_flows host clock new c) = co_directory c"
  "co_queue (end_unserved_flows host clock new c) = co_queue c"
  "co_table (end_unserved_flows host clock new c) = fold ft_step (rule_events new (hc_now clock)) (co_table c)"
  by (auto simp: end_unserved_flows_def Let_def rules_are_events [symmetric] split: prod.split)

lemma put_in_force_parts:
  assumes "put_in_force host clock old response c = (effects, c')"
    and "dial_new_nodes (hs_tunn host) (hs_decode_base64 host) (hs_new_tunn host)
      (hr_node_list response) (co_manager c, co_table c) = (effects', manager, table)"
  shows "effects = effects'" "co_store c' = co_store c" "co_manager c' = manager" "co_directory c' = co_directory c"
    "co_cache c' = dns_refresh (hs_lookup host) (collect_endpoint_hosts (hr_policy_bundles response)) (co_cache c)"
    "co_pollers c' = sync_pollers (hr_connector_id response) (hr_node_list response) (co_pollers c)"
    "co_table c' = fold ft_step (rule_events (hr_policy_bundles response) (hc_now clock))
      (fold ft_step (case old of None \<Rightarrow> [] | Some old_bundles \<Rightarrow> reconcile_events old_bundles (hr_policy_bundles response)) table)"
  using assms by (auto simp: put_in_force_def Let_def end_dropped_table)

section \<open>The invariant\<close>

definition connector_ok :: "(string \<Rightarrow> utc option) \<Rightarrow> 't connector \<Rightarrow> bool" where
  "connector_ok parse c \<longleftrightarrow> dp_inv (co_manager c, co_table c) \<and> store_ok parse (co_store c) \<and>
     dns_inv (co_cache c) \<and> pollers_ok (co_pollers c) \<and> dir_ok (co_directory c)"

lemma connector_ok_new: "connector_ok parse (connector_new from_slice queue_file)"
  by (simp add: connector_ok_def connector_new_def dp_inv_def tm_inv_new ft_inv_new store_ok_new dns_inv_new
      pollers_ok_new dir_ok_new)

lemma apply_package_ok:
  assumes "apply_package host clock response c = (r, c')" "connector_ok (hs_parse_rfc3339 host) c"
  shows "connector_ok (hs_parse_rfc3339 host) c'"
  using apply_package_frame [OF assms(1)] assms(2)
    apply_at_store_ok [of "hs_parse_rfc3339 host" "co_store c" response "hc_apply clock"]
  by (simp add: connector_ok_def)

lemma put_in_force_ok:
  assumes "put_in_force host clock old response c = (effects, c')" "connector_ok parse c"
  shows "connector_ok parse c'"
proof -
  obtain effects' manager table where d: "dial_new_nodes (hs_tunn host) (hs_decode_base64 host) (hs_new_tunn host)
      (hr_node_list response) (co_manager c, co_table c) = (effects', manager, table)" by (metis prod.exhaust)
  note p = put_in_force_parts [OF assms(1) d]
  have "dp_inv (manager, table)"
    using dial_new_nodes_inv [of "(co_manager c, co_table c)"] d assms(2) by (metis connector_ok_def snd_conv)
  then have "tm_inv manager" "ft_inv (co_table c')"
    unfolding p(7) by (auto simp: dp_inv_def intro!: ft_run.inv_run)
  then show ?thesis
    using assms(2) p by (simp add: connector_ok_def dp_inv_def dns_refresh_inv sync_pollers_ok)
qed

lemma exchange_directory:
  assumes "exchange_heartbeat host clock pk c = (r, c')" "dir_ok (co_directory c)"
  shows "dir_ok (co_directory c')"
proof -
  obtain request c1 where q: "heartbeat_request_for host clock pk c = (request, c1)" by force
  have "co_directory c1 = co_directory c" using heartbeat_request_keeps(1) [OF q] by simp
  then show ?thesis
    using assms directory_heartbeat_ok [of "co_directory c1" "hs_net host" "hs_agents_json_url host"
        "hs_registry_base_url host" request]
    by (auto simp: exchange_heartbeat_def q Let_def split: prod.splits sum.splits)
qed

lemma exchange_ok: "exchange_heartbeat host clock pk c = (r, c') \<Longrightarrow> connector_ok parse c \<Longrightarrow> connector_ok parse c'"
  using exchange_frame [of host clock pk c r c'] exchange_directory [of host clock pk c r c']
  by (simp add: connector_ok_def)

lemma run_heartbeat_ok:
  assumes "connector_ok (hs_parse_rfc3339 host) c"
  shows "connector_ok (hs_parse_rfc3339 host) (snd (snd (run_heartbeat host clock pk c)))"
proof -
  obtain r c1 where e: "exchange_heartbeat host clock pk c = (r, c1)" by force
  have o1: "connector_ok (hs_parse_rfc3339 host) c1" by (rule exchange_ok [OF e assms])
  show ?thesis
  proof (cases r)
    case (Inl error)
    then show ?thesis using o1 by (simp add: run_heartbeat_def e)
  next
    case (Inr response)
    obtain q c2 where a: "apply_package host clock response c1 = (q, c2)" by force
    have o2: "connector_ok (hs_parse_rfc3339 host) c2" by (rule apply_package_ok [OF a o1])
    let ?old = "map_option ps_policy_bundles (current_policy (co_store c))"
    obtain effects c3 where p: "put_in_force host clock ?old response c2 = (effects, c3)" by force
    show ?thesis
      using put_in_force_ok [OF p o2] o2 Inr by (cases q) (simp_all add: run_heartbeat_def e a p)
  qed
qed


text \<open>The outcomes of a heartbeat.\<close>

lemma run_heartbeat_cases:
  assumes "run_heartbeat host clock pk c = (result, effects, c')"
  obtains (exchange) error where "exchange_heartbeat host clock pk c = (Inl error, c')"
      "result = Inl (ExchangeFailed error)" "effects = []"
  | (rejected) response error c1 where "exchange_heartbeat host clock pk c = (Inr response, c1)"
      "apply_package host clock response c1 = (Inl error, c')" "result = Inl (PackageRejected error)" "effects = []"
  | (applied) response c1 u c2 where "exchange_heartbeat host clock pk c = (Inr response, c1)"
      "apply_package host clock response c1 = (Inr u, c2)"
      "put_in_force host clock (map_option ps_policy_bundles (co_store c)) response c2 = (effects, c')"
      "result = Inr (Option.bind (hr_connector_virtual_ip response) parse_ipv4)"
proof -
  obtain r c1 where e: "exchange_heartbeat host clock pk c = (r, c1)" by force
  show thesis
  proof (cases r)
    case (Inl error)
    then show thesis using assms e exchange by (simp add: run_heartbeat_def)
  next
    case (Inr response)
    obtain q c2 where a: "apply_package host clock response c1 = (q, c2)" by force
    show thesis
    proof (cases q)
      case (Inl error)
      then show thesis using assms e a Inr rejected by (simp add: run_heartbeat_def)
    next
      case r: (Inr u)
      show thesis
        using assms e a Inr r applied
        by (auto simp: run_heartbeat_def current_policy_def Let_def split: prod.splits)
    qed
  qed
qed

text \<open>
  C14: a heartbeat that fails leaves policy, tunnels, flows, cache and pollers as they were
  and sends nothing; one without a trusted answer keeps every report still in its serving
  window, and a rejected package is only audited
\<close>

theorem failed_heartbeat_changes_nothing:
  assumes "run_heartbeat host clock pk c = (Inl e, effects, c')"
  shows "effects = [] \<and> co_store c' = co_store c \<and> co_manager c' = co_manager c \<and> co_table c' = co_table c \<and>
    co_cache c' = co_cache c \<and> co_pollers c' = co_pollers c \<and>
    (case e of
       ExchangeFailed _ \<Rightarrow> co_log c' = co_log c \<and>
         gq_reports (co_queue c') = filter (in_window (hc_pending_ms clock)) (gq_reports (co_queue c))
     | PackageRejected error \<Rightarrow> co_log c' = try_record (hs_audit_disk host)
         (PolicyRejected (display_apply_error (hs_show_utc host) error)) (co_log c))"
  using assms
proof (cases rule: run_heartbeat_cases)
  case (exchange error)
  then show ?thesis
    using exchange_frame [OF exchange(1)] exchange_keeps [OF exchange(1)] by (auto simp: pending_reports_eq)
next
  case (rejected response error c1)
  have "co_store c' = co_store c1"
    using apply_package_frame(1) [OF rejected(2)] by (auto simp: apply_at_def split: option.splits if_splits)
  then show ?thesis
    using exchange_frame [OF rejected(1)] apply_package_frame(2-8) [OF rejected(2)] rejected(3,4) by simp
qed simp


lemma sync_pollers_running:
  "pollers_ok p \<Longrightarrow> hm_get (pl_tasks (sync_pollers c nodes p)) n \<noteq> None \<longleftrightarrow> \<not> is_blank c \<and> n \<in> hn_node_id ` set nodes"
proof (cases "is_blank c")
  case True
  then show ?thesis by (simp add: sync_pollers_def stop_all_def)
next
  case False
  assume "pollers_ok p"
  then show ?thesis
    unfolding sync_pollers_eq [OF False] fold_start_running
    by (simp add: kept_pollers_get False del: not_None_eq)
qed

lemma put_in_force_rules:
  assumes "put_in_force host clock old response c = (effects, c')" "connector_ok parse c"
  shows "current_rules g (co_table c') = rules_of (hr_policy_bundles response) g"
    and "hm_get (ft_flows (co_table c')) key = Some flow \<Longrightarrow> old = Some old_bundles \<Longrightarrow>
      \<not> dropped old_bundles (hr_policy_bundles response) (af_gateway_id flow) (af_device_public_key flow)"
proof -
  obtain effects' manager table where d: "dial_new_nodes (hs_tunn host) (hs_decode_base64 host) (hs_new_tunn host)
      (hr_node_list response) (co_manager c, co_table c) = (effects', manager, table)" by (metis prod.exhaust)
  note p = put_in_force_parts(7) [OF assms(1) d]
  have "dp_inv (manager, table)"
    using dial_new_nodes_inv [of "(co_manager c, co_table c)"] d assms(2) by (metis connector_ok_def snd_conv)
  then have i: "ft_inv table" by (simp add: dp_inv_def)
  let ?es = "case old of None \<Rightarrow> [] | Some old_bundles \<Rightarrow> reconcile_events old_bundles (hr_policy_bundles response)"
  have i2: "ft_inv (fold ft_step ?es table)" using i by (rule ft_run.inv_run)
  have a: "admissions (co_table c') = fold at_step (rule_events (hr_policy_bundles response) (hc_now clock))
      (fold at_step ?es (admissions table))"
    unfolding p ft_run.simulates_run [OF i2] ft_run.simulates_run [OF i] ..
  have "at_rules (admissions (co_table c')) g = rules_of (hr_policy_bundles response) g"
    unfolding a by (rule rule_events_rules)
  then show "current_rules g (co_table c') = rules_of (hr_policy_bundles response) g"
    by (simp add: current_rules_def)
  assume k: "hm_get (ft_flows (co_table c')) key = Some flow" and o': "old = Some old_bundles"
  then have x: "at_flows (fold at_step (rule_events (hr_policy_bundles response) (hc_now clock))
      (fold at_step ?es (admissions table))) key = Some (admission_of flow)"
    unfolding a [symmetric] by simp
  have "list_all no_admit (rule_events (hr_policy_bundles response) (hc_now clock))"
    by (simp add: rule_events_def no_admit_def list_all_iff)
  from steps_origin [OF x this] show
    "\<not> dropped old_bundles (hr_policy_bundles response) (af_gateway_id flow) (af_device_public_key flow)"
    unfolding o' option.case reconcile_flows by force
qed

text \<open>What an accepted package leaves in the store, and the dial in the manager.\<close>

lemma applied_store:
  assumes "apply_package host clock response c = (Inr u, c')"
  shows "\<exists>expires. hs_parse_rfc3339 host (hr_expires_at response) = Some expires \<and> hc_apply clock < expires"
    "map_option ps_policy_bundles (co_store c') = Some (hr_policy_bundles response)"
proof -
  have "apply_at (hs_parse_rfc3339 host) response (hc_apply clock) (co_store c) = (Inr u, co_store c')"
    by (rule apply_package_frame(1) [OF assms])
  then show "\<exists>expires. hs_parse_rfc3339 host (hr_expires_at response) = Some expires \<and> hc_apply clock < expires"
    "map_option ps_policy_bundles (co_store c') = Some (hr_policy_bundles response)"
    by (auto simp: apply_at_def not_le dest!: sym [of "Some _" "co_store c'"] split: option.splits if_splits)
qed

lemma dialled_listed:
  assumes "dial_new_nodes lib decode new_tunn nodes (m, t) = (effects, manager, table)" "tm_inv m"
  shows "tunnel_for manager n \<noteq> None \<longrightarrow> n \<in> listed nodes"
proof (intro impI, rule ccontr)
  assume a: "tunnel_for manager n \<noteq> None" "n \<notin> listed nodes"
  have "manager = snd (dial_nodes lib nodes (snd (sync_nodes decode new_tunn nodes m)))"
    using assms(1) by (simp add: dial_new_nodes_def split_beta)
  then show False using a(1) sync_nodes_gone [OF assms(2) a(2), of lib decode new_tunn] by simp
qed


text \<open>The connector after a sequence of heartbeats, each with its own network and clocks.\<close>

definition after_heartbeats ::
  "'t host \<Rightarrow> string \<Rightarrow>
   (bytes \<Rightarrow> gateway_end_report list option) \<Rightarrow> file_read \<Rightarrow> (network \<times> heartbeat_clock) list \<Rightarrow> 't connector" where
  "after_heartbeats host pk from_slice queue_file beats =
     fold (\<lambda>(net, clock) c. snd (snd (run_heartbeat (host\<lparr>hs_net := net\<rparr>) clock pk c))) beats
       (connector_new from_slice queue_file)"

interpretation heartbeats: invariant_machine
  "\<lambda>(net, clock) c. snd (snd (run_heartbeat (host\<lparr>hs_net := net\<rparr>) clock pk c))"
  "connector_ok (hs_parse_rfc3339 host)" for host :: "'t host" and pk
proof unfold_locales
  fix c :: "'t connector" and e :: "network \<times> heartbeat_clock"
  assume "connector_ok (hs_parse_rfc3339 host) c"
  then show "connector_ok (hs_parse_rfc3339 host)
      ((case e of (net, clock) \<Rightarrow> \<lambda>c. snd (snd (run_heartbeat (host\<lparr>hs_net := net\<rparr>) clock pk c))) c)"
    using run_heartbeat_ok [of "host\<lparr>hs_net := fst e\<rparr>" c "snd e" pk] by (simp add: split_beta)
qed

theorem heartbeats_keep_the_state_well_formed:
  "connector_ok (hs_parse_rfc3339 host) (after_heartbeats host pk from_slice queue_file beats)"
  unfolding after_heartbeats_def by (rule heartbeats.inv_run) (rule connector_ok_new)


lemma startup_Cons:
  "startup_loop pk ((host, clock) # attempts) c =
     (case run_heartbeat host clock pk c of
        (Inr (Some ip), _, c1) \<Rightarrow> (Some ip, [], c1)
      | (Inr None, _, c1) \<Rightarrow> (fst (startup_loop pk attempts c1),
          NoAddressYet # fst (snd (startup_loop pk attempts c1)), snd (snd (startup_loop pk attempts c1)))
      | (Inl error, _, c1) \<Rightarrow> (fst (startup_loop pk attempts c1),
          log_heartbeat_failure error pk # fst (snd (startup_loop pk attempts c1)), snd (snd (startup_loop pk attempts c1))))"
  by (auto simp: split_beta Let_def split: sum.split option.split)

lemma run_heartbeat_store:
  assumes "run_heartbeat host clock pk c = (Inr r, effects, c')"
  shows "\<exists>state. co_store c' = Some state"
  using assms
proof (cases rule: run_heartbeat_cases)
  case (applied response c1 u c2)
  obtain effects' manager table where d: "dial_new_nodes (hs_tunn host) (hs_decode_base64 host) (hs_new_tunn host)
      (hr_node_list response) (co_manager c2, co_table c2) = (effects', manager, table)" by (metis prod.exhaust)
  show ?thesis
    using put_in_force_parts(2) [OF applied(3) d] apply_package_frame(1) [OF applied(2)]
    by (auto simp: apply_at_def dest!: sym [of "Some _" "co_store c2"] split: option.splits if_splits)
qed simp_all

theorem no_device_before_a_policy:
  assumes "startup_loop pk attempts c = (r, notices, c')"
  shows "(r \<noteq> None \<longrightarrow> (\<exists>state. co_store c' = Some state) \<and> length notices < length attempts) \<and>
    (r = None \<longrightarrow> length notices = length attempts)"
  using assms
proof (induction attempts arbitrary: c r notices c')
  case Nil
  then show ?case by simp
next
  case (Cons hc attempts)
  obtain host clock where hc: "hc = (host, clock)" by force
  obtain x effects c1 where h: "run_heartbeat host clock pk c = (x, effects, c1)" by (metis prod.exhaust)
  obtain r1 n1 c2 where l: "startup_loop pk attempts c1 = (r1, n1, c2)" by (metis prod.exhaust)
  consider (brought) ip where "x = Inr (Some ip)" | (not_yet) "\<nexists>ip. x = Inr (Some ip)" by blast
  then show ?case
  proof cases
    case brought
    then show ?thesis
      using Cons.prems h run_heartbeat_store [OF h [unfolded brought]] by (auto simp: hc startup_Cons)
  next
    case not_yet
    then have "r = r1 \<and> c' = c2 \<and> length notices = Suc (length n1)"
      using Cons.prems h l by (auto simp: hc startup_Cons split: sum.splits option.splits)
    with Cons.IH [OF l] show ?thesis by simp
  qed
qed

section \<open>Examples\<close>

definition ex_host :: "nat host" where
  "ex_host = \<lparr>hs_net = ex_net, hs_agents_json_url = ''u'', hs_registry_base_url = ''r'',
     hs_parse_rfc3339 = (\<lambda>_. Some 10), hs_show_utc = (\<lambda>_. ''now''), hs_audit_disk = (\<lambda>_. None),
     hs_queue_disk = (\<lambda>_. None), hs_tunn = ex_lib, hs_decode_base64 = (\<lambda>_. None), hs_new_tunn = (\<lambda>i _. unat i),
     hs_lookup = (\<lambda>_. None), hs_digest = \<lparr>dg_json = (\<lambda>_. []), dg_sha256 = (\<lambda>_. []), dg_hex = (\<lambda>_. [])\<rparr>,
     hs_next_id = (\<lambda>_. ''r'')\<rparr>"

definition ex_clock :: heartbeat_clock where
  "ex_clock = \<lparr>hc_pending_ms = 0, hc_apply = 5, hc_ended_ms = 0, hc_now = 0\<rparr>"

text \<open>The first start: no queue file yet.\<close>

abbreviation ex_start :: "nat connector" where
  "ex_start \<equiv> connector_new (\<lambda>_. None) FileMissing"

lemma ex_no_list: "candidates (ex_net\<lparr>nw_get := (\<lambda>_. None)\<rparr>) ''u'' directory_new = (Inl (ListUnavailable ''u''), directory_new)"
  by (simp add: candidates_def fetch_operational_agents_def directory_new_def)

lemma ex_request_for: "heartbeat_request_for (ex_host\<lparr>hs_net := net\<rparr>) ex_clock ''cpk'' ex_start =
    (ex_hq, ex_start)"
  by (simp add: heartbeat_request_for_def connector_new_def policy_store_new_def current_policy_def
      load_queue_def load_reports_def pending_reports_def ex_hq_def)

lemma ex_exchange: "\<exists>c1. exchange_heartbeat ex_host ex_clock ''cpk'' ex_start = (Inr Agent_Directory.ex_heartbeat, c1)"
proof -
  have "fst (directory_heartbeat ex_net ''u'' ''r'' ex_hq directory_new) = Inr Agent_Directory.ex_heartbeat"
    unfolding directory_heartbeat_def ex_candidates by code_simp
  moreover have "heartbeat_request_for ex_host ex_clock ''cpk'' ex_start = (ex_hq, ex_start)"
    using ex_request_for [of ex_net] by (simp add: ex_host_def)
  ultimately show ?thesis
    by (simp add: exchange_heartbeat_def ex_host_def connector_new_def Let_def split_beta)
qed

lemma ex_failed: "\<exists>c'. run_heartbeat (ex_host\<lparr>hs_net := ex_net\<lparr>nw_get := (\<lambda>_. None)\<rparr>\<rparr>) ex_clock ''cpk'' ex_start =
    (Inl (ExchangeFailed (ListUnavailable ''u'')), [], c')"
  by (simp add: run_heartbeat_def exchange_heartbeat_def ex_request_for directory_heartbeat_def)
    (simp add: ex_host_def connector_new_def ex_no_list)

lemma failed_heartbeat_changes_nothing_witness:
  "\<exists>e effects c'. run_heartbeat (ex_host\<lparr>hs_net := ex_net\<lparr>nw_get := (\<lambda>_. None)\<rparr>\<rparr>) ex_clock ''cpk'' ex_start =
      (Inl e, effects, c') \<and> co_table c' = flow_table_new \<and> co_store c' = None"
  using ex_failed failed_heartbeat_changes_nothing
  by (fastforce simp: connector_new_def policy_store_new_def)

lemma ex_heartbeat_run: "\<exists>effects c'. run_heartbeat ex_host ex_clock ''cpk'' ex_start =
    (Inr (parse_ipv4 ''100.127.0.1''), effects, c')"
proof -
  obtain c1 where e: "exchange_heartbeat ex_host ex_clock ''cpk'' ex_start = (Inr Agent_Directory.ex_heartbeat, c1)"
    using ex_exchange by blast
  have "\<exists>c2. apply_package ex_host ex_clock Agent_Directory.ex_heartbeat c1 = (Inr (), c2)"
    by (simp add: apply_package_def apply_at_def ex_host_def ex_clock_def)
  then show ?thesis
    by (auto simp: run_heartbeat_def e Agent_Directory.ex_heartbeat_def split: prod.split)
qed


lemma no_device_before_a_policy_witness:
  "\<exists>notices c'. startup_loop ''cpk'' [(ex_host, ex_clock)] ex_start = (Some (Ipv4 100 127 0 1), notices, c') \<and>
     notices = [] \<and> co_store c' \<noteq> None"
proof -
  have ip: "parse_ipv4 ''100.127.0.1'' = Some (Ipv4 100 127 0 1)" by code_simp
  obtain effects c' where r: "run_heartbeat ex_host ex_clock ''cpk'' ex_start =
      (Inr (Some (Ipv4 100 127 0 1)), effects, c')" using ex_heartbeat_run by (auto simp: ip)
  then have "startup_loop ''cpk'' [(ex_host, ex_clock)] ex_start = (Some (Ipv4 100 127 0 1), [], c')"
    by simp
  from this no_device_before_a_policy [OF this] show ?thesis by auto
qed

end
