(* ===== verification/Identity.thy ===== *)
theory Identity
  imports Access_Control
begin

text \<open>
  The Connector's key pair, from \<open>src/src/identity.rs\<close>: loading the two-line key file, generating and
  persisting a pair, and which of the two a start does. The base64 and X25519 crates, the random
  source and the outcomes of the file system's calls are parameters.
\<close>

section \<open>Lines of a text\<close>

text \<open>\<open>str::lines\<close>: a line ends at a line feed, a carriage return right before it is dropped.\<close>

definition line_feed :: char where "line_feed = CHR 0x0A"

definition strip_cr :: "string \<Rightarrow> string" where
  "strip_cr line = (if line \<noteq> [] \<and> last line = CHR 0x0D then butlast line else line)"

function lines_of :: "string \<Rightarrow> string list" where
  "lines_of s =
     (if s = [] then []
      else (case dropWhile (\<lambda>c. c \<noteq> line_feed) s of
              [] \<Rightarrow> [s]
            | _ # rest \<Rightarrow> strip_cr (takeWhile (\<lambda>c. c \<noteq> line_feed) s) # lines_of rest))"
  by pat_completeness auto

termination
proof (relation "measure length", simp)
  fix s :: string and c rest
  assume "dropWhile (\<lambda>c. c \<noteq> line_feed) s = c # rest"
  then show "(rest, s) \<in> measure length"
    using length_dropWhile_le [of "\<lambda>c. c \<noteq> line_feed" s] by simp
qed

declare lines_of.simps [simp del]

section \<open>The key pair\<close>

text \<open>The base64 and x25519-dalek crates; a \<open>StaticSecret\<close> is its 32 bytes.\<close>

record identity_lib =
  il_encode :: "bytes \<Rightarrow> string"
  il_decode :: "string \<Rightarrow> bytes option"
  il_public_of :: "bytes \<Rightarrow> bytes"

record connector_identity =
  ci_secret :: bytes
  ci_public_key_base64 :: string

datatype identity_error =
    NoIdentityFile
  | ReadFailed string
  | EmptyFile
  | MissingPublicKey
  | BadPrivateKey
  | CorruptPair
  | DirectoryFailed string
  | WriteFailed string
  | PermissionsFailed string

definition encode_secret_base64 :: "identity_lib \<Rightarrow> bytes \<Rightarrow> string" where
  "encode_secret_base64 lib secret = il_encode lib secret"

definition encode_public_base64 :: "identity_lib \<Rightarrow> bytes \<Rightarrow> string" where
  "encode_public_base64 lib public = il_encode lib public"

definition decode_secret_base64 :: "identity_lib \<Rightarrow> string \<Rightarrow> bytes option" where
  "decode_secret_base64 lib value = (case il_decode lib value of
     None \<Rightarrow> None
   | Some bytes \<Rightarrow> if length bytes = 32 then Some bytes else None)"

section \<open>The key file\<close>

datatype identity_file = NoFile | UnreadableFile string | FileText string

definition load_identity :: "identity_lib \<Rightarrow> identity_file \<Rightarrow> identity_error + connector_identity" where
  "load_identity lib file = (case file of
     NoFile \<Rightarrow> Inl (ReadFailed ''not found'')
   | UnreadableFile error \<Rightarrow> Inl (ReadFailed error)
   | FileText contents \<Rightarrow>
       (case lines_of contents of
          [] \<Rightarrow> Inl EmptyFile
        | [_] \<Rightarrow> Inl MissingPublicKey
        | private_line # public_line # _ \<Rightarrow>
            (let private_key_base64 = trim_str private_line;
                 public_key_base64 = trim_str public_line
             in case decode_secret_base64 lib private_key_base64 of
                  None \<Rightarrow> Inl BadPrivateKey
                | Some secret \<Rightarrow>
                    if encode_public_base64 lib (il_public_of lib secret) \<noteq> public_key_base64 then Inl CorruptPair
                    else Inr \<lparr>ci_secret = secret, ci_public_key_base64 = public_key_base64\<rparr>)))"

text \<open>
  How the file system's calls end, \<open>None\<close> where one succeeds (a path without a parent has no directory
  to create); a failed write also says what it leaves of the file.
\<close>

record persist_outcome =
  po_directory :: "string option"
  po_write :: "(string \<times> identity_file) option"
  po_permissions :: "string option"

text \<open>\<open>secret\<close> is what the system's random source gives.\<close>

definition generate_and_persist ::
  "identity_lib \<Rightarrow> bytes \<Rightarrow> persist_outcome \<Rightarrow> identity_file \<Rightarrow>
   (identity_error + connector_identity) \<times> identity_file" where
  "generate_and_persist lib secret outcome file =
     (let public_key_base64 = encode_public_base64 lib (il_public_of lib secret);
          private_key_base64 = encode_secret_base64 lib secret;
          contents = private_key_base64 @ [line_feed] @ public_key_base64 @ [line_feed]
      in case po_directory outcome of
           Some error \<Rightarrow> (Inl (DirectoryFailed error), file)
         | None \<Rightarrow>
             (case po_write outcome of
                Some (error, left) \<Rightarrow> (Inl (WriteFailed error), left)
              | None \<Rightarrow>
                  (case po_permissions outcome of
                     Some error \<Rightarrow> (Inl (PermissionsFailed error), FileText contents)
                   | None \<Rightarrow> (Inr \<lparr>ci_secret = secret, ci_public_key_base64 = public_key_base64\<rparr>,
                               FileText contents))))"

definition load_or_generate ::
  "identity_lib \<Rightarrow> bytes \<Rightarrow> persist_outcome \<Rightarrow> identity_file \<Rightarrow>
   (identity_error + connector_identity) \<times> identity_file" where
  "load_or_generate lib secret outcome file =
     (if file \<noteq> NoFile then (load_identity lib file, file)
      else generate_and_persist lib secret outcome file)"

definition load_existing :: "identity_lib \<Rightarrow> identity_file \<Rightarrow> identity_error + connector_identity" where
  "load_existing lib file = (if file = NoFile then Inl NoIdentityFile else load_identity lib file)"

section \<open>Base64 texts\<close>

definition base64_alphabet :: string where
  "base64_alphabet = ''ABCDEFGHIJKLMNOPQRSTUVWXYZabcdefghijklmnopqrstuvwxyz0123456789+/=''"

text \<open>What the base64 crate documents: decoding undoes encoding, and the encoding's alphabet.\<close>

definition base64_laws :: "identity_lib \<Rightarrow> bool" where
  "base64_laws lib \<longleftrightarrow> (\<forall>b. il_decode lib (il_encode lib b) = Some b \<and>
     set (il_encode lib b) \<subseteq> set base64_alphabet)"

lemma alphabet_plain:
  "list_all (\<lambda>c. \<not> starts_white c \<and> \<not> ends_white c \<and> c \<noteq> line_feed \<and> c \<noteq> CHR 0x0D) base64_alphabet"
  by code_simp

lemma base64_plain:
  "c \<in> set base64_alphabet \<Longrightarrow> \<not> starts_white c \<and> \<not> ends_white c \<and> c \<noteq> line_feed \<and> c \<noteq> CHR 0x0D"
  using alphabet_plain unfolding list_all_iff by blast

lemma lines_of_Nil: "lines_of [] = []"
  by (simp add: lines_of.simps [of "[]"])

lemma base64_trim: "set s \<subseteq> set base64_alphabet \<Longrightarrow> trim_str s = s"
proof (cases "s = []")
  case True
  then show ?thesis using is_blank_Nil by (simp add: is_blank_def)
next
  case False
  assume s: "set s \<subseteq> set base64_alphabet"
  have "\<not> starts_white (hd s)" "\<not> ends_white (last s)"
    using base64_plain s hd_in_set [OF False] last_in_set [OF False] by blast+
  then show ?thesis by (rule trim_str_id [OF False])
qed

lemma base64_line:
  assumes "set s \<subseteq> set base64_alphabet"
  shows "lines_of (s @ line_feed # rest) = s # lines_of rest"
proof -
  have n: "c \<in> set s \<Longrightarrow> c \<noteq> line_feed" "c \<in> set s \<Longrightarrow> c \<noteq> CHR 0x0D" for c
    using base64_plain assms by blast+
  have parts: "takeWhile (\<lambda>c. c \<noteq> line_feed) (s @ line_feed # rest) = s"
    "dropWhile (\<lambda>c. c \<noteq> line_feed) (s @ line_feed # rest) = line_feed # rest"
    by (subst takeWhile_append2, erule n(1), simp) (subst dropWhile_append2, erule n(1), simp)
  have cr: "strip_cr s = s"
    using n(2) last_in_set [of s] by (simp only: strip_cr_def) meson
  have ne: "s @ line_feed # rest \<noteq> []" by simp
  show ?thesis
    by (subst lines_of.simps) (simp only: ne if_False parts list.case cr)
qed

lemma load_written:
  assumes "base64_laws lib" "length secret = 32"
  shows "load_identity lib (FileText (il_encode lib secret @ [line_feed] @ il_encode lib (il_public_of lib secret) @ [line_feed])) =
    Inr \<lparr>ci_secret = secret, ci_public_key_base64 = il_encode lib (il_public_of lib secret)\<rparr>"
proof -
  have a: "set (il_encode lib b) \<subseteq> set base64_alphabet" "il_decode lib (il_encode lib b) = Some b" for b
    using assms(1) by (simp_all add: base64_laws_def)
  have "lines_of (il_encode lib secret @ [line_feed] @ il_encode lib (il_public_of lib secret) @ [line_feed]) =
      [il_encode lib secret, il_encode lib (il_public_of lib secret)]"
    by (simp add: base64_line [OF a(1)] lines_of_Nil)
  then show ?thesis
    by (simp add: load_identity_def decode_secret_base64_def encode_public_base64_def base64_trim [OF a(1)] a(2) assms(2))
qed

lemma identity_survives_restart:
  assumes "base64_laws lib" "length secret = 32"
    and "load_or_generate lib secret outcome file = (Inr identity, file')"
  shows "load_or_generate lib secret' outcome' file' = (Inr identity, file') \<and>
    load_existing lib file' = Inr identity \<and>
    ci_public_key_base64 identity = encode_public_base64 lib (il_public_of lib (ci_secret identity)) \<and>
    (file \<noteq> NoFile \<longrightarrow> file' = file)"
proof (cases "file = NoFile")
  case True
  then have g: "generate_and_persist lib secret outcome file = (Inr identity, file')"
    using assms(3) by (simp add: load_or_generate_def)
  then have f: "file' = FileText (il_encode lib secret @ [line_feed] @ il_encode lib (il_public_of lib secret) @ [line_feed])"
    "identity = \<lparr>ci_secret = secret, ci_public_key_base64 = il_encode lib (il_public_of lib secret)\<rparr>"
    by (auto simp: generate_and_persist_def encode_secret_base64_def encode_public_base64_def Let_def
        split: option.splits)
  then show ?thesis
    using load_written [OF assms(1,2)] True
    by (simp add: load_or_generate_def load_existing_def encode_public_base64_def)
next
  case False
  then have "load_or_generate lib secret outcome file = (load_identity lib file, file)"
    by (simp add: load_or_generate_def)
  then have "(load_identity lib file, file) = (Inr identity, file')" using assms(3) by (rule trans [OF sym])
  then have l: "load_identity lib file = Inr identity" "file' = file" by blast+
  then have "ci_public_key_base64 identity = encode_public_base64 lib (il_public_of lib (ci_secret identity))"
    by (auto simp: load_identity_def Let_def split: identity_file.splits list.splits option.splits if_splits)
  moreover have "load_or_generate lib secret' outcome' file = (Inr identity, file)" "load_existing lib file = Inr identity"
    using l(1) False by (simp_all add: load_or_generate_def load_existing_def)
  ultimately show ?thesis unfolding l(2) by blast
qed

section \<open>Examples\<close>

text \<open>A codec that satisfies the laws: two letters per byte.\<close>

definition ex_nibble :: "nat \<Rightarrow> char" where
  "ex_nibble n = char_of (65 + n)"

definition ex_encode :: "bytes \<Rightarrow> string" where
  "ex_encode bs = concat (map (\<lambda>b. [ex_nibble (unat b div 16), ex_nibble (unat b mod 16)]) bs)"

fun ex_decode :: "string \<Rightarrow> bytes option" where
  "ex_decode (c # d # s) = map_option ((#) (of_nat (16 * (of_char c - 65) + (of_char d - 65)))) (ex_decode s)"
| "ex_decode _ = Some []"

definition ex_codec :: identity_lib where
  "ex_codec = \<lparr>il_encode = ex_encode, il_decode = ex_decode, il_public_of = rev\<rparr>"

lemma ex_nibble_value: "n < 16 \<Longrightarrow> of_char (ex_nibble n) = 65 + n"
  by (simp add: ex_nibble_def)

lemma ex_nibble_alphabet: "n < 16 \<Longrightarrow> ex_nibble n \<in> set base64_alphabet"
proof -
  have "list_all (\<lambda>n. ex_nibble n \<in> set base64_alphabet) [0..<16]" by code_simp
  then show "n < 16 \<Longrightarrow> ?thesis" by (simp add: list_all_iff)
qed

lemma ex_high: "unat (b :: u8) div 16 < 16"
proof -
  have "unat b < 2 ^ LENGTH(8)" by (rule unsigned_less)
  then show ?thesis by simp
qed

lemma ex_laws: "base64_laws ex_codec"
proof -
  have d: "ex_decode (ex_encode bs) = Some bs" for bs
  proof (induction bs)
    case (Cons b bs)
    have "unat b div 16 < 16" by (rule ex_high)
    then have "(of_nat (16 * (of_char (ex_nibble (unat b div 16)) - 65) + (of_char (ex_nibble (unat b mod 16)) - 65)) :: u8) = b"
      by (simp only: ex_nibble_value) simp
    then show ?case using Cons by (simp add: ex_encode_def)
  qed (simp add: ex_encode_def)
  moreover have "set (ex_encode bs) \<subseteq> set base64_alphabet" for bs
    by (auto simp: ex_encode_def ex_nibble_alphabet ex_high)
  ultimately show ?thesis by (simp add: base64_laws_def ex_codec_def)
qed

definition ex_persisted :: persist_outcome where
  "ex_persisted = \<lparr>po_directory = None, po_write = None, po_permissions = None\<rparr>"

lemma ex_identity_restarts:
  "\<exists>identity file. load_or_generate ex_codec (replicate 32 7) ex_persisted NoFile = (Inr identity, file) \<and>
     load_or_generate ex_codec (replicate 32 9) ex_persisted file = (Inr identity, file) \<and>
     ci_secret identity = replicate 32 7"
proof -
  obtain identity left where g: "load_or_generate ex_codec (replicate 32 7) ex_persisted NoFile = (Inr identity, left)"
    and i: "ci_secret identity = replicate 32 7"
    by (simp add: load_or_generate_def generate_and_persist_def ex_persisted_def Let_def)
  with identity_survives_restart [OF ex_laws _ g, of "replicate 32 9" ex_persisted] show ?thesis by auto
qed

end
