(* ===== verification/Host_Setup.thy ===== *)
theory Host_Setup
  imports Flow_Table
begin

text \<open>
  What the daemon takes from its host: the configuration in the environment (\<open>src/src/config.rs\<close>),
  the return route of its TUN device (\<open>src/src/tun_device.rs\<close>) and the extra root certificates with
  what is logged of them (\<open>src/src/ca_trust.rs\<close>).
\<close>

section \<open>Configuration: \<open>config.rs\<close>\<close>

text \<open>\<open>env::var(name).ok()\<close>: \<open>None\<close> where the variable is unset or not UTF-8.\<close>

type_synonym environment = "string \<Rightarrow> string option"

record config =
  cf_agents_json_url :: string
  cf_registry_base_url :: string
  cf_identity_key_path :: string
  cf_audit_log_path :: string
  cf_heartbeat_interval :: nat
  cf_gatekeeper_http_port :: u16
  cf_gatekeeper_wg0_address :: ipv4addr
  cf_tun_netmask :: ipv4addr
  cf_ca_bundle_path :: "string option"

definition DEFAULT_HEARTBEAT_INTERVAL_SECONDS :: nat where
  "DEFAULT_HEARTBEAT_INTERVAL_SECONDS = 60"

definition AGENT_SIGNATURE_VALIDITY_SECONDS :: nat where
  "AGENT_SIGNATURE_VALIDITY_SECONDS = 300"

text \<open>\<open>.filter(..)\<close> on an option.\<close>

definition filter_option :: "('a \<Rightarrow> bool) \<Rightarrow> 'a option \<Rightarrow> 'a option" where
  "filter_option p x = (case x of Some a \<Rightarrow> if p a then Some a else None | None \<Rightarrow> None)"

definition unwrap_or :: "'a option \<Rightarrow> 'a \<Rightarrow> 'a" where
  "unwrap_or x d = (case x of Some a \<Rightarrow> a | None \<Rightarrow> d)"

definition identity_key_path_from_env :: "environment \<Rightarrow> string" where
  "identity_key_path_from_env env =
     unwrap_or (filter_option (\<lambda>value. \<not> is_blank value) (env ''CONNECTOR_IDENTITY_KEY_PATH''))
       ''/var/skipr/connector/.keys/identity.key''"

definition require_env :: "environment \<Rightarrow> string \<Rightarrow> string + string" where
  "require_env env name = (case filter_option (\<lambda>value. \<not> is_blank value) (env name) of
     Some value \<Rightarrow> Inr value
   | None \<Rightarrow> Inl (''required environment variable '' @ name @ '' is not set''))"

text \<open>The interval and whether each of the two warnings is logged.\<close>

definition parse_heartbeat_interval :: "environment \<Rightarrow> nat \<times> bool \<times> bool" where
  "parse_heartbeat_interval env =
     (let raw = env ''HEARTBEAT_INTERVAL_SECONDS'';
          parsed = filter_option (\<lambda>seconds. seconds > 0) (Option.bind raw (parse_unsigned (2 ^ 64)));
          seconds = unwrap_or parsed DEFAULT_HEARTBEAT_INTERVAL_SECONDS
      in (from_secs seconds, parsed = None \<and> raw \<noteq> None, seconds \<ge> AGENT_SIGNATURE_VALIDITY_SECONDS))"

definition config_from_env :: "environment \<Rightarrow> string + config" where
  "config_from_env env =
     (case require_env env ''AGENTS_JSON_URL'' of
        Inl error \<Rightarrow> Inl error
      | Inr agents_json_url \<Rightarrow>
          (case require_env env ''REGISTRY_BASE_URL'' of
             Inl error \<Rightarrow> Inl error
           | Inr registry_base_url \<Rightarrow>
               Inr \<lparr>cf_agents_json_url = agents_json_url, cf_registry_base_url = registry_base_url,
                 cf_identity_key_path = identity_key_path_from_env env,
                 cf_audit_log_path = unwrap_or
                   (filter_option (\<lambda>value. \<not> is_blank value) (env ''CONNECTOR_AUDIT_LOG_PATH''))
                   ''/var/skipr/connector/audit/audit.log'',
                 cf_heartbeat_interval = fst (parse_heartbeat_interval env),
                 cf_gatekeeper_http_port = unwrap_or (map_option of_nat
                   (Option.bind (env ''CONNECTOR_GATEKEEPER_HTTP_PORT'') (parse_unsigned (2 ^ 16)))) 4000,
                 cf_gatekeeper_wg0_address = unwrap_or
                   (Option.bind (env ''CONNECTOR_GATEKEEPER_WG0_ADDRESS'') parse_ipv4) (Ipv4 10 66 66 1),
                 cf_tun_netmask = unwrap_or
                   (Option.bind (env ''CONNECTOR_TUN_NETMASK'') parse_ipv4) (Ipv4 255 255 255 0),
                 cf_ca_bundle_path = filter_option (\<lambda>value. value \<noteq> [])
                   (map_option trim_str (env ''CONNECTOR_CA_BUNDLE_PATH''))\<rparr>))"

section \<open>The return route: \<open>tun_device.rs\<close>\<close>

definition subnet_slash_24 :: "ipv4addr \<Rightarrow> string" where
  "subnet_slash_24 address = show_nat (unat (oct1 address)) @ ''.'' @ show_nat (unat (oct2 address)) @ ''.'' @
     show_nat (unat (oct3 address)) @ ''.0/24''"

text \<open>
  \<open>add_gatekeeper_return_route\<close>: the arguments \<open>ip\<close> is run with, or \<open>None\<close> when the device's name is
  not known; however it ends, the device comes up.
\<close>

definition gatekeeper_return_route :: "string option \<Rightarrow> ipv4addr \<Rightarrow> string list option" where
  "gatekeeper_return_route interface_name gatekeeper_wg0_address =
     map_option (\<lambda>name. [''route'', ''replace'', subnet_slash_24 gatekeeper_wg0_address, ''dev'', name]) interface_name"

section \<open>Extra root certificates: \<open>ca_trust.rs\<close>\<close>

datatype ca_error = CaUnreadable string | CaInvalid string | CaEmpty

text \<open>
  \<open>load_extra_root_certificates\<close>: reading the bundle, reqwest's parse of it and the certificates
  x509-parser re-reads from it to log them (\<open>None\<close> for one it cannot describe) are inputs.
\<close>

datatype ca_log = CaTrusted string int | CaUndescribed | CaNothingRead

definition metadata_logging_found_nothing :: "nat \<Rightarrow> nat \<Rightarrow> bool" where
  "metadata_logging_found_nothing re_read_count trusted_count \<longleftrightarrow> re_read_count = 0 \<and> trusted_count > 0"

definition load_extra_root_certificates ::
  "(bytes \<Rightarrow> (string + 'c list)) \<Rightarrow> (bytes \<Rightarrow> (string \<times> int) option list) \<Rightarrow> (string + bytes) \<Rightarrow>
   (ca_error + 'c list) \<times> ca_log list" where
  "load_extra_root_certificates from_pem_bundle re_read file = (case file of
     Inl error \<Rightarrow> (Inl (CaUnreadable error), [])
   | Inr pem_bytes \<Rightarrow>
       (case from_pem_bundle pem_bytes of
          Inl error \<Rightarrow> (Inl (CaInvalid error), [])
        | Inr certificates \<Rightarrow>
            if certificates = [] then (Inl CaEmpty, [])
            else
              (let described = map (\<lambda>pem. case pem of Some (subject, not_after) \<Rightarrow> CaTrusted subject not_after
                                                    | None \<Rightarrow> CaUndescribed) (re_read pem_bytes)
               in (Inr certificates, described @
                    (if metadata_logging_found_nothing (length (re_read pem_bytes)) (length certificates)
                     then [CaNothingRead] else [])))))"

definition EXPIRY_WARNING_THRESHOLD_SECONDS :: int where
  "EXPIRY_WARNING_THRESHOLD_SECONDS = 30 * 24 * 60 * 60"

definition is_expiring_soon :: "int \<Rightarrow> int \<Rightarrow> bool" where
  "is_expiring_soon not_after now \<longleftrightarrow> not_after - now \<le> EXPIRY_WARNING_THRESHOLD_SECONDS"

datatype expiry_warning = NoWarning | AlreadyExpired | ExpiresIn int

definition warn_if_expiring_soon :: "int \<Rightarrow> int \<Rightarrow> expiry_warning" where
  "warn_if_expiring_soon not_after now =
     (if \<not> is_expiring_soon not_after now then NoWarning
      else if not_after - now \<le> 0 then AlreadyExpired
      else ExpiresIn ((not_after - now) div (24 * 60 * 60)))"

section \<open>Properties\<close>

lemma filter_option_Some [simp]: "filter_option p x = Some y \<longleftrightarrow> x = Some y \<and> p y"
  by (auto simp: filter_option_def split: option.splits)

lemma require_env_Inr [simp]: "require_env env name = Inr value \<longleftrightarrow> env name = Some value \<and> \<not> is_blank value"
  by (auto simp: require_env_def filter_option_def split: option.splits if_splits)

lemma require_env_Inl: "require_env env name = Inl e \<Longrightarrow> env name = Some value \<Longrightarrow> is_blank value"
  by (auto simp: require_env_def filter_option_def split: option.splits if_splits)

lemma interval_positive: "0 < fst (parse_heartbeat_interval env)"
  by (auto simp: parse_heartbeat_interval_def Let_def unwrap_or_def from_secs_def
      DEFAULT_HEARTBEAT_INTERVAL_SECONDS_def split: option.split)

text \<open>
  C38: the configuration is read exactly when both required variables are set and not blank,
  and whatever the other variables hold its heartbeat interval is positive, as the timer
  demands, and no path in it is empty
\<close>

theorem configuration_starts_the_daemon:
  "((\<exists>c. config_from_env env = Inr c) \<longleftrightarrow>
      (\<exists>a r. env ''AGENTS_JSON_URL'' = Some a \<and> env ''REGISTRY_BASE_URL'' = Some r \<and> \<not> is_blank a \<and> \<not> is_blank r)) \<and>
   (\<forall>c. config_from_env env = Inr c \<longrightarrow> 0 < cf_heartbeat_interval c \<and> cf_identity_key_path c \<noteq> [] \<and>
      cf_audit_log_path c \<noteq> [] \<and> cf_ca_bundle_path c \<noteq> Some [] \<and>
      Some (cf_agents_json_url c) = env ''AGENTS_JSON_URL'' \<and> Some (cf_registry_base_url c) = env ''REGISTRY_BASE_URL'')"
proof (intro conjI allI impI)
  show "(\<exists>c. config_from_env env = Inr c) \<longleftrightarrow>
      (\<exists>a r. env ''AGENTS_JSON_URL'' = Some a \<and> env ''REGISTRY_BASE_URL'' = Some r \<and> \<not> is_blank a \<and> \<not> is_blank r)"
    by (auto simp: config_from_env_def dest: require_env_Inl split: sum.splits)
next
  fix c
  assume "config_from_env env = Inr c"
  then obtain a r where ar: "require_env env ''AGENTS_JSON_URL'' = Inr a" "require_env env ''REGISTRY_BASE_URL'' = Inr r"
    and c: "cf_agents_json_url c = a" "cf_registry_base_url c = r"
      "cf_heartbeat_interval c = fst (parse_heartbeat_interval env)"
      "cf_identity_key_path c = identity_key_path_from_env env"
      "cf_audit_log_path c = unwrap_or (filter_option (\<lambda>value. \<not> is_blank value) (env ''CONNECTOR_AUDIT_LOG_PATH''))
         ''/var/skipr/connector/audit/audit.log''"
      "cf_ca_bundle_path c = filter_option (\<lambda>value. value \<noteq> []) (map_option trim_str (env ''CONNECTOR_CA_BUNDLE_PATH''))"
    by (auto simp: config_from_env_def split: sum.splits)
  have path: "unwrap_or (filter_option (\<lambda>value. \<not> is_blank value) x) d \<noteq> []" if "d \<noteq> []" for x d
    using that by (auto simp: unwrap_or_def filter_option_def split: option.split)
  show "0 < cf_heartbeat_interval c" by (simp add: c interval_positive)
  show "cf_identity_key_path c \<noteq> []" unfolding c identity_key_path_from_env_def by (rule path) simp
  show "cf_audit_log_path c \<noteq> []" unfolding c by (rule path) simp
  show "cf_ca_bundle_path c \<noteq> Some []" by (simp add: c)
  show "Some (cf_agents_json_url c) = env ''AGENTS_JSON_URL''" "Some (cf_registry_base_url c) = env ''REGISTRY_BASE_URL''"
    using ar by (simp_all add: c)
qed

text \<open>Three expiries: well ahead, in a week, and past.\<close>

lemma ex_expiry: "warn_if_expiring_soon (60 * 86400) 0 = NoWarning"
  "warn_if_expiring_soon (7 * 86400 + 5) 0 = ExpiresIn 7" "warn_if_expiring_soon 0 0 = AlreadyExpired"
  by (simp_all add: warn_if_expiring_soon_def is_expiring_soon_def EXPIRY_WARNING_THRESHOLD_SECONDS_def)


definition ex_environment :: environment where
  "ex_environment = map_of [(''AGENTS_JSON_URL'', ''a''), (''REGISTRY_BASE_URL'', ''r''),
     (''HEARTBEAT_INTERVAL_SECONDS'', ''0'')]"

lemma configuration_starts_the_daemon_witness:
  "\<exists>c. config_from_env ex_environment = Inr c \<and> 0 < cf_heartbeat_interval c"
proof -
  have "trim_str ''a'' = ''a''" "trim_str ''r'' = ''r''" by (rule trim_str_id; code_simp)+
  then have b: "\<not> is_blank ''a''" "\<not> is_blank ''r''" by (simp_all add: is_blank_def)
  have e: "ex_environment ''AGENTS_JSON_URL'' = Some ''a''" "ex_environment ''REGISTRY_BASE_URL'' = Some ''r''"
    by (simp_all add: ex_environment_def)
  note c = configuration_starts_the_daemon [of ex_environment]
  from b e conjunct1 [OF c] obtain c where "config_from_env ex_environment = Inr c" by blast
  with conjunct2 [OF c] show ?thesis by blast
qed

end
