(* ===== verification/Command_Line.thy ===== *)
theory Command_Line
  imports Connector Identity Host_Setup
begin

text \<open>
  The process of \<open>src/src/main.rs\<close>: the command line, its three modes that do one thing and exit, and the
  start of the daemon up to its first heartbeat. The configuration, the identity, the extra root
  certificates and the Agent directory come together here.
\<close>

section \<open>The command line\<close>

datatype cli_mode = Normal | GenerateIdentity | Deregister | Help

text \<open>An argument that is not UTF-8 has no \<open>to_str\<close>: \<open>None\<close>.\<close>

datatype cli_error = UnrecognizedArgument "string option" | TooManyArguments "string option"

definition parse_cli_mode :: "string option list \<Rightarrow> cli_error + cli_mode" where
  "parse_cli_mode args = (case drop 1 args of
     [] \<Rightarrow> Inr Normal
   | [only] \<Rightarrow>
       (if only = Some ''--generate-identity'' then Inr GenerateIdentity
        else if only = Some ''--deregister'' then Inr Deregister
        else if only = Some ''--help'' \<or> only = Some ''-h'' then Inr Help
        else Inl (UnrecognizedArgument only))
   | first # _ \<Rightarrow> Inl (TooManyArguments first))"

section \<open>The HTTP client\<close>

text \<open>
  reqwest's reading and building of a client, a parameter; of the client only the extra roots it
  trusts matter here. A failed build names the bundle if one was configured.
\<close>

record 'c http_lib =
  hl_read_file :: "string \<Rightarrow> string + bytes"
  hl_from_pem_bundle :: "bytes \<Rightarrow> string + 'c list"
  hl_re_read :: "bytes \<Rightarrow> (string \<times> int) option list"
  hl_build :: "'c list \<Rightarrow> string option"

datatype client_build_error = BundleRefused ca_error | BuildFailed "string option" string

definition build_http_client :: "'c http_lib \<Rightarrow> config \<Rightarrow> client_build_error + 'c list" where
  "build_http_client lib config =
     (case (case cf_ca_bundle_path config of
              None \<Rightarrow> Inr []
            | Some ca_bundle_path \<Rightarrow> fst (load_extra_root_certificates (hl_from_pem_bundle lib) (hl_re_read lib)
                (hl_read_file lib ca_bundle_path))) of
        Inl error \<Rightarrow> Inl (BundleRefused error)
      | Inr roots \<Rightarrow>
          (case hl_build lib roots of
             Some error \<Rightarrow> Inl (BuildFailed (cf_ca_bundle_path config) error)
           | None \<Rightarrow> Inr roots))"

section \<open>A process\<close>

text \<open>
  One start of the program: its arguments, its environment, what its random source gives, how the
  file system's calls end, the HTTP library, the network as a client with those extra roots sees it, the
  clock and the error of binding the socket, if any. A path holds what \<open>files\<close> says.
\<close>

record 'c invocation =
  iv_args :: "string option list"
  iv_env :: environment
  iv_secret :: bytes
  iv_persist :: persist_outcome
  iv_http :: "'c http_lib"
  iv_net :: "'c list \<Rightarrow> network"
  iv_now :: utc
  iv_bind :: "string option"

type_synonym files = "string \<Rightarrow> identity_file"

definition load_or_generate_at ::
  "identity_lib \<Rightarrow> 'c invocation \<Rightarrow> string \<Rightarrow> files \<Rightarrow> (identity_error + connector_identity) \<times> files" where
  "load_or_generate_at lib iv path files =
     (let (result, left) = load_or_generate lib (iv_secret iv) (iv_persist iv) (files path)
      in (result, files(path := left)))"

text \<open>The exit codes the install script acts on.\<close>

definition EXIT_DEREGISTERED :: int where "EXIT_DEREGISTERED = 0"
definition EXIT_FAILED :: int where "EXIT_FAILED = 1"
definition EXIT_NOT_REGISTERED :: int where "EXIT_NOT_REGISTERED = 2"
definition EXIT_NOT_DECOMMISSIONING :: int where "EXIT_NOT_DECOMMISSIONING = 3"

definition deregister_exit_code :: "directory_error + deregister_response \<Rightarrow> int" where
  "deregister_exit_code outcome = (case outcome of
     Inr _ \<Rightarrow> EXIT_DEREGISTERED
   | Inl (AgentRefused (Rejected _ reason)) \<Rightarrow>
       if is_not_registered reason then EXIT_NOT_REGISTERED
       else if is_not_decommissioning reason then EXIT_NOT_DECOMMISSIONING
       else EXIT_FAILED
   | Inl _ \<Rightarrow> EXIT_FAILED)"

lemmas exit_codes = EXIT_DEREGISTERED_def EXIT_FAILED_def EXIT_NOT_REGISTERED_def EXIT_NOT_DECOMMISSIONING_def

lemma deregister_zero: "deregister_exit_code outcome = EXIT_DEREGISTERED \<longleftrightarrow> (\<exists>parsed. outcome = Inr parsed)"
  by (auto simp: deregister_exit_code_def exit_codes split: sum.splits directory_error.splits client_error.splits)

definition deregister :: "identity_lib \<Rightarrow> (string \<Rightarrow> utc option) \<Rightarrow> 'c invocation \<Rightarrow> files \<Rightarrow> int" where
  "deregister lib parse_from_rfc3339 iv files =
     (case config_from_env (iv_env iv) of
        Inl _ \<Rightarrow> EXIT_FAILED
      | Inr config \<Rightarrow>
          (case load_existing lib (files (cf_identity_key_path config)) of
             Inl _ \<Rightarrow> EXIT_FAILED
           | Inr identity \<Rightarrow>
               (case build_http_client (iv_http iv) config of
                  Inl _ \<Rightarrow> EXIT_FAILED
                | Inr roots \<Rightarrow>
                    deregister_exit_code (fst (directory_deregister (iv_net iv roots)
                      (cf_agents_json_url config) (cf_registry_base_url config) parse_from_rfc3339 (iv_now iv)
                      \<lparr>dq_connector_public_key = ci_public_key_base64 identity\<rparr> directory_new)))))"

text \<open>The path goes to the standard error, the key to the standard output.\<close>

definition generate_identity ::
  "identity_lib \<Rightarrow> 'c invocation \<Rightarrow> files \<Rightarrow> (identity_error + string \<times> string) \<times> files" where
  "generate_identity lib iv files =
     (let path = identity_key_path_from_env (iv_env iv)
      in case load_or_generate_at lib iv path files of
           (Inl error, files) \<Rightarrow> (Inl error, files)
         | (Inr identity, files) \<Rightarrow> (Inr (path, ci_public_key_base64 identity), files))"

text \<open>A daemon about to send its first heartbeat; it warns when its identity is a brand new one.\<close>

record 'c daemon =
  dm_config :: config
  dm_identity :: connector_identity
  dm_brand_new :: bool
  dm_roots :: "'c list"

datatype start_error =
    BadArguments cli_error
  | BadConfig string
  | BadIdentity identity_error
  | NoHttpClient client_build_error
  | NoSocket string

definition start_daemon ::
  "identity_lib \<Rightarrow> 'c invocation \<Rightarrow> files \<Rightarrow> (start_error + 'c daemon) \<times> files" where
  "start_daemon lib iv files =
     (case config_from_env (iv_env iv) of
        Inl error \<Rightarrow> (Inl (BadConfig error), files)
      | Inr config \<Rightarrow>
          (let existed = files (cf_identity_key_path config) \<noteq> NoFile
           in case load_or_generate_at lib iv (cf_identity_key_path config) files of
                (Inl error, files) \<Rightarrow> (Inl (BadIdentity error), files)
              | (Inr identity, files) \<Rightarrow>
                  (case build_http_client (iv_http iv) config of
                     Inl error \<Rightarrow> (Inl (NoHttpClient error), files)
                   | Inr roots \<Rightarrow>
                       (case iv_bind iv of
                          Some error \<Rightarrow> (Inl (NoSocket error), files)
                        | None \<Rightarrow> (Inr \<lparr>dm_config = config, dm_identity = identity,
                            dm_brand_new = (\<not> existed), dm_roots = roots\<rparr>, files)))))"

datatype 'c process_end =
    PrintedUsage
  | PrintedKey string string
  | Exited int
  | Aborted start_error
  | Serving "'c daemon"

definition main_process ::
  "identity_lib \<Rightarrow> (string \<Rightarrow> utc option) \<Rightarrow> 'c invocation \<Rightarrow> files \<Rightarrow> 'c process_end \<times> files" where
  "main_process lib parse_from_rfc3339 iv files =
     (case parse_cli_mode (iv_args iv) of
        Inr GenerateIdentity \<Rightarrow>
          (case generate_identity lib iv files of
             (Inl error, files) \<Rightarrow> (Aborted (BadIdentity error), files)
           | (Inr (path, key), files) \<Rightarrow> (PrintedKey path key, files))
      | Inr Deregister \<Rightarrow> (Exited (deregister lib parse_from_rfc3339 iv files), files)
      | Inr Help \<Rightarrow> (PrintedUsage, files)
      | Inr Normal \<Rightarrow>
          (case start_daemon lib iv files of
             (Inl error, files) \<Rightarrow> (Aborted error, files)
           | (Inr daemon, files) \<Rightarrow> (Serving daemon, files))
      | Inl error \<Rightarrow> (Aborted (BadArguments error), files))"

text \<open>Starts one after the other on one host: how each ended, and the files they leave.\<close>

fun run_processes ::
  "identity_lib \<Rightarrow> (string \<Rightarrow> utc option) \<Rightarrow> 'c invocation list \<Rightarrow> files \<Rightarrow> 'c process_end list \<times> files" where
  "run_processes lib parse [] files = ([], files)"
| "run_processes lib parse (iv # ivs) files =
     (let (result, files) = main_process lib parse iv files;
          (results, files) = run_processes lib parse ivs files
      in (result # results, files))"

section \<open>An identity that is in place stays\<close>

lemma config_identity_path:
  "config_from_env env = Inr config \<Longrightarrow> cf_identity_key_path config = identity_key_path_from_env env"
  by (auto simp: config_from_env_def split: sum.splits)

lemma load_in_place:
  "load_existing lib (files path) = Inr identity \<Longrightarrow>
     load_or_generate_at lib iv path files = (Inr identity, files)"
  by (auto simp: load_existing_def load_or_generate_at_def load_or_generate_def split: if_splits)

text \<open>What a process says of the key it found.\<close>

fun named_key :: "'c process_end \<Rightarrow> string option" where
  "named_key (PrintedKey _ key) = Some key"
| "named_key (Serving daemon) = Some (ci_public_key_base64 (dm_identity daemon))"
| "named_key _ = None"

definition names_only :: "string \<Rightarrow> 'c process_end \<Rightarrow> bool" where
  "names_only key result \<longleftrightarrow> named_key result \<in> {None, Some key} \<and> (\<forall>e. result \<noteq> Aborted (BadIdentity e))"

lemma process_in_place:
  assumes "load_existing lib (files (identity_key_path_from_env (iv_env iv))) = Inr identity"
  shows "snd (main_process lib parse iv files) = files \<and>
    names_only (ci_public_key_base64 identity) (fst (main_process lib parse iv files))"
proof (cases "parse_cli_mode (iv_args iv)")
  case (Inl error)
  then show ?thesis by (simp add: main_process_def names_only_def)
next
  case (Inr mode)
  note in_place = load_in_place [of lib files _ identity iv, OF assms]
  show ?thesis
  proof (cases mode)
    case Normal
    have "snd (start_daemon lib iv files) = files \<and>
        (case fst (start_daemon lib iv files) of
           Inl e \<Rightarrow> \<forall>i. e \<noteq> BadIdentity i | Inr d \<Rightarrow> dm_identity d = identity)"
    proof (cases "config_from_env (iv_env iv)")
      case (Inr config)
      then show ?thesis
        using in_place config_identity_path [OF Inr] by (simp add: start_daemon_def split: sum.split option.split)
    qed (simp add: start_daemon_def)
    then show ?thesis
      using Inr Normal by (auto simp: main_process_def names_only_def split: prod.splits sum.splits)
  next
    case GenerateIdentity
    with Inr in_place show ?thesis by (simp add: main_process_def generate_identity_def names_only_def Let_def)
  qed (simp_all add: main_process_def Inr names_only_def)
qed

lemma processes_in_place:
  assumes "load_existing lib (files path) = Inr identity" "\<forall>iv\<in>set ivs. identity_key_path_from_env (iv_env iv) = path"
  shows "snd (run_processes lib parse ivs files) = files \<and>
    list_all (names_only (ci_public_key_base64 identity)) (fst (run_processes lib parse ivs files))"
  using assms(2)
proof (induction ivs)
  case (Cons iv ivs)
  then have "load_existing lib (files (identity_key_path_from_env (iv_env iv))) = Inr identity"
    using assms(1) by simp
  from process_in_place [of lib files iv identity parse, OF this] Cons show ?case by (simp add: split_beta)
qed simp

lemma generated_in_place:
  assumes "base64_laws lib" "length (iv_secret iv) = 32"
    and "load_or_generate_at lib iv path files = (Inr identity, files')"
  shows "load_existing lib (files' path) = Inr identity"
  using assms(3) identity_survives_restart [OF assms(1,2)]
  by (auto simp: load_or_generate_at_def split: prod.splits)

section \<open>Properties\<close>

text \<open>
  C35: once --generate-identity has printed a key, every later process with the same key path,
  in any mode and order, finds the identity, serves under or prints exactly that key, and
  leaves the file as it is
\<close>

theorem printed_key_is_the_daemons:
  assumes "base64_laws lib" "length (iv_secret first) = 32"
    and "main_process lib parse first files = (PrintedKey path key, files')"
    and "\<forall>iv\<in>set later. identity_key_path_from_env (iv_env iv) = path"
  shows "snd (run_processes lib parse later files') = files' \<and>
    list_all (names_only key) (fst (run_processes lib parse later files'))"
proof -
  obtain identity where "load_or_generate_at lib first path files = (Inr identity, files')"
    and key: "key = ci_public_key_base64 identity"
    using assms(3) by (auto simp: main_process_def generate_identity_def Let_def
        split: prod.splits sum.splits cli_mode.splits)
  from generated_in_place [OF assms(1,2) this(1)] assms(4) show ?thesis
    unfolding key by (rule processes_in_place)
qed

text \<open>
  C25: the process exits 0 in its deregistration mode, on which the host removes the service
  and the key, only if, with the configured URLs: the answer to agents.json lists an entry
  with status operational (case and blanks aside) for some address; the Registry's answer for
  that address names a key; and a POST of this host's public key, from its identity file, to
  /api/connectors/deregister at that address was answered with a body signed under that key
  that says DEREGISTERED for this public key and has not expired, every one of the three
  answers with a success status; and it never writes the identity file
\<close>

theorem exit_zero_means_deregistered:
  assumes "main_process lib parse iv files = (Exited EXIT_DEREGISTERED, files')"
  shows "files' = files \<and> parse_cli_mode (iv_args iv) = Inr Deregister \<and>
    (\<exists>config identity roots ip key.
      config_from_env (iv_env iv) = Inr config \<and>
      load_existing lib (files (cf_identity_key_path config)) = Inr identity \<and>
      build_http_client (iv_http iv) config = Inr roots \<and>
      lists_operational (iv_net iv roots) (cf_agents_json_url config) ip \<and>
      registry_names (iv_net iv roots) (cf_registry_base_url config) ip key \<and>
      agent_confirms (iv_net iv roots) parse (iv_now iv) ip key (ci_public_key_base64 identity))"
proof -
  have mode: "parse_cli_mode (iv_args iv) = Inr Deregister" "files' = files"
    and d: "deregister lib parse iv files = EXIT_DEREGISTERED"
    using assms by (auto simp: main_process_def split: prod.splits sum.splits cli_mode.splits)
  obtain config where c: "config_from_env (iv_env iv) = Inr config"
    using d by (auto simp: deregister_def exit_codes split: sum.splits)
  obtain identity where i: "load_existing lib (files (cf_identity_key_path config)) = Inr identity"
    using d by (auto simp: deregister_def exit_codes c split: sum.splits)
  obtain roots where r: "build_http_client (iv_http iv) config = Inr roots"
    using d by (auto simp: deregister_def exit_codes c i split: sum.splits)
  obtain parsed where p: "fst (directory_deregister (iv_net iv roots) (cf_agents_json_url config)
      (cf_registry_base_url config) parse (iv_now iv)
      \<lparr>dq_connector_public_key = ci_public_key_base64 identity\<rparr> directory_new) = Inr parsed"
    using d by (auto simp: deregister_def c i r deregister_zero)
  show ?thesis
    by (rule directory_deregister_Inr [OF p]) (use mode c i r in blast)
qed

section \<open>Examples\<close>

text \<open>A host with the two required variables, no bundle, and the example network.\<close>

definition ex_http :: "unit http_lib" where
  "ex_http = \<lparr>hl_read_file = (\<lambda>_. Inl ''absent''), hl_from_pem_bundle = (\<lambda>_. Inl ''bad''), hl_re_read = (\<lambda>_. []),
     hl_build = (\<lambda>_. None)\<rparr>"

definition ex_invocation :: "string list \<Rightarrow> bytes \<Rightarrow> unit invocation" where
  "ex_invocation flags secret = \<lparr>iv_args = map Some (''connector'' # flags),
     iv_env = map_of [(''AGENTS_JSON_URL'', ''u''), (''REGISTRY_BASE_URL'', ''r'')],
     iv_secret = secret, iv_persist = ex_persisted, iv_http = ex_http, iv_net = (\<lambda>_. ex_net), iv_now = 5,
     iv_bind = None\<rparr>"

abbreviation ex_generate :: "unit invocation" where
  "ex_generate \<equiv> ex_invocation [''--generate-identity''] (replicate 32 7)"

lemma ex_generated: "\<exists>path key files. main_process ex_codec (\<lambda>_. Some 10) ex_generate (\<lambda>_. NoFile) =
    (PrintedKey path key, files)"
proof -
  obtain identity left where l: "load_or_generate ex_codec (iv_secret ex_generate) (iv_persist ex_generate) NoFile =
      (Inr identity, left)"
    by (simp add: ex_invocation_def load_or_generate_def generate_and_persist_def ex_persisted_def Let_def)
  have "parse_cli_mode (iv_args ex_generate) = Inr GenerateIdentity"
    by (simp add: ex_invocation_def parse_cli_mode_def)
  then show ?thesis
    by (simp add: main_process_def generate_identity_def load_or_generate_at_def Let_def l)
qed

lemma ex_config: "\<exists>config. config_from_env (iv_env (ex_invocation flags secret)) = Inr config \<and> cf_ca_bundle_path config = None"
proof -
  have "trim_str ''u'' = ''u''" "trim_str ''r'' = ''r''" by (rule trim_str_id; code_simp)+
  then have "\<not> is_blank ''u''" "\<not> is_blank ''r''" by (simp_all add: is_blank_def)
  then show ?thesis by (simp add: ex_invocation_def config_from_env_def require_env_def filter_option_def)
qed

lemma ex_client: "cf_ca_bundle_path config = None \<Longrightarrow> build_http_client ex_http config = Inr []"
  by (simp add: build_http_client_def ex_http_def)

lemma ex_serving:
  assumes "load_existing ex_codec (files (identity_key_path_from_env (iv_env (ex_invocation [] secret)))) = Inr identity"
  shows "\<exists>daemon. fst (main_process ex_codec parse (ex_invocation [] secret) files) = Serving daemon"
proof -
  obtain config where c: "config_from_env (iv_env (ex_invocation [] secret)) = Inr config" "cf_ca_bundle_path config = None"
    using ex_config by blast
  have l: "load_or_generate_at ex_codec (ex_invocation [] secret) (cf_identity_key_path config) files = (Inr identity, files)"
    unfolding config_identity_path [OF c(1)] using assms by (rule load_in_place)
  have "iv_http (ex_invocation [] secret) = ex_http" "iv_bind (ex_invocation [] secret) = None"
    "iv_args (ex_invocation [] secret) = [Some ''connector'']"
    by (simp_all add: ex_invocation_def)
  then show ?thesis
    by (simp add: main_process_def parse_cli_mode_def start_daemon_def c l ex_client)
qed

lemma printed_key_is_the_daemons_witness:
  "\<exists>path key files daemon. main_process ex_codec (\<lambda>_. Some 10) ex_generate (\<lambda>_. NoFile) = (PrintedKey path key, files) \<and>
     main_process ex_codec (\<lambda>_. Some 10) (ex_invocation [] (replicate 32 9)) files = (Serving daemon, files) \<and>
     ci_public_key_base64 (dm_identity daemon) = key"
proof -
  obtain path key left where g: "main_process ex_codec (\<lambda>_. Some 10) ex_generate (\<lambda>_. NoFile) = (PrintedKey path key, left)"
    using ex_generated by blast
  let ?daemon = "ex_invocation [] (replicate 32 9)"
  obtain identity where l: "load_or_generate_at ex_codec ex_generate path (\<lambda>_. NoFile) = (Inr identity, left)"
    and path: "path = identity_key_path_from_env (iv_env ex_generate)"
    using g by (auto simp: main_process_def generate_identity_def Let_def split: prod.splits sum.splits cli_mode.splits)
  have p: "identity_key_path_from_env (iv_env ?daemon) = path"
    unfolding path by (simp add: ex_invocation_def)
  have n: "length (iv_secret ex_generate) = 32" by (simp add: ex_invocation_def)
  obtain daemon where "fst (main_process ex_codec (\<lambda>_. Some 10) ?daemon left) = Serving daemon"
    using ex_serving [of left "replicate 32 9"] generated_in_place [OF ex_laws n l] p by metis
  with printed_key_is_the_daemons [OF ex_laws n g, of "[?daemon]"] p
  have "main_process ex_codec (\<lambda>_. Some 10) ?daemon left = (Serving daemon, left)"
    "ci_public_key_base64 (dm_identity daemon) = key"
    by (simp_all add: split_beta names_only_def prod_eq_iff)
  with g show ?thesis by blast
qed

text \<open>A codec that reads every key as the one the example network confirms.\<close>

definition ex_lax_codec :: identity_lib where
  "ex_lax_codec = \<lparr>il_encode = (\<lambda>_. ''cpk''), il_decode = (\<lambda>_. Some (replicate 32 0)), il_public_of = id\<rparr>"

definition ex_key_file :: files where
  "ex_key_file path = FileText (''s'' @ [line_feed] @ ''cpk'')"

lemma ex_key_loads: "load_existing ex_lax_codec (ex_key_file path) =
    Inr \<lparr>ci_secret = replicate 32 0, ci_public_key_base64 = ''cpk''\<rparr>"
proof -
  have "lines_of (''s'' @ [line_feed] @ ''cpk'') = [''s'', ''cpk'']" by code_simp
  moreover have "trim_str ''s'' = ''s''" "trim_str ''cpk'' = ''cpk''" by (rule trim_str_id; code_simp)+
  ultimately show ?thesis
    by (simp add: load_existing_def load_identity_def ex_key_file_def ex_lax_codec_def decode_secret_base64_def
        encode_public_base64_def)
qed

lemma exit_zero_means_deregistered_witness:
  "parse_cli_mode (iv_args (ex_invocation [''--deregister''] [])) = Inr Deregister \<and>
   (\<exists>ip key. lists_operational ex_net ''u'' ip \<and> registry_names ex_net ''r'' ip key \<and>
     agent_confirms ex_net (\<lambda>_. Some 10) 5 ip key ''cpk'')"
proof -
  let ?iv = "ex_invocation [''--deregister''] []"
  obtain config where c: "config_from_env (iv_env ?iv) = Inr config" "cf_ca_bundle_path config = None"
    using ex_config by blast
  have u: "cf_agents_json_url config = ''u''" "cf_registry_base_url config = ''r''"
    using c(1) by (auto simp: ex_invocation_def config_from_env_def require_env_def filter_option_def
        split: sum.splits if_splits)
  have p: "iv_http ?iv = ex_http" "iv_net ?iv = (\<lambda>_. ex_net)" "iv_now ?iv = 5"
    "parse_cli_mode (iv_args ?iv) = Inr Deregister"
    by (simp_all add: ex_invocation_def parse_cli_mode_def)
  have "main_process ex_lax_codec (\<lambda>_. Some 10) ?iv ex_key_file = (Exited EXIT_DEREGISTERED, ex_key_file)"
    by (simp add: main_process_def deregister_def c ex_key_loads ex_client p u ex_deregistration deregister_zero)
  from exit_zero_means_deregistered [OF this] c(1) u p show ?thesis by (auto simp: ex_key_loads)
qed

end
