(* ===== verification/System.thy ===== *)
theory System
  imports Connector
begin

text \<open>
  The daemon as one machine. \<open>Connector\<close> runs a heartbeat and \<open>Admission_Poller\<close> a handler from its
  first line to its last; here each is cut where the code lets go of a lock or awaits, and the pieces of
  the heartbeat, of every poller, of every admission task and of the three packet loops run in any order.
  The last section puts the pieces back together: uninterrupted, they are the functions of the code.
\<close>

section \<open>The state\<close>

text \<open>What the code cannot see to: libraries, disks and configuration, the key, the signature primitives.\<close>

record 't sys_env =
  se_host :: "'t host"
  se_public_key :: string
  se_crypto :: crypto_lib

definition control_env_of :: "'t sys_env \<Rightarrow> control_env" where
  "control_env_of env = \<lparr>ce_crypto = se_crypto env, ce_parse_rfc3339 = hs_parse_rfc3339 (se_host env),
     ce_disk = hs_audit_disk (se_host env)\<rparr>"

text \<open>How far a heartbeat has come: the bundles it found in force, the answer, the dial's results.\<close>

datatype beat =
    BeatIdle
  | BeatAnswered "policy_bundle list option" heartbeat_response
  | BeatApplied "policy_bundle list option" heartbeat_response
  | BeatSynced "policy_bundle list option" heartbeat_response "string list" "effect list"
  | BeatEvicted "policy_bundle list option" heartbeat_response
  | BeatPolled "policy_bundle list option" heartbeat_response
  | BeatReconciled heartbeat_response
  | BeatRuled heartbeat_response

text \<open>How far an admission task has come, and the poller that owns it.\<close>

datatype work =
    DecideFlow flow_admission_request
  | RecordFlow flow_admission_request string "port_rule list"
  | ReclaimPacket flow_admission_request flow_admission_response
  | DecideDns dns_admission_request
  | PostResult result_body

record admission_task =
  wk_node :: string
  wk_poller :: poller_task
  wk_work :: work

text \<open>
  Besides the connector: the admission tasks, the pollers that were aborted and that the runtime has not
  dropped yet (\<open>JoinHandle::abort\<close> only asks for it), the packet the receive loop has decrypted or taken from the channel
  and not yet put before the gate, the channel, and the address the TUN device was created with.
\<close>

record 't system =
  sy_con :: "'t connector"
  sy_beat :: beat
  sy_work :: "admission_task list"
  sy_stopping :: "(string \<times> poller_task) list"
  sy_gate :: "(string \<times> bytes) option"
  sy_recovered :: "(string \<times> bytes) list"
  sy_vip :: "ipv4addr option"

definition system_new :: "(bytes \<Rightarrow> gateway_end_report list option) \<Rightarrow> file_read \<Rightarrow> 't system" where
  "system_new from_slice queue_file = \<lparr>sy_con = connector_new from_slice queue_file, sy_beat = BeatIdle,
     sy_work = [], sy_stopping = [], sy_gate = None, sy_recovered = [], sy_vip = None\<rparr>"

text \<open>
  What a step shows: a packet decrypted under a node, a datagram or packet sent, a result posted. A packet
  is shown by the step that decides on it; the loop awaits its write after it let go of the lock, and
  takes up no other packet before.
\<close>

datatype observation = Decrypted string bytes | Emitted effect | Answered posted

datatype 's outcome = Disabled | Panicked | Went "observation list" 's

section \<open>The heartbeat, a lock at a time\<close>

definition do_exchange :: "'t sys_env \<Rightarrow> network \<Rightarrow> heartbeat_clock \<Rightarrow> 't system \<Rightarrow> 't system outcome" where
  "do_exchange env net clock s =
     (if sy_beat s \<noteq> BeatIdle then Disabled
      else
        (let old_bundles = map_option ps_policy_bundles (current_policy (co_store (sy_con s)))
         in case exchange_heartbeat ((se_host env)\<lparr>hs_net := net\<rparr>) clock (se_public_key env) (sy_con s) of
              (Inl _, c) \<Rightarrow> Went [] (s\<lparr>sy_con := c\<rparr>)
            | (Inr response, c) \<Rightarrow> Went [] (s\<lparr>sy_con := c, sy_beat := BeatAnswered old_bundles response\<rparr>)))"

definition do_apply :: "'t sys_env \<Rightarrow> heartbeat_clock \<Rightarrow> 't system \<Rightarrow> 't system outcome" where
  "do_apply env clock s = (case sy_beat s of
     BeatAnswered old_bundles response \<Rightarrow>
       (case apply_package (se_host env) clock response (sy_con s) of
          (Inl _, c) \<Rightarrow> Went [] (s\<lparr>sy_con := c, sy_beat := BeatIdle\<rparr>)
        | (Inr _, c) \<Rightarrow>
            Went [] (s\<lparr>sy_con := c\<lparr>co_log := record_all (hs_audit_disk (se_host env))
                (bundle_audit_events (hs_digest (se_host env)) old_bundles (hr_policy_bundles response)) (co_log c)\<rparr>,
              sy_beat := BeatApplied old_bundles response\<rparr>))
   | _ \<Rightarrow> Disabled)"

text \<open>\<open>dial_new_nodes\<close>: the block under the tunnel manager's lock, the one under the flow table's, the sends.\<close>

definition do_sync :: "'t sys_env \<Rightarrow> 't system \<Rightarrow> 't system outcome" where
  "do_sync env s = (case sy_beat s of
     BeatApplied old_bundles response \<Rightarrow>
       (let host = se_host env;
            (gone, manager) = sync_nodes (hs_decode_base64 host) (hs_new_tunn host) (hr_node_list response)
                (co_manager (sy_con s));
            (effects, manager) = dial_nodes (hs_tunn host) (hr_node_list response) manager
        in Went [] (s\<lparr>sy_con := (sy_con s)\<lparr>co_manager := manager\<rparr>,
             sy_beat := BeatSynced old_bundles response gone effects\<rparr>))
   | _ \<Rightarrow> Disabled)"

definition do_evict :: "'t system \<Rightarrow> 't system outcome" where
  "do_evict s = (case sy_beat s of
     BeatSynced old_bundles response gone effects \<Rightarrow>
       Went (map Emitted effects)
         (s\<lparr>sy_con := (sy_con s)\<lparr>co_table := fold evict_node gone (co_table (sy_con s))\<rparr>,
            sy_beat := BeatEvicted old_bundles response\<rparr>)
   | _ \<Rightarrow> Disabled)"

text \<open>
  The abort of a poller takes effect later: until the runtime drops it, it can go on, and only then are
  the admissions it owns aborted in turn. A poller that is replaced is another task (\<open>pt_spawn\<close>).
\<close>

definition still_runs :: "admission_pollers \<Rightarrow> admission_task \<Rightarrow> bool" where
  "still_runs pollers task \<longleftrightarrow> hm_get (pl_tasks pollers) (wk_node task) = Some (wk_poller task)"

definition aborted_pollers :: "admission_pollers \<Rightarrow> admission_pollers \<Rightarrow> (string \<times> poller_task) list" where
  "aborted_pollers old new = filter (\<lambda>(node_id, poller). hm_get (pl_tasks new) node_id \<noteq> Some poller) (pl_tasks old)"

definition do_poll_sync :: "'t system \<Rightarrow> 't system outcome" where
  "do_poll_sync s = (case sy_beat s of
     BeatEvicted old_bundles response \<Rightarrow>
       (let pollers = sync_pollers (hr_connector_id response) (hr_node_list response) (co_pollers (sy_con s))
        in Went [] (s\<lparr>sy_con := (sy_con s)\<lparr>co_pollers := pollers\<rparr>,
             sy_stopping := sy_stopping s @ aborted_pollers (co_pollers (sy_con s)) pollers,
             sy_beat := BeatPolled old_bundles response\<rparr>))
   | _ \<Rightarrow> Disabled)"

definition do_reconcile ::
  "'t sys_env \<Rightarrow> (nat \<Rightarrow> string) \<Rightarrow> heartbeat_clock \<Rightarrow> 't system \<Rightarrow> 't system outcome" where
  "do_reconcile env next_id clock s = (case sy_beat s of
     BeatPolled old_bundles response \<Rightarrow>
       Went [] (s\<lparr>sy_con := end_dropped_flows ((se_host env)\<lparr>hs_next_id := next_id\<rparr>) clock old_bundles
                    (hr_policy_bundles response) (sy_con s),
                  sy_beat := BeatReconciled response\<rparr>)
   | _ \<Rightarrow> Disabled)"

definition do_rules :: "'t sys_env \<Rightarrow> heartbeat_clock \<Rightarrow> 't system \<Rightarrow> 't system outcome" where
  "do_rules env clock s = (case sy_beat s of
     BeatReconciled response \<Rightarrow>
       Went [] (s\<lparr>sy_con := end_unserved_flows (se_host env) clock (hr_policy_bundles response) (sy_con s),
                  sy_beat := BeatRuled response\<rparr>)
   | _ \<Rightarrow> Disabled)"

text \<open>The last step; the first heartbeat that brings an address creates the TUN device with it.\<close>

definition do_refresh :: "(string \<Rightarrow> (string + ipv4addr list) option) \<Rightarrow> 't system \<Rightarrow> 't system outcome" where
  "do_refresh lookup s = (case sy_beat s of
     BeatRuled response \<Rightarrow>
       (let latest = Option.bind (hr_connector_virtual_ip response) parse_ipv4
        in Went [] (s\<lparr>sy_con := (sy_con s)\<lparr>co_cache := dns_refresh lookup
                 (collect_endpoint_hosts (hr_policy_bundles response)) (co_cache (sy_con s))\<rparr>,
             sy_vip := (if sy_vip s = None then latest else sy_vip s), sy_beat := BeatIdle\<rparr>))
   | _ \<Rightarrow> Disabled)"

section \<open>The pollers\<close>

text \<open>A running poller connects, which registers the port, or hands on a message it received.\<close>

definition do_poll_connect :: "string \<Rightarrow> connection \<Rightarrow> 't system \<Rightarrow> 't system outcome" where
  "do_poll_connect node_id connection s =
     (if hm_contains (pl_tasks (co_pollers (sy_con s))) node_id \<or> node_id \<in> fst ` set (sy_stopping s)
      then Went [] (s\<lparr>sy_con := (sy_con s)\<lparr>co_table :=
                        snd (connect_registered node_id connection (co_table (sy_con s)))\<rparr>\<rparr>)
      else Disabled)"

text \<open>What the control plane's handlers see of the daemon, and what they leave in it.\<close>

definition plane_of :: "'t system \<Rightarrow> control_plane" where
  "plane_of s = \<lparr>cp_store = co_store (sy_con s), cp_log = co_log (sy_con s), cp_table = co_table (sy_con s),
     cp_recovered = sy_recovered s\<rparr>"

definition with_plane :: "control_plane \<Rightarrow> 't system \<Rightarrow> 't system" where
  "with_plane p s = s\<lparr>sy_con := (sy_con s)\<lparr>co_log := cp_log p, co_table := cp_table p\<rparr>,
     sy_recovered := cp_recovered p\<rparr>"

text \<open>The task a message becomes, if any: one without its body is logged and done.\<close>

definition work_of :: "poll_message \<Rightarrow> work option" where
  "work_of message =
     (if pm_kind message = ''admission'' then map_option DecideFlow (pm_admission message)
      else if pm_kind message = ''dns_admission'' then map_option DecideDns (pm_dns_admission message)
      else None)"

text \<open>\<open>dispatch_message\<close> of one poller: a semaphore of its own counts the admissions it has in flight.\<close>

definition in_flight :: "string \<Rightarrow> poller_task \<Rightarrow> 't system \<Rightarrow> nat" where
  "in_flight node_id poller s = length (filter (\<lambda>task. wk_node task = node_id \<and> wk_poller task = poller) (sy_work s))"

definition dispatch_to ::
  "'t sys_env \<Rightarrow> moment \<Rightarrow> string \<Rightarrow> poller_task \<Rightarrow> poll_message \<Rightarrow> 't system \<Rightarrow> 't system outcome" where
  "dispatch_to env mo node_id poller message s =
     (if pm_kind message \<noteq> ''admission'' \<and> pm_kind message \<noteq> ''dns_admission''
      then Went [] (if pm_kind message = ''release''
            then with_plane (handle_release (control_env_of env) mo (pm_release message) (plane_of s)) s else s)
      else if in_flight node_id poller s < MAX_CONCURRENT_ADMISSIONS_PER_NODE
      then Went [] (case work_of message of
            Some work \<Rightarrow> s\<lparr>sy_work := sy_work s @
              [\<lparr>wk_node = node_id, wk_poller = poller, wk_work = work\<rparr>]\<rparr>
          | None \<Rightarrow> s)
      else Disabled)"

definition do_message :: "'t sys_env \<Rightarrow> moment \<Rightarrow> string \<Rightarrow> poll_message \<Rightarrow> 't system \<Rightarrow> 't system outcome" where
  "do_message env mo node_id message s =
     (case hm_get (pl_tasks (co_pollers (sy_con s))) node_id of
        None \<Rightarrow> Disabled
      | Some poller \<Rightarrow> dispatch_to env mo node_id poller message s)"

text \<open>A poller that was aborted while it ran gets as far as its next await, which may be past a message.\<close>

definition do_late_message :: "'t sys_env \<Rightarrow> moment \<Rightarrow> nat \<Rightarrow> poll_message \<Rightarrow> 't system \<Rightarrow> 't system outcome" where
  "do_late_message env mo k message s =
     (if k < length (sy_stopping s)
      then dispatch_to env mo (fst (sy_stopping s ! k)) (snd (sy_stopping s ! k)) message s
      else Disabled)"

text \<open>
  The runtime drops an aborted poller. With it goes its \<open>JoinSet\<close>, which aborts the admissions in it:
  the runtime drops each of these too, some time later.
\<close>

definition poller_runs :: "'t system \<Rightarrow> string \<Rightarrow> poller_task \<Rightarrow> bool" where
  "poller_runs s node_id poller \<longleftrightarrow>
     hm_get (pl_tasks (co_pollers (sy_con s))) node_id = Some poller \<or> (node_id, poller) \<in> set (sy_stopping s)"

definition do_drop_poller :: "nat \<Rightarrow> 't system \<Rightarrow> 't system outcome" where
  "do_drop_poller k s =
     (if k < length (sy_stopping s) then Went [] (s\<lparr>sy_stopping := forget_task k (sy_stopping s)\<rparr>) else Disabled)"

definition do_drop_work :: "nat \<Rightarrow> 't system \<Rightarrow> 't system outcome" where
  "do_drop_work i s =
     (if i < length (sy_work s) \<and> \<not> poller_runs s (wk_node (sy_work s ! i)) (wk_poller (sy_work s ! i))
      then Went [] (s\<lparr>sy_work := forget_task i (sy_work s)\<rparr>) else Disabled)"

lemmas poller_step_defs = do_message_def do_late_message_def dispatch_to_def do_drop_poller_def do_drop_work_def

section \<open>An admission task\<close>

text \<open>A task's next piece: what it shows, the work left (\<open>None\<close>: done) and the shared state; \<open>None\<close>: a panic.\<close>

definition work_step ::
  "control_env \<Rightarrow> moment \<Rightarrow> string \<Rightarrow> string \<Rightarrow> work \<Rightarrow> control_plane \<Rightarrow>
   (posted list \<times> work option \<times> control_plane) option" where
  "work_step env mo node_id connector_id work p = (case work of
     DecideFlow request \<Rightarrow>
       (case authenticate_and_decide env (cp_store p) (fa_gateway_id request) (fa_user_public_key request)
               (fa_signature request) (fa_signed_data request) (mo_utc mo) (cp_log p) of
          None \<Rightarrow> None
        | Some (OutcomeAllowed key rules, log) \<Rightarrow> Some ([], Some (RecordFlow request key rules), p\<lparr>cp_log := log\<rparr>)
        | Some (OutcomeRefused reason, log) \<Rightarrow>
            Some ([], Some (ReclaimPacket request (refusal_reply request reason)), p\<lparr>cp_log := log\<rparr>))
   | RecordFlow request key rules \<Rightarrow>
       (let ((recorded, rule), table) =
              record_admission request (request_dialled request) key rules (mo_now mo) (cp_table p);
            (response, event) = admission_reply request key recorded rule;
            log = (case event of Some event \<Rightarrow> try_record (ce_disk env) event (cp_log p) | None \<Rightarrow> cp_log p)
        in Some ([], Some (ReclaimPacket request response), p\<lparr>cp_log := log, cp_table := table\<rparr>))
   | ReclaimPacket request response \<Rightarrow>
       Some ([], Some (PostResult (FlowResult response)),
             reclaim_packet node_id request response (mo_reclaim mo) p)
   | DecideDns request \<Rightarrow>
       (case handle_dns_admission env (cp_store p) request (mo_utc mo) (cp_log p) of
          None \<Rightarrow> None
        | Some (response, log) \<Rightarrow>
            Some ([], Some (PostResult (DnsResult (da_correlation_id request) response)), p\<lparr>cp_log := log\<rparr>))
   | PostResult body \<Rightarrow>
       (let (posts, p) = post_result node_id connector_id (mo_connection mo) body p in Some (posts, None, p)))"

definition do_work :: "'t sys_env \<Rightarrow> moment \<Rightarrow> nat \<Rightarrow> 't system \<Rightarrow> 't system outcome" where
  "do_work env mo i s =
     (if i < length (sy_work s)
      then
        (let task = sy_work s ! i
         in case work_step (control_env_of env) mo (wk_node task) (pt_connector_id (wk_poller task)) (wk_work task)
                   (plane_of s) of
              None \<Rightarrow> Panicked
            | Some (posts, left, p) \<Rightarrow>
                Went (map Answered posts)
                  ((with_plane p s)\<lparr>sy_work := (case left of
                      Some work \<Rightarrow> (sy_work s)[i := task\<lparr>wk_work := work\<rparr>]
                    | None \<Rightarrow> forget_task i (sy_work s))\<rparr>))
      else Disabled)"

section \<open>The packet loops\<close>

text \<open>The loops run once the TUN device is there. The receive loop's two arms end at the same gate.\<close>

definition do_datagram :: "'t sys_env \<Rightarrow> bytes \<Rightarrow> socket_addr \<Rightarrow> 't system \<Rightarrow> 't system outcome" where
  "do_datagram env datagram src s =
     (if sy_vip s = None \<or> sy_gate s \<noteq> None then Disabled
      else
        (case tunnel_for_addr (co_manager (sy_con s)) src of
           None \<Rightarrow> Went [] s
         | Some tunnel \<Rightarrow>
             (let node_id = nt_node_id tunnel;
                  (event, tunnel) = receive_datagram (tl_decapsulate (hs_tunn (se_host env))) datagram tunnel;
                  s = s\<lparr>sy_con := (sy_con s)\<lparr>co_manager := put_tunnel tunnel (co_manager (sy_con s))\<rparr>\<rparr>
              in case event of
                   SendToNode packet \<Rightarrow> Went [Emitted (SendUdp packet src)] s
                 | DecryptedData packet \<Rightarrow> Went [Decrypted node_id packet] (s\<lparr>sy_gate := Some (node_id, packet)\<rparr>)
                 | ProtocolError _ \<Rightarrow> Went [] s
                 | Nothing \<Rightarrow> Went [] s)))"

definition do_recovered :: "'t system \<Rightarrow> 't system outcome" where
  "do_recovered s =
     (if sy_vip s = None \<or> sy_gate s \<noteq> None then Disabled
      else
        (case sy_recovered s of
           [] \<Rightarrow> Disabled
         | (node_id, packet) # rest \<Rightarrow> Went [] (s\<lparr>sy_gate := Some (node_id, packet), sy_recovered := rest\<rparr>)))"

definition do_gate :: "'t sys_env \<Rightarrow> instant \<Rightarrow> 't system \<Rightarrow> 't system outcome" where
  "do_gate env now s = (case (sy_gate s, sy_vip s) of
     (Some (node_id, packet), Some connector_virtual_ip) \<Rightarrow>
       (case forward_to_tun (hs_tunn (se_host env)) (V4 connector_virtual_ip) (co_cache (sy_con s)) now node_id packet
               (co_table (sy_con s)) of
          None \<Rightarrow> Panicked
        | Some (effects, table) \<Rightarrow>
            Went (map Emitted effects) (s\<lparr>sy_con := (sy_con s)\<lparr>co_table := table\<rparr>, sy_gate := None\<rparr>))
   | _ \<Rightarrow> Disabled)"

definition do_tun :: "'t sys_env \<Rightarrow> bytes \<Rightarrow> 't system \<Rightarrow> 't system outcome" where
  "do_tun env packet s =
     (if sy_vip s = None then Disabled
      else
        (case tun_turn (hs_tunn (se_host env)) packet (co_manager (sy_con s), co_table (sy_con s)) of
           None \<Rightarrow> Panicked
         | Some (effects, manager, table) \<Rightarrow>
             Went (map Emitted effects) (s\<lparr>sy_con := (sy_con s)\<lparr>co_manager := manager, co_table := table\<rparr>\<rparr>)))"

definition do_timer :: "'t sys_env \<Rightarrow> 't system \<Rightarrow> 't system outcome" where
  "do_timer env s =
     (if sy_vip s = None then Disabled
      else
        (case timer_turn (hs_tunn (se_host env)) (co_manager (sy_con s), co_table (sy_con s)) of
           None \<Rightarrow> Panicked
         | Some (effects, manager, table) \<Rightarrow>
             Went (map Emitted effects) (s\<lparr>sy_con := (sy_con s)\<lparr>co_manager := manager, co_table := table\<rparr>\<rparr>)))"

section \<open>The machine\<close>

datatype sys_label =
    LExchange network heartbeat_clock
  | LApplyPackage heartbeat_clock
  | LSync
  | LEvict
  | LPollSync
  | LEndDropped "nat \<Rightarrow> string" heartbeat_clock
  | LEndUnserved heartbeat_clock
  | LRefresh "string \<Rightarrow> (string + ipv4addr list) option"
  | LPollConnect string connection
  | LMessage moment string poll_message
  | LLateMessage moment nat poll_message
  | LDropPoller nat
  | LDropWork nat
  | LWork moment nat
  | LDatagram bytes socket_addr
  | LRecovered
  | LGate instant
  | LTun bytes
  | LTimer

fun sys_step :: "'t sys_env \<Rightarrow> sys_label \<Rightarrow> 't system \<Rightarrow> 't system outcome" where
  "sys_step env (LExchange net clock) s = do_exchange env net clock s"
| "sys_step env (LApplyPackage clock) s = do_apply env clock s"
| "sys_step env LSync s = do_sync env s"
| "sys_step env LEvict s = do_evict s"
| "sys_step env LPollSync s = do_poll_sync s"
| "sys_step env (LEndDropped next_id clock) s = do_reconcile env next_id clock s"
| "sys_step env (LEndUnserved clock) s = do_rules env clock s"
| "sys_step env (LRefresh lookup) s = do_refresh lookup s"
| "sys_step env (LPollConnect node_id connection) s = do_poll_connect node_id connection s"
| "sys_step env (LMessage mo node_id message) s = do_message env mo node_id message s"
| "sys_step env (LLateMessage mo k message) s = do_late_message env mo k message s"
| "sys_step env (LDropPoller k) s = do_drop_poller k s"
| "sys_step env (LDropWork i) s = do_drop_work i s"
| "sys_step env (LWork mo i) s = do_work env mo i s"
| "sys_step env (LDatagram datagram src) s = do_datagram env datagram src s"
| "sys_step env LRecovered s = do_recovered s"
| "sys_step env (LGate now) s = do_gate env now s"
| "sys_step env (LTun packet) s = do_tun env packet s"
| "sys_step env LTimer s = do_timer env s"

text \<open>A run whose steps all meet a guard on the state they start from, and all it showed.\<close>

inductive sys_run ::
  "(sys_label \<Rightarrow> 't system \<Rightarrow> bool) \<Rightarrow> 't sys_env \<Rightarrow> 't system \<Rightarrow> observation list \<Rightarrow> 't system \<Rightarrow> bool"
  for guard env s where
  sys_run_nil: "sys_run guard env s [] s"
| sys_run_step: "sys_run guard env s shown s' \<Longrightarrow> guard l s' \<Longrightarrow> sys_step env l s' = Went obs s'' \<Longrightarrow>
     sys_run guard env s (shown @ obs) s''"

inductive_cases sys_run_snocE: "sys_run guard env s shown s''"

text \<open>A given sequence of steps: what it shows and where it ends, if each of them can be taken.\<close>

fun sys_exec ::
  "(sys_label \<Rightarrow> 't system \<Rightarrow> bool) \<Rightarrow> 't sys_env \<Rightarrow> sys_label list \<Rightarrow> 't system \<Rightarrow> (observation list \<times> 't system) option" where
  "sys_exec guard env [] s = Some ([], s)"
| "sys_exec guard env (l # ls) s =
     (if guard l s
      then (case sys_step env l s of
              Went obs s \<Rightarrow> map_option (\<lambda>(more, s). (obs @ more, s)) (sys_exec guard env ls s)
            | _ \<Rightarrow> None)
      else None)"

abbreviation any_step :: "sys_label \<Rightarrow> 't system \<Rightarrow> bool" where
  "any_step \<equiv> \<lambda>_ _. True"

lemma sys_run_append_exec:
  "sys_run guard env s0 shown s \<Longrightarrow> sys_exec guard env ls s = Some (further, s') \<Longrightarrow>
     sys_run guard env s0 (shown @ further) s'"
proof (induction ls arbitrary: shown further s)
  case Nil
  then show ?case by simp
next
  case (Cons l ls)
  then obtain obs s1 rest where l: "guard l s" "sys_step env l s = Went obs s1" "further = obs @ rest"
    "sys_exec guard env ls s1 = Some (rest, s')"
    by (auto split: if_splits outcome.splits)
  from Cons.IH [OF sys_run_step [OF Cons.prems(1) l(1,2)] l(4)] l(3) show ?case by simp
qed

lemma sys_run_exec: "sys_exec guard env ls s = Some (shown, s') \<Longrightarrow> sys_run guard env s shown s'"
  using sys_run_append_exec [OF sys_run_nil, of guard env ls s shown s'] by simp

section \<open>The pieces together are the functions of the code\<close>

definition heartbeat_steps :: "'t sys_env \<Rightarrow> network \<Rightarrow> heartbeat_clock \<Rightarrow> sys_label list" where
  "heartbeat_steps env net clock = [LExchange net clock, LApplyPackage clock, LSync, LEvict, LPollSync,
     LEndDropped (hs_next_id (se_host env)) clock, LEndUnserved clock, LRefresh (hs_lookup (se_host env))]"

lemma put_in_force_pieces:
  assumes "sync_nodes (hs_decode_base64 host) (hs_new_tunn host) (hr_node_list response) (co_manager c) = (gone, m)"
    and "dial_nodes (hs_tunn host) (hr_node_list response) m = (effects, m')"
  shows "put_in_force host clock old_bundles response c =
    (let c1 = c\<lparr>co_log := record_all (hs_audit_disk host)
                  (bundle_audit_events (hs_digest host) old_bundles (hr_policy_bundles response)) (co_log c),
                co_manager := m', co_table := fold evict_node gone (co_table c),
                co_pollers := sync_pollers (hr_connector_id response) (hr_node_list response) (co_pollers c)\<rparr>;
         c2 = end_dropped_flows host clock old_bundles (hr_policy_bundles response) c1;
         c3 = end_unserved_flows host clock (hr_policy_bundles response) c2
     in (effects, c3\<lparr>co_cache := dns_refresh (hs_lookup host)
           (collect_endpoint_hosts (hr_policy_bundles response)) (co_cache c3)\<rparr>))"
  by (simp add: put_in_force_def dial_new_nodes_def assms Let_def)

text \<open>What these pieces read of the host is not the network.\<close>

lemma host_frames:
  "apply_package (host\<lparr>hs_net := net\<rparr>) clock response c = apply_package host clock response c"
  "end_dropped_flows (host\<lparr>hs_net := net\<rparr>) clock old new c = end_dropped_flows host clock old new c"
  "end_dropped_flows (host\<lparr>hs_next_id := hs_next_id host\<rparr>) clock old new c = end_dropped_flows host clock old new c"
  "end_unserved_flows (host\<lparr>hs_net := net\<rparr>) clock new c = end_unserved_flows host clock new c"
  by (auto simp: apply_package_def end_dropped_flows_def end_unserved_flows_def Let_def
      split: prod.split sum.split option.split)

text \<open>
  Run uninterrupted, the eight steps a heartbeat is cut into are the whole heartbeat: the same state, the
  same packets sent, the same address.
\<close>

theorem heartbeat_is_its_steps:
  assumes "sy_beat s = BeatIdle"
    and "run_heartbeat ((se_host env)\<lparr>hs_net := net\<rparr>) clock (se_public_key env) (sy_con s) = (Inr ip, effects, c)"
  shows "sys_exec any_step env (heartbeat_steps env net clock) s =
    Some (map Emitted effects, s\<lparr>sy_con := c,
      sy_stopping := sy_stopping s @ aborted_pollers (co_pollers (sy_con s)) (co_pollers c),
      sy_vip := (if sy_vip s = None then ip else sy_vip s)\<rparr>)"
proof -
  let ?host = "se_host env"
  let ?old = "map_option ps_policy_bundles (current_policy (co_store (sy_con s)))"
  obtain response c1 u c2 where e: "exchange_heartbeat (?host\<lparr>hs_net := net\<rparr>) clock (se_public_key env) (sy_con s) = (Inr response, c1)"
    and a: "apply_package ?host clock response c1 = (Inr u, c2)"
    and p: "put_in_force (?host\<lparr>hs_net := net\<rparr>) clock ?old response c2 = (effects, c)"
    and ip: "ip = Option.bind (hr_connector_virtual_ip response) parse_ipv4"
    using assms(2) by (auto simp: run_heartbeat_def Let_def host_frames split: prod.splits sum.splits)
  obtain gone m effects' m' where d: "sync_nodes (hs_decode_base64 ?host) (hs_new_tunn ?host) (hr_node_list response) (co_manager c2) = (gone, m)"
    "dial_nodes (hs_tunn ?host) (hr_node_list response) m = (effects', m')"
    by (metis prod.exhaust)
  have step1: "do_exchange env net clock s = Went [] (s\<lparr>sy_con := c1, sy_beat := BeatAnswered ?old response\<rparr>)"
    using assms(1) e by (simp add: do_exchange_def)
  define c3 where "c3 = c2\<lparr>co_log := record_all (hs_audit_disk ?host)
      (bundle_audit_events (hs_digest ?host) ?old (hr_policy_bundles response)) (co_log c2)\<rparr>"
  define c4 where "c4 = c3\<lparr>co_manager := m', co_table := fold evict_node gone (co_table c3),
      co_pollers := sync_pollers (hr_connector_id response) (hr_node_list response) (co_pollers c3)\<rparr>"
  define c5 where "c5 = end_unserved_flows ?host clock (hr_policy_bundles response)
      (end_dropped_flows ?host clock ?old (hr_policy_bundles response) c4)"
  have c: "effects' = effects" "c = c5\<lparr>co_cache := dns_refresh (hs_lookup ?host)
      (collect_endpoint_hosts (hr_policy_bundles response)) (co_cache c5)\<rparr>"
    using p d put_in_force_pieces [of "?host\<lparr>hs_net := net\<rparr>" response c2 gone m effects' m' clock ?old]
    by (simp_all add: c3_def c4_def c5_def Let_def host_frames)
  let ?bundles = "hr_policy_bundles response"
  let ?dropped = "end_dropped_flows ?host clock ?old ?bundles c4"
  let ?gone = "sy_stopping s @ aborted_pollers (co_pollers (sy_con s)) (co_pollers c)"
  have pollers: "co_pollers c4 = co_pollers c" "co_pollers c2 = co_pollers (sy_con s)"
    using exchange_frame(6) [OF e] apply_package_frame(5) [OF a] by (simp_all add: c c5_def)
  have steps:
    "do_apply env clock (s\<lparr>sy_con := c1, sy_beat := BeatAnswered ?old response\<rparr>) =
       Went [] (s\<lparr>sy_con := c3, sy_beat := BeatApplied ?old response\<rparr>)"
    "do_sync env (s\<lparr>sy_con := c3, sy_beat := BeatApplied ?old response\<rparr>) =
       Went [] (s\<lparr>sy_con := c3\<lparr>co_manager := m'\<rparr>, sy_beat := BeatSynced ?old response gone effects'\<rparr>)"
    "do_evict (s\<lparr>sy_con := c3\<lparr>co_manager := m'\<rparr>, sy_beat := BeatSynced ?old response gone effects'\<rparr>) =
       Went (map Emitted effects') (s\<lparr>sy_con := c3\<lparr>co_manager := m', co_table := fold evict_node gone (co_table c3)\<rparr>,
         sy_beat := BeatEvicted ?old response\<rparr>)"
    "do_poll_sync (s\<lparr>sy_con := c3\<lparr>co_manager := m', co_table := fold evict_node gone (co_table c3)\<rparr>,
         sy_beat := BeatEvicted ?old response\<rparr>) =
       Went [] (s\<lparr>sy_con := c4, sy_stopping := sy_stopping s @ aborted_pollers (co_pollers c2) (co_pollers c4), sy_beat := BeatPolled ?old response\<rparr>)"
    "do_reconcile env (hs_next_id ?host) clock (s\<lparr>sy_con := c4, sy_stopping := ?gone, sy_beat := BeatPolled ?old response\<rparr>) =
       Went [] (s\<lparr>sy_con := ?dropped, sy_stopping := ?gone, sy_beat := BeatReconciled response\<rparr>)"
    "do_rules env clock (s\<lparr>sy_con := ?dropped, sy_stopping := ?gone, sy_beat := BeatReconciled response\<rparr>) =
       Went [] (s\<lparr>sy_con := c5, sy_stopping := ?gone, sy_beat := BeatRuled response\<rparr>)"
    "do_refresh (hs_lookup ?host) (s\<lparr>sy_con := c5, sy_stopping := ?gone, sy_beat := BeatRuled response\<rparr>) =
       Went [] (s\<lparr>sy_con := c, sy_stopping := ?gone, sy_vip := (if sy_vip s = None then ip else sy_vip s)\<rparr>)"
    by (simp add: do_apply_def a c3_def,
        simp add: do_sync_def Let_def c3_def d,
        simp add: do_evict_def,
        simp add: do_poll_sync_def Let_def c3_def c4_def,
        simp add: do_reconcile_def host_frames,
        simp add: do_rules_def c5_def,
        simp add: do_refresh_def Let_def c(2) ip assms(1))
  show ?thesis
    unfolding heartbeat_steps_def sys_exec.simps sys_step.simps if_True step1 outcome.case steps(1-4) pollers steps(5-7)
    by (simp add: c(1))
qed

text \<open>A task run to its end, in at most \<open>n\<close> pieces; an admission takes four, a DNS admission two.\<close>

fun run_work ::
  "nat \<Rightarrow> control_env \<Rightarrow> moment \<Rightarrow> string \<Rightarrow> string \<Rightarrow> work \<Rightarrow> control_plane \<Rightarrow>
   (posted list \<times> control_plane) option" where
  "run_work 0 env mo node_id connector_id work p = None"
| "run_work (Suc n) env mo node_id connector_id work p = (case work_step env mo node_id connector_id work p of
     None \<Rightarrow> None
   | Some (posts, None, p) \<Rightarrow> Some (posts, p)
   | Some (posts, Some work, p) \<Rightarrow>
       map_option (\<lambda>(more, p). (posts @ more, p)) (run_work n env mo node_id connector_id work p))"

lemma refused_reclaims_nothing: "reclaim_packet n request (refusal_reply request reason) now p = p"
  by (simp add: reclaim_packet_def refusal_reply_def)

theorem admission_is_its_steps:
  "run_work 4 env mo n c (DecideFlow request) p = handle_admission env mo n c (Some request) p \<and>
   run_work 2 env mo n c (DecideDns query) p = handle_dns env mo n c (Some query) p"
proof
  have f: "(4::nat) = Suc (Suc (Suc (Suc 0)))" "(2::nat) = Suc (Suc 0)" by simp_all
  have post: "work_step env mo n c (PostResult body) p =
      Some (fst (post_result n c (mo_connection mo) body p), None, snd (post_result n c (mo_connection mo) body p))" for body p
    by (simp add: work_step_def split_beta)
  show "run_work 4 env mo n c (DecideFlow request) p = handle_admission env mo n c (Some request) p"
  proof (cases "authenticate_and_decide env (cp_store p) (fa_gateway_id request) (fa_user_public_key request)
      (fa_signature request) (fa_signed_data request) (mo_utc mo) (cp_log p)")
    case None
    then show ?thesis by (simp add: f work_step_def handle_admission_def handle_flow_admission_def)
  next
    case (Some r)
    obtain outcome log where r: "r = (outcome, log)" by force
    show ?thesis
    proof (cases outcome)
      case (OutcomeAllowed key rules)
      obtain recorded rule table where m: "record_admission request (request_dialled request) key rules (mo_now mo) (cp_table p) =
          ((recorded, rule), table)" by (metis prod.exhaust)
      obtain response event where a: "admission_reply request key recorded rule = (response, event)" by force
      show ?thesis
        using Some unfolding f r OutcomeAllowed
        by (simp add: handle_admission_def handle_flow_admission_def m a post Let_def)
          (cases event; simp add: work_step_def m a split_beta)
    next
      case (OutcomeRefused reason)
      with Some r show ?thesis
        by (simp add: f handle_admission_def handle_flow_admission_def post Let_def refused_reclaims_nothing)
          (simp add: work_step_def split_beta refused_reclaims_nothing)
    qed
  qed
  show "run_work 2 env mo n c (DecideDns query) p = handle_dns env mo n c (Some query) p"
    unfolding f by (auto simp: handle_dns_def work_step_def split_beta split: option.split)
qed

section \<open>No step panics\<close>

definition sys_ok :: "'t sys_env \<Rightarrow> 't system \<Rightarrow> bool" where
  "sys_ok env s \<longleftrightarrow> connector_ok (hs_parse_rfc3339 (se_host env)) (sy_con s)"

lemma sys_ok_new: "sys_ok env (system_new from_slice queue_file)"
  by (simp add: sys_ok_def system_new_def connector_ok_new)

lemma connector_ok_fields:
  assumes "connector_ok parse c" "co_store c' = co_store c" "co_cache c' = co_cache c" "co_pollers c' = co_pollers c"
    "co_directory c' = co_directory c" "tm_inv (co_manager c')" "ft_inv (co_table c')"
  shows "connector_ok parse c'"
  using assms by (simp add: connector_ok_def dp_inv_def)

lemma connector_ok_parts:
  assumes "connector_ok parse c"
  shows "tm_inv (co_manager c)" "ft_inv (co_table c)" "store_ok parse (co_store c)" "dp_inv (co_manager c, co_table c)"
  using assms by (simp_all add: connector_ok_def dp_inv_def)

lemma connect_registered_inv: "ft_inv t \<Longrightarrow> ft_inv (snd (connect_registered n connection t))"
  by (simp add: connect_registered_def record_outbound_control_channel_port_inv split: connection.split)

text \<open>What a task's piece keeps.\<close>

lemma work_step_total:
  assumes "store_ok (ce_parse_rfc3339 env) (cp_store p)" "ft_inv (cp_table p)"
  obtains posts left p' where "work_step env mo n c work p = Some (posts, left, p')"
    "cp_store p' = cp_store p" "ft_inv (cp_table p')"
proof -
  have "\<exists>posts left p'. work_step env mo n c work p = Some (posts, left, p') \<and> cp_store p' = cp_store p \<and> ft_inv (cp_table p')"
  proof (cases work)
    case (DecideFlow request)
    show ?thesis
      using authenticate_total [OF assms(1)] assms(2) unfolding DecideFlow
      by (fastforce simp: work_step_def split: option.split admission_outcome.split)
  next
    case (RecordFlow request key rules)
    show ?thesis
      using record_admission_inv [OF assms(2)] unfolding RecordFlow
      by (simp add: work_step_def Let_def split_beta)
  next
    case (ReclaimPacket request response)
    show ?thesis
      using take_pending_inv [OF assms(2)] assms(2) unfolding ReclaimPacket
      by (auto simp: work_step_def reclaim_packet_def split_beta split: option.split prod.split)
  next
    case (DecideDns query)
    show ?thesis
      using authenticate_total [OF assms(1)] assms(2) unfolding DecideDns
      by (fastforce simp: work_step_def handle_dns_admission_def split: option.split admission_outcome.split)
  next
    case (PostResult body)
    show ?thesis
      using connect_registered_inv [OF assms(2)] unfolding PostResult
      by (simp add: work_step_def post_result_def Let_def split_beta)
  qed
  then show thesis using that by blast
qed

lemma with_plane_ok:
  assumes "connector_ok parse (sy_con s)" "ft_inv (cp_table p)"
  shows "connector_ok parse (sy_con (with_plane p s))"
  by (rule connector_ok_fields [OF assms(1)]) (use assms connector_ok_parts(1) in \<open>simp_all add: with_plane_def\<close>)

lemma beat_pieces_ok:
  assumes "connector_ok parse c"
  shows "connector_ok parse (c\<lparr>co_table := fold evict_node ns (co_table c)\<rparr>)"
    "connector_ok parse (c\<lparr>co_pollers := sync_pollers i nodes (co_pollers c)\<rparr>)"
    "connector_ok parse (end_dropped_flows host clock old new c)"
    "connector_ok parse (end_unserved_flows host clock new c)"
    "connector_ok parse (c\<lparr>co_cache := dns_refresh lookup hosts (co_cache c)\<rparr>)"
    "connector_ok parse (c\<lparr>co_log := log\<rparr>)"
    "connector_ok parse (c\<lparr>co_table := snd (connect_registered n connection (co_table c))\<rparr>)"
  by (use assms in \<open>simp_all add: connector_ok_def dp_inv_def evict_nodes_inv sync_pollers_ok dns_refresh_inv
      end_dropped_table ft_run.inv_run connect_registered_inv\<close>)

lemma sync_piece_ok:
  assumes "connector_ok parse c" "sync_nodes dec new nodes (co_manager c) = (gone, m)"
    "dial_nodes lib nodes' m = (effects, m')"
  shows "connector_ok parse (c\<lparr>co_manager := m'\<rparr>)"
proof -
  have "tm_inv m" using sync_nodes_inv [of "co_manager c" dec new nodes] assms(2) connector_ok_parts(1) [OF assms(1)] by simp
  then have "tm_inv m'" using dial_nodes_inv [of m lib nodes'] assms(3) by simp
  then show ?thesis by (intro connector_ok_fields [OF assms(1)]) (simp_all add: connector_ok_parts(2) [OF assms(1)])
qed

text \<open>What keeps the invariant and does not panic.\<close>

definition goes_well :: "'t sys_env \<Rightarrow> 't system outcome \<Rightarrow> bool" where
  "goes_well env r = (case r of Disabled \<Rightarrow> True | Panicked \<Rightarrow> False | Went _ s \<Rightarrow> sys_ok env s)"

lemma goes_well_simps [simp]:
  "goes_well env Disabled" "\<not> goes_well env Panicked" "goes_well env (Went obs s) \<longleftrightarrow> sys_ok env s"
  by (simp_all add: goes_well_def)

lemma beat_goes_well:
  assumes "sys_ok env s"
  shows "goes_well env (do_exchange env net clock s)" "goes_well env (do_apply env clock s)"
    "goes_well env (do_sync env s)" "goes_well env (do_evict s)" "goes_well env (do_poll_sync s)"
    "goes_well env (do_reconcile env next_id clock s)" "goes_well env (do_rules env clock s)"
    "goes_well env (do_refresh lookup s)"
proof -
  note ok = assms [unfolded sys_ok_def]
  show "goes_well env (do_exchange env net clock s)"
    using exchange_ok [OF _ ok] by (auto simp: do_exchange_def sys_ok_def split: prod.split sum.split)
  show "goes_well env (do_apply env clock s)"
    using apply_package_ok [OF _ ok] by (auto simp: do_apply_def sys_ok_def beat_pieces_ok(6) split: beat.split prod.split sum.split)
  show "goes_well env (do_sync env s)"
    using sync_piece_ok [OF ok] by (auto simp: do_sync_def Let_def sys_ok_def split: beat.split prod.split)
  show "goes_well env (do_evict s)" "goes_well env (do_poll_sync s)"
    "goes_well env (do_reconcile env next_id clock s)" "goes_well env (do_rules env clock s)"
    "goes_well env (do_refresh lookup s)"
    using beat_pieces_ok [OF ok]
    by (auto simp: do_evict_def do_poll_sync_def do_reconcile_def do_rules_def do_refresh_def Let_def sys_ok_def split: beat.split)
qed

lemma poller_goes_well:
  assumes "sys_ok env s"
  shows "goes_well env (do_poll_connect n connection s)" "goes_well env (do_message env mo n message s)"
    "goes_well env (do_late_message env mo k message s)" "goes_well env (do_drop_poller k s)"
    "goes_well env (do_drop_work i s)" "goes_well env (do_work env mo i s)"
proof -
  note ok = assms [unfolded sys_ok_def]
  show "goes_well env (do_poll_connect n connection s)"
    using beat_pieces_ok(7) [OF ok] by (simp add: do_poll_connect_def sys_ok_def)
  have "ft_inv (cp_table (handle_release (control_env_of env) mo r (plane_of s)))" for r
    using connector_ok_parts(2) [OF ok] by (simp add: handle_release_def plane_of_def release_inv split: option.split)
  then have dispatch: "goes_well env (dispatch_to env mo n poller message s)" for n poller
    using ok with_plane_ok [OF ok] by (auto simp: dispatch_to_def sys_ok_def split: option.split)
  then show "goes_well env (do_message env mo n message s)" "goes_well env (do_late_message env mo k message s)"
    by (simp_all add: do_message_def do_late_message_def split: option.split)
  show "goes_well env (do_drop_poller k s)" "goes_well env (do_drop_work i s)"
    using assms by (simp_all add: do_drop_poller_def do_drop_work_def sys_ok_def)
  have p: "store_ok (ce_parse_rfc3339 (control_env_of env)) (cp_store (plane_of s))" "ft_inv (cp_table (plane_of s))"
    using connector_ok_parts [OF ok] by (simp_all add: control_env_of_def plane_of_def)
  show "goes_well env (do_work env mo i s)"
  proof (cases "i < length (sy_work s)")
    case True
    obtain posts left p' where w: "work_step (control_env_of env) mo (wk_node (sy_work s ! i))
        (pt_connector_id (wk_poller (sy_work s ! i))) (wk_work (sy_work s ! i)) (plane_of s) = Some (posts, left, p')"
      "ft_inv (cp_table p')" using work_step_total [OF p] by metis
    show ?thesis using with_plane_ok [OF ok w(2)] by (simp add: do_work_def True w(1) Let_def sys_ok_def)
  qed (simp add: do_work_def)
qed

lemma loops_go_well:
  assumes "sys_ok env s"
  shows "goes_well env (do_datagram env datagram src s)" "goes_well env (do_recovered s)"
    "goes_well env (do_gate env now s)" "goes_well env (do_tun env packet s)" "goes_well env (do_timer env s)"
proof -
  note ok = assms [unfolded sys_ok_def]
  note tm = connector_ok_parts(1) [OF ok] and ft = connector_ok_parts(2) [OF ok] and dp = connector_ok_parts(4) [OF ok]
  have keep: "connector_ok (hs_parse_rfc3339 (se_host env)) ((sy_con s)\<lparr>co_manager := m, co_table := t\<rparr>)"
    if "dp_inv (m, t)" for m t
    using that by (intro connector_ok_fields [OF ok]) (simp_all add: dp_inv_def)
  show "goes_well env (do_datagram env datagram src s)"
  proof (cases "tunnel_for_addr (co_manager (sy_con s)) src")
    case None
    then show ?thesis using assms by (simp add: do_datagram_def)
  next
    case (Some tunnel)
    obtain event tunnel' where r: "receive_datagram (tl_decapsulate (hs_tunn (se_host env))) datagram tunnel = (event, tunnel')"
      by force
    have "tm_inv (put_tunnel tunnel' (co_manager (sy_con s)))"
      using tm put_tunnel_inv [of "co_manager (sy_con s)" tunnel'] tunnel_for_addr_Some [OF tm Some]
        tunnel_for_inv [of "co_manager (sy_con s)" "nt_node_id tunnel" tunnel]
        tunnel_steps_addr(1) [of "tl_decapsulate (hs_tunn (se_host env))" datagram tunnel] r by auto
    then have "connector_ok (hs_parse_rfc3339 (se_host env))
        ((sy_con s)\<lparr>co_manager := put_tunnel tunnel' (co_manager (sy_con s))\<rparr>)"
      using ft by (intro connector_ok_fields [OF ok]) simp_all
    then show ?thesis by (simp add: do_datagram_def Some r sys_ok_def Let_def split: tunnel_event.split)
  qed
  show "goes_well env (do_recovered s)" using assms by (simp add: do_recovered_def sys_ok_def split: list.split)
  show "goes_well env (do_gate env now s)"
  proof (cases "sy_gate s"; cases "sy_vip s")
    fix gate vip assume g: "sy_gate s = Some gate" "sy_vip s = Some vip"
    obtain n packet where gate: "gate = (n, packet)" by force
    obtain effects t where f: "forward_to_tun (hs_tunn (se_host env)) (V4 vip) (co_cache (sy_con s)) now n packet
        (co_table (sy_con s)) = Some (effects, t)" "ft_inv t"
      using forward_to_tun_total [of "hs_tunn (se_host env)" "V4 vip" "co_cache (sy_con s)" now n packet "co_table (sy_con s)"] ft
      by blast
    have "connector_ok (hs_parse_rfc3339 (se_host env)) ((sy_con s)\<lparr>co_table := t\<rparr>)"
      using tm f(2) by (intro connector_ok_fields [OF ok]) simp_all
    then show ?thesis by (simp add: do_gate_def g gate f(1) sys_ok_def)
  qed (simp_all add: do_gate_def)
  show "goes_well env (do_tun env packet s)"
    using tun_turn_total [OF dp, of "hs_tunn (se_host env)" packet] keep by (auto simp: do_tun_def sys_ok_def)
  show "goes_well env (do_timer env s)"
    using timer_turn_total [OF dp, of "hs_tunn (se_host env)"] keep by (auto simp: do_timer_def sys_ok_def)
qed

lemma sys_step_goes_well: "sys_ok env s \<Longrightarrow> goes_well env (sys_step env l s)"
  by (cases l) (simp_all add: beat_goes_well poller_goes_well loops_go_well)

lemma sys_run_ok: "sys_run guard env s shown s' \<Longrightarrow> sys_ok env s \<Longrightarrow> sys_ok env s'"
proof (induction rule: sys_run.induct)
  case (sys_run_step shown s' l obs s'')
  then show ?case using sys_step_goes_well [of env s' l] by simp
qed

text \<open>
  C17: whatever the network, the nodes and the packets bring and however the daemon's tasks
  interleave, no step panics, and tunnels, flow table, policy, cache, pollers and Agent list
  stay well formed: every index exact, every bound kept, every stored expiry parsable
\<close>

theorem daemon_never_panics:
  assumes "sys_run guard env (system_new from_slice queue_file) shown s"
  shows "sys_step env l s \<noteq> Panicked \<and> connector_ok (hs_parse_rfc3339 (se_host env)) (sy_con s)"
proof -
  have "sys_ok env s" by (rule sys_run_ok [OF assms sys_ok_new])
  then show ?thesis using sys_step_goes_well [of env s l] by (auto simp: sys_ok_def)
qed

section \<open>Examples\<close>

text \<open>The example host.\<close>

definition ex_sys_env :: "nat sys_env" where
  "ex_sys_env = \<lparr>se_host = ex_host, se_public_key = ''cpk'', se_crypto = nw_crypto ex_net\<rparr>"

definition ex_system :: "nat system" where
  "ex_system = system_new (\<lambda>_. None) FileMissing"

lemma ex_first_steps: "\<exists>shown s. sys_exec any_step ex_sys_env [LExchange ex_net ex_clock] ex_system = Some (shown, s)"
  by (simp add: do_exchange_def ex_system_def system_new_def Let_def split: prod.split sum.split)

lemma daemon_never_panics_witness:
  "\<exists>shown s. sys_exec any_step ex_sys_env [LExchange ex_net ex_clock] ex_system = Some (shown, s) \<and>
     sys_step ex_sys_env (LApplyPackage ex_clock) s \<noteq> Panicked"
proof -
  obtain shown s where e: "sys_exec any_step ex_sys_env [LExchange ex_net ex_clock] ex_system = Some (shown, s)"
    using ex_first_steps by blast
  from daemon_never_panics [OF sys_run_exec [OF e [unfolded ex_system_def]]] e show ?thesis by blast
qed

end
