(* ===== verification/System_Control.thy ===== *)
theory System_Control
  imports System
begin

text \<open>
  The daemon refines the control plane: every step of \<open>System\<close> is a sequence of steps of
  \<open>Control_Plane\<close>, where the tunnels, the DNS cache, the queue, the pollers and the audit log do not exist.
  What is proved of every run of the control plane holds of the daemon.
\<close>

section \<open>What the control plane sees of the daemon\<close>

definition recording :: "admission_task \<Rightarrow> cp_task option" where
  "recording task = (case wk_work task of
     RecordFlow request key rules \<Rightarrow> Some \<lparr>tk_request = request, tk_device = key, tk_rules = rules\<rparr>
   | _ \<Rightarrow> None)"

definition records :: "'t system \<Rightarrow> cp_task list" where
  "records s = List.map_filter recording (sy_work s)"

fun stage_of :: "beat \<Rightarrow> heartbeat_stage" where
  "stage_of (BeatApplied old_bundles response) = HbApplied old_bundles (hr_policy_bundles response)"
| "stage_of (BeatSynced old_bundles response _ _) = HbApplied old_bundles (hr_policy_bundles response)"
| "stage_of (BeatEvicted old_bundles response) = HbApplied old_bundles (hr_policy_bundles response)"
| "stage_of (BeatPolled old_bundles response) = HbApplied old_bundles (hr_policy_bundles response)"
| "stage_of (BeatReconciled response) = HbReconciled (hr_policy_bundles response)"
| "stage_of _ = HbIdle"

text \<open>The audit log is left out: entries are written in another order, and nothing reads them back.\<close>

definition matches :: "'t system \<Rightarrow> cp_machine \<Rightarrow> bool" where
  "matches s m \<longleftrightarrow> cm_store m = co_store (sy_con s) \<and> cm_table m = co_table (sy_con s) \<and>
     mset (cm_tasks m) = mset (records s) \<and> cm_stage m = stage_of (sy_beat s) \<and>
     (\<forall>old_bundles response. sy_beat s = BeatAnswered old_bundles response \<longrightarrow>
        old_bundles = map_option ps_policy_bundles (co_store (sy_con s)))"

lemma matches_new: "matches (system_new from_slice queue_file) cp_init"
  by (simp add: matches_def system_new_def cp_init_def records_def map_filter_simps connector_new_def)

text \<open>A guard that restrains no step but the applying of a package.\<close>

definition apply_guard :: "(cp_label \<Rightarrow> cp_machine \<Rightarrow> bool) \<Rightarrow> bool" where
  "apply_guard g \<longleftrightarrow> (\<forall>l m. g l m \<or> (\<exists>response now. l = LApply response now))"

lemma apply_guard_simps [simp]: "apply_guard (\<lambda>_ _. True)" "apply_guard admissions_atomic"
  by (auto simp: apply_guard_def admissions_atomic_def split: cp_label.split)

lemma apply_guardD: "apply_guard g \<Longrightarrow> \<not> g l m \<Longrightarrow> \<exists>response now. l = LApply response now"
  by (auto simp: apply_guard_def)

section \<open>Runs of the control plane\<close>

lemma cp_run_append: "cp_run g env m' ls' m'' \<Longrightarrow> cp_run g env m ls m' \<Longrightarrow> cp_run g env m (ls @ ls') m''"
  by (induction rule: cp_run.induct) (auto simp: append_assoc [symmetric] intro: cp_run_step simp del: append_assoc)

lemma cp_run_one: "g l m \<Longrightarrow> cp_do env l m = Some m' \<Longrightarrow> cp_run g env m [l] m'"
  using cp_run_step [OF cp_run_nil] by fastforce

lemma cp_run_traffic:
  assumes "apply_guard g" "list_all is_traffic es"
  shows "cp_run g env m (map LTraffic es) (m\<lparr>cm_table := fold ft_step es (cm_table m)\<rparr>)"
  using assms(2)
proof (induction es arbitrary: m)
  case Nil
  then show ?case using cp_run_nil [of g env m] by simp
next
  case (Cons e es)
  have "cp_run g env m [LTraffic e] (m\<lparr>cm_table := ft_step e (cm_table m)\<rparr>)"
    using apply_guardD [OF assms(1), of "LTraffic e" m] Cons.prems by (intro cp_run_one) auto
  from cp_run_append [OF Cons.IH [of "m\<lparr>cm_table := ft_step e (cm_table m)\<rparr>"] this] Cons.prems
  show ?case by simp
qed

lemma forget_task_mset:
  assumes "i < length xs"
  shows "mset xs = add_mset (xs ! i) (mset (forget_task i xs))"
proof -
  have "xs = take i xs @ xs ! i # drop (Suc i) xs" using assms by (rule id_take_nth_drop)
  then have "mset xs = mset (take i xs @ xs ! i # drop (Suc i) xs)" by simp
  then show ?thesis by (simp add: forget_task_def)
qed

lemma mset_position:
  assumes "mset xs = add_mset x M"
  obtains i where "i < length xs" "xs ! i = x" "mset (forget_task i xs) = M"
proof -
  have "x \<in> set xs" using assms by (metis in_multiset_in_set union_single_eq_member)
  then obtain i where i: "i < length xs" "xs ! i = x" by (metis in_set_conv_nth)
  moreover have "mset (forget_task i xs) = M" using forget_task_mset [OF i(1)] assms i(2) by simp
  ultimately show thesis by (rule that)
qed

section \<open>The steps\<close>

definition implements ::
  "(cp_label \<Rightarrow> cp_machine \<Rightarrow> bool) \<Rightarrow> 't sys_env \<Rightarrow> cp_machine \<Rightarrow> 't system \<Rightarrow> bool" where
  "implements g env m s' \<longleftrightarrow> (\<exists>ls m'. cp_run g (control_env_of env) m ls m' \<and> matches s' m')"

lemma implements_stay: "matches s' m \<Longrightarrow> implements g env m s'"
  using cp_run_nil unfolding implements_def by blast

lemma implements_one:
  "\<not> (\<exists>response now. l = LApply response now) \<Longrightarrow> apply_guard g \<Longrightarrow> cp_do (control_env_of env) l m = Some m' \<Longrightarrow>
     matches s' m' \<Longrightarrow> implements g env m s'"
  using cp_run_one [of g l m] apply_guardD [of g l m] unfolding implements_def by blast

lemma implements_traffic:
  assumes "apply_guard g" "list_all is_traffic es" "matches s' (m\<lparr>cm_table := fold ft_step es (cm_table m)\<rparr>)"
  shows "implements g env m s'"
  using cp_run_traffic [OF assms(1,2)] assms(3) unfolding implements_def by blast

lemma connect_registered_event:
  "\<exists>es. list_all is_traffic es \<and> snd (connect_registered n connection t) = fold ft_step es t"
proof (cases connection)
  case NotBound
  then show ?thesis by (intro exI [of _ "[]"]) (simp add: connect_registered_def)
next
  case (ConnectFailed port)
  then show ?thesis by (intro exI [of _ "[EvOutboundPort n port]"]) (simp add: connect_registered_def is_traffic_def)
next
  case (Connected port)
  then show ?thesis by (intro exI [of _ "[EvOutboundPort n port]"]) (simp add: connect_registered_def is_traffic_def)
qed

text \<open>The gate's packet operations.\<close>

lemma prepare_decrypted_events:
  assumes "prepare_decrypted_packet dst packet n vip cache now t = Some (ok, q, t')"
  shows "\<exists>es. list_all is_traffic es \<and> t' = fold ft_step es t"
proof (cases "dst packet = Some vip")
  case True
  then have "t' = note_control_packet packet n t" using assms by (auto simp: prepare_decrypted_packet_def)
  moreover have "\<exists>es. list_all is_traffic es \<and> note_control_packet packet n t = fold ft_step es t"
  proof (cases "note_control_packet packet n t = t")
    case False
    then obtain sp where "note_control_packet packet n t = record_control_channel_port n sp t"
      by (auto simp: note_control_packet_def Let_def split: option.splits if_splits)
    then show ?thesis by (intro exI [of _ "[EvControlPort n sp]"]) (simp add: is_traffic_def)
  qed (intro exI [of _ "[]"], simp)
  ultimately show ?thesis by simp
next
  case False
  then show ?thesis
  proof (cases rule: prepare_decrypted_cases [where n = n and cache = cache and now = now and t = t])
    case unparsed
    then show ?thesis using assms by (intro exI [of _ "[]"]) simp
  next
    case (forward sp dp a change alloc t1 ok1 q1)
    then show ?thesis using assms by (intro exI [of _ "[EvForward n sp (packet_dialled packet dp) dp cache]"]) (simp add: is_traffic_def)
  next
    case (kept_back sp dp t1)
    let ?d = "packet_dialled packet dp"
    let ?f = "EvForward n sp ?d dp cache" and ?r = "EvIsRuleEnded n sp ?d now" and ?b = "EvBuffer n sp ?d packet now"
    have "t' = fold ft_step [?f] t \<or> t' = fold ft_step [?f, ?r] t \<or> t' = fold ft_step [?f, ?r, ?b] t"
      using kept_back(3,4) assms by auto
    moreover have "list_all is_traffic [?f]" "list_all is_traffic [?f, ?r]" "list_all is_traffic [?f, ?r, ?b]"
      by (simp_all add: is_traffic_def)
    ultimately show ?thesis by blast
  qed
qed

lemma forward_to_tun_events:
  assumes "forward_to_tun lib vip cache now n packet t = Some (effects, t')"
  shows "\<exists>es. list_all is_traffic es \<and> t' = fold ft_step es t"
  using assms prepare_decrypted_events [of "tl_dst_address lib" packet n vip cache now t]
  by (auto simp: forward_to_tun_def split: option.splits)

lemma tun_turn_table: "tun_turn lib packet (m, t) = Some (effects, m', t') \<Longrightarrow> t' = t"
  by (auto simp: tun_turn_def split: option.splits prod.splits)

text \<open>The recording tasks when one task moves on, leaves, or some are aborted.\<close>

definition opt_mset :: "'a option \<Rightarrow> 'a multiset" where
  "opt_mset x = (case x of None \<Rightarrow> {#} | Some a \<Rightarrow> {#a#})"

lemma opt_mset_simps [simp]: "opt_mset None = {#}" "opt_mset (Some a) = {#a#}"
  by (simp_all add: opt_mset_def)

lemma map_filter_append: "List.map_filter f (xs @ ys) = List.map_filter f xs @ List.map_filter f ys"
  by (simp add: List.map_filter_def)

lemma map_filter_one: "mset (List.map_filter f [x]) = opt_mset (f x)"
  by (simp add: map_filter_simps split: option.split)

lemma map_filter_middle:
  "mset (List.map_filter f (as @ [x] @ bs)) = opt_mset (f x) + mset (List.map_filter f (as @ bs))"
  by (simp only: map_filter_append mset_append map_filter_one add.left_commute)

lemma map_filter_forget:
  assumes "i < length xs"
  shows "mset (List.map_filter f xs) = opt_mset (f (xs ! i)) + mset (List.map_filter f (forget_task i xs))"
    "mset (List.map_filter f (xs[i := y])) = opt_mset (f y) + mset (List.map_filter f (forget_task i xs))"
proof -
  have "xs = take i xs @ [xs ! i] @ drop (Suc i) xs" "xs[i := y] = take i xs @ [y] @ drop (Suc i) xs"
    using assms by (simp_all add: id_take_nth_drop upd_conv_take_nth_drop)
  then show "mset (List.map_filter f xs) = opt_mset (f (xs ! i)) + mset (List.map_filter f (forget_task i xs))"
    "mset (List.map_filter f (xs[i := y])) = opt_mset (f y) + mset (List.map_filter f (forget_task i xs))"
    using map_filter_middle [of f "take i xs" _ "drop (Suc i) xs"] unfolding forget_task_def by metis+
qed

lemma control_env_of_sel [simp]:
  "ce_crypto (control_env_of env) = se_crypto env" "ce_parse_rfc3339 (control_env_of env) = hs_parse_rfc3339 (se_host env)"
  "ce_disk (control_env_of env) = hs_audit_disk (se_host env)"
  by (simp_all add: control_env_of_def)

lemma exchange_implements:
  assumes "do_exchange env net clock s = Went obs s'" "matches s m"
  shows "implements g env m s'"
proof -
  obtain r c where e: "exchange_heartbeat ((se_host env)\<lparr>hs_net := net\<rparr>) clock (se_public_key env) (sy_con s) = (r, c)"
    by force
  note f = exchange_frame [OF e]
  show ?thesis
    by (rule implements_stay)
      (use assms e f in \<open>auto simp: do_exchange_def matches_def records_def current_policy_def Let_def split: if_splits sum.splits\<close>)
qed

lemma apply_implements:
  assumes "do_apply env clock s = Went obs s'" "matches s m" "apply_guard g"
    and "\<And>response now. g (LApply response now) m"
  shows "implements g env m s'"
proof -
  obtain old_bundles response where b: "sy_beat s = BeatAnswered old_bundles response"
    using assms(1) by (cases "sy_beat s") (simp_all add: do_apply_def)
  have old: "old_bundles = map_option ps_policy_bundles (cm_store m)"
    using assms(2) b by (simp add: matches_def)
  obtain r c where a: "apply_package (se_host env) clock response (sy_con s) = (r, c)" by force
  note f = apply_package_frame [OF a]
  show ?thesis
  proof (cases r)
    case (Inl e)
    then have "co_store c = co_store (sy_con s)"
      using f(1) by (auto simp: apply_at_def split: option.splits if_splits)
    with Inl show ?thesis
      by (intro implements_stay) (use assms(1,2) b a f in \<open>auto simp: do_apply_def matches_def records_def\<close>)
  next
    case (Inr u)
    let ?m = "m\<lparr>cm_store := co_store c, cm_stage := HbApplied old_bundles (hr_policy_bundles response)\<rparr>"
    have "cp_do (control_env_of env) (LApply response (hc_apply clock)) m = Some ?m"
      using assms(2) b old f(1) Inr by (simp add: cp_apply_def matches_def current_policy_def Let_def)
    moreover have "matches s' ?m"
      using assms(1,2) b a f Inr by (auto simp: do_apply_def matches_def records_def)
    ultimately show ?thesis
      using cp_run_one [of g "LApply response (hc_apply clock)" m, OF assms(4)] unfolding implements_def by blast
  qed
qed

lemma sync_implements: "do_sync env s = Went obs s' \<Longrightarrow> matches s m \<Longrightarrow> implements g env m s'"
  by (rule implements_stay) (auto simp: do_sync_def matches_def records_def Let_def split: beat.splits prod.splits)

lemma evict_implements:
  assumes "do_evict s = Went obs s'" "matches s m" "apply_guard g"
  shows "implements g env m s'"
proof -
  obtain old_bundles response gone effects where b: "sy_beat s = BeatSynced old_bundles response gone effects"
    using assms(1) by (auto simp: do_evict_def split: beat.splits)
  have "fold evict_node gone t = fold ft_step (map EvEvictNode gone) t" for t by (induction gone arbitrary: t) simp_all
  then show ?thesis
    by (intro implements_traffic [where es = "map EvEvictNode gone", OF assms(3)])
      (use assms(1,2) b in \<open>auto simp: list_all_iff is_traffic_def do_evict_def matches_def records_def\<close>)
qed

lemma poll_sync_implements: "do_poll_sync s = Went obs s' \<Longrightarrow> matches s m \<Longrightarrow> implements g env m s'"
  by (rule implements_stay) (auto simp: do_poll_sync_def matches_def records_def Let_def split: beat.splits)

lemma reconcile_implements:
  assumes "do_reconcile env next_id clock s = Went obs s'" "matches s m" "apply_guard g"
  shows "implements g env m s'"
proof -
  obtain old_bundles response where b: "sy_beat s = BeatPolled old_bundles response"
    using assms(1) by (auto simp: do_reconcile_def split: beat.splits)
  let ?new = "hr_policy_bundles response"
  let ?m = "m\<lparr>cm_table := co_table (sy_con s'), cm_stage := HbReconciled ?new\<rparr>"
  have "cp_do (control_env_of env) (LReconcile next_id (hc_ended_ms clock)) m = Some ?m"
    using assms(1,2) b
    by (auto simp: do_reconcile_def matches_def cp_reconcile_def end_dropped_table reconcile_is_events split: option.split)
  moreover have "matches s' ?m"
    using assms(1,2) b by (auto simp: do_reconcile_def matches_def records_def)
  ultimately show ?thesis by (intro implements_one [OF _ assms(3), of "LReconcile next_id (hc_ended_ms clock)"]) simp_all
qed

lemma rules_implements:
  assumes "do_rules env clock s = Went obs s'" "matches s m" "apply_guard g"
  shows "implements g env m s'"
proof -
  obtain response where b: "sy_beat s = BeatReconciled response"
    using assms(1) by (auto simp: do_rules_def split: beat.splits)
  let ?m = "m\<lparr>cm_table := co_table (sy_con s'), cm_stage := HbIdle\<rparr>"
  have "cp_do (control_env_of env) (LRules (hc_now clock)) m = Some ?m"
    using assms(1,2) b by (auto simp: do_rules_def matches_def cp_rules_def rules_are_events)
  moreover have "matches s' ?m"
    using assms(1,2) b by (auto simp: do_rules_def matches_def records_def)
  ultimately show ?thesis by (intro implements_one [OF _ assms(3), of "LRules (hc_now clock)"]) simp_all
qed

lemma refresh_implements: "do_refresh lookup s = Went obs s' \<Longrightarrow> matches s m \<Longrightarrow> implements g env m s'"
  by (rule implements_stay) (auto simp: do_refresh_def matches_def records_def Let_def split: beat.splits)

lemma poll_connect_implements:
  assumes "do_poll_connect n connection s = Went obs s'" "matches s m" "apply_guard g"
  shows "implements g env m s'"
proof -
  obtain es where e: "list_all is_traffic es"
    "snd (connect_registered n connection (co_table (sy_con s))) = fold ft_step es (co_table (sy_con s))"
    using connect_registered_event by blast
  have "matches s' (m\<lparr>cm_table := fold ft_step es (cm_table m)\<rparr>)"
    using assms(1,2) e(2) by (auto simp: do_poll_connect_def matches_def records_def split: if_splits)
  then show ?thesis by (rule implements_traffic [OF assms(3) e(1)])
qed

lemma new_work_records_nothing:
  "work_of message = Some work \<Longrightarrow> recording \<lparr>wk_node = n, wk_poller = poller, wk_work = work\<rparr> = None"
  by (auto simp: work_of_def recording_def split: if_splits)

lemma dispatch_implements:
  assumes "dispatch_to env mo n poller message s = Went obs s'" "matches s m" "apply_guard g"
  shows "implements g env m s'"
proof (cases "\<exists>request. pm_kind message = ''release'' \<and> pm_release message = Some request")
  case True
  then obtain request where r: "pm_kind message = ''release''" "pm_release message = Some request" by blast
  let ?m = "m\<lparr>cm_table := release (rl_flow_id request) (mo_now mo) (cm_table m),
             cm_log := handle_flow_release (ce_disk (control_env_of env)) request (cm_log m)\<rparr>"
  have "cp_do (control_env_of env) (LRelease request (mo_now mo)) m = Some ?m" by simp
  moreover have "matches s' ?m"
    using assms(1,2) r
    by (auto simp: dispatch_to_def matches_def records_def with_plane_def plane_of_def handle_release_def split: option.splits)
  ultimately show ?thesis by (intro implements_one [OF _ assms(3), of "LRelease request (mo_now mo)"]) simp_all
next
  case False
  have "handle_release (control_env_of env) mo (pm_release message) (plane_of s) = plane_of s" if "pm_kind message = ''release''"
    using that False by (auto simp: handle_release_def split: option.split)
  moreover have "with_plane (plane_of s) s = s" by (simp add: with_plane_def plane_of_def)
  ultimately have "s' = s \<or> (\<exists>work. work_of message = Some work \<and>
      s' = s\<lparr>sy_work := sy_work s @ [\<lparr>wk_node = n, wk_poller = poller, wk_work = work\<rparr>]\<rparr>)"
    using assms(1) by (auto simp: dispatch_to_def split: option.splits if_splits)
  then have "matches s' m"
    using assms(2) new_work_records_nothing
    by (auto simp: matches_def records_def map_filter_append map_filter_simps)
  then show ?thesis by (rule implements_stay)
qed

lemma message_implements:
  "do_message env mo n message s = Went obs s' \<Longrightarrow> matches s m \<Longrightarrow> apply_guard g \<Longrightarrow> implements g env m s'"
  "do_late_message env mo k message s = Went obs s' \<Longrightarrow> matches s m \<Longrightarrow> apply_guard g \<Longrightarrow> implements g env m s'"
  using dispatch_implements by (auto simp: do_message_def do_late_message_def split: option.splits if_splits)

lemma drop_poller_implements: "do_drop_poller k s = Went obs s' \<Longrightarrow> matches s m \<Longrightarrow> implements g env m s'"
  by (rule implements_stay) (auto simp: do_drop_poller_def matches_def records_def split: if_splits)

text \<open>A dropped task leaves; if it had a recording to make, the control plane aborts it.\<close>

lemma drop_work_implements:
  assumes "do_drop_work i s = Went obs s'" "matches s m" "apply_guard g"
  shows "implements g env m s'"
proof -
  have i: "i < length (sy_work s)" and s': "s' = s\<lparr>sy_work := forget_task i (sy_work s)\<rparr>"
    using assms(1) by (auto simp: do_drop_work_def split: if_splits)
  have m: "mset (cm_tasks m) = opt_mset (recording (sy_work s ! i)) + mset (records s')"
    using assms(2) map_filter_forget(1) [OF i, of recording] by (simp add: matches_def records_def s')
  have kept: "matches s' (m\<lparr>cm_tasks := tasks\<rparr>)" if "mset tasks = mset (records s')" for tasks
    using that assms(2) by (simp add: matches_def s')
  show ?thesis
  proof (cases "recording (sy_work s ! i)")
    case None
    then show ?thesis using kept [of "cm_tasks m"] m by (intro implements_stay) simp
  next
    case (Some task)
    with m have "mset (cm_tasks m) = add_mset task (mset (records s'))" by simp
    then obtain j where j: "j < length (cm_tasks m)" "mset (forget_task j (cm_tasks m)) = mset (records s')"
      by (rule mset_position)
    show ?thesis using j kept by (intro implements_one [OF _ assms(3), of "LAbort j"]) simp_all
  qed
qed

text \<open>A task's pieces: the decision and the recording are the control plane's, the rest is traffic.\<close>

lemma records_moved:
  assumes "i < length (sy_work s)" "mset (cm_tasks m) = mset (records s)"
  shows "mset (cm_tasks m) = opt_mset (recording (sy_work s ! i)) + mset (List.map_filter recording (forget_task i (sy_work s)))"
  using assms map_filter_forget(1) [of i "sy_work s" recording] by (simp add: records_def)

lemma matches_moved:
  assumes "matches s m" "i < length (sy_work s)"
    and "cm_store m' = cm_store m" "cm_stage m' = cm_stage m" "cm_table m' = cp_table p"
    and "mset (cm_tasks m') = opt_mset (Option.bind left (\<lambda>work. recording ((sy_work s ! i)\<lparr>wk_work := work\<rparr>))) +
           mset (List.map_filter recording (forget_task i (sy_work s)))"
  shows "matches ((with_plane p s)\<lparr>sy_work := (case left of
      Some work \<Rightarrow> (sy_work s)[i := (sy_work s ! i)\<lparr>wk_work := work\<rparr>] | None \<Rightarrow> forget_task i (sy_work s))\<rparr>) m'"
proof -
  have "mset (cm_tasks m') = mset (List.map_filter recording (case left of
      Some work \<Rightarrow> (sy_work s)[i := (sy_work s ! i)\<lparr>wk_work := work\<rparr>] | None \<Rightarrow> forget_task i (sy_work s)))"
    using assms(6) map_filter_forget(2) [OF assms(2), of recording] by (simp split: option.split)
  then show ?thesis using assms(1,3-5) by (simp add: matches_def records_def with_plane_def)
qed

lemma recording_simps:
  "wk_work task = RecordFlow request key rules \<Longrightarrow>
     recording task = Some \<lparr>tk_request = request, tk_device = key, tk_rules = rules\<rparr>"
  "wk_work task = DecideFlow request \<Longrightarrow> recording task = None"
  "wk_work task = ReclaimPacket request response \<Longrightarrow> recording task = None"
  "wk_work task = DecideDns query \<Longrightarrow> recording task = None"
  "wk_work task = PostResult body \<Longrightarrow> recording task = None"
  by (simp_all add: recording_def)

lemma decide_on_any_log:
  assumes "authenticate_and_decide env store g upk sig sd now log = Some (outcome, log1)"
  obtains log2 where "authenticate_and_decide env store g upk sig sd now log' = Some (outcome, log2)"
proof -
  have "map_option fst (authenticate_and_decide env store g upk sig sd now log') = Some outcome"
    using authenticate_disk [of env store g upk sig sd now log' "ce_disk env" log] assms by simp
  then show thesis using that by auto
qed

lemma work_implements:
  assumes "do_work env mo i s = Went obs s'" "matches s m" "apply_guard g"
  shows "implements g env m s'"
proof -
  let ?task = "sy_work s ! i" and ?env = "control_env_of env"
  have i: "i < length (sy_work s)" using assms(1) by (auto simp: do_work_def split: if_splits)
  obtain posts left p where w: "work_step ?env mo (wk_node ?task) (pt_connector_id (wk_poller ?task)) (wk_work ?task)
      (plane_of s) = Some (posts, left, p)"
    and s': "s' = (with_plane p s)\<lparr>sy_work := (case left of
      Some work \<Rightarrow> (sy_work s)[i := ?task\<lparr>wk_work := work\<rparr>] | None \<Rightarrow> forget_task i (sy_work s))\<rparr>"
    using assms(1) i by (auto simp: do_work_def Let_def split: option.splits)
  have plane: "cp_store (plane_of s) = cm_store m" "cp_table (plane_of s) = cm_table m"
    using assms(2) by (simp_all add: plane_of_def matches_def)
  have "mset (cm_tasks m) = mset (records s)" using assms(2) by (simp add: matches_def)
  note tasks = records_moved [OF i this]
  let ?kept = "mset (List.map_filter recording (forget_task i (sy_work s)))"
  note moved = matches_moved [OF assms(2) i, of _ p left, folded s']
  show ?thesis
  proof (cases "wk_work ?task")
    case (DecideFlow request)
    obtain outcome log where d: "authenticate_and_decide ?env (cm_store m) (fa_gateway_id request) (fa_user_public_key request)
        (fa_signature request) (fa_signed_data request) (mo_utc mo) (co_log (sy_con s)) = Some (outcome, log)"
      and l: "cp_table p = cm_table m" "left = Some (case outcome of OutcomeAllowed key rules \<Rightarrow> RecordFlow request key rules
          | OutcomeRefused reason \<Rightarrow> ReclaimPacket request (refusal_reply request reason))"
      using w DecideFlow plane
      by (fastforce simp: work_step_def plane_of_def split: option.splits prod.splits admission_outcome.splits)
    from decide_on_any_log [OF d] obtain log' where d': "authenticate_and_decide ?env (cm_store m) (fa_gateway_id request)
        (fa_user_public_key request) (fa_signature request) (fa_signed_data request) (mo_utc mo) (cm_log m) = Some (outcome, log')" .
    let ?m = "m\<lparr>cm_log := log', cm_tasks := cm_tasks m @ (case outcome of
        OutcomeAllowed key rules \<Rightarrow> [\<lparr>tk_request = request, tk_device = key, tk_rules = rules\<rparr>] | _ \<Rightarrow> [])\<rparr>"
    have "cp_do ?env (LDecide request (mo_utc mo)) m = Some ?m"
      using d' by (simp add: cp_decide_def split: admission_outcome.split)
    moreover have "matches s' ?m"
      using l tasks DecideFlow by (intro moved) (auto simp: recording_def split: admission_outcome.split)
    ultimately show ?thesis by (intro implements_one [OF _ assms(3), of "LDecide request (mo_utc mo)"]) simp_all
  next
    case (RecordFlow request key rules)
    let ?rec = "\<lparr>tk_request = request, tk_device = key, tk_rules = rules\<rparr>"
    have "mset (cm_tasks m) = add_mset ?rec ?kept" using tasks RecordFlow by (simp add: recording_def)
    then obtain j where j: "j < length (cm_tasks m)" "cm_tasks m ! j = ?rec" "mset (forget_task j (cm_tasks m)) = ?kept"
      by (rule mset_position)
    have t: "cp_table p = snd (record_admission request (request_dialled request) key rules (mo_now mo) (cm_table m))"
      and l: "\<exists>response. left = Some (ReclaimPacket request response)"
      using w RecordFlow plane by (auto simp: work_step_def Let_def split_beta)
    obtain m' where m': "cp_do ?env (LRecord j (mo_now mo)) m = Some m'"
      using j(1) by (simp add: cp_record_def Let_def split_beta)
    note r = cp_record_Some [OF m' [unfolded cp_do.simps]]
    have "matches s' m'" using r j(2,3) t l by (intro moved) (auto simp: recording_def)
    with m' show ?thesis by (intro implements_one [OF _ assms(3), of "LRecord j (mo_now mo)"]) simp_all
  next
    case (ReclaimPacket request response)
    let ?take = "EvTake (wk_node ?task) (fa_port request) (request_dialled request) (mo_reclaim mo)"
    let ?es = "if fr_decision response = ''admit'' then [?take] else []"
    have "cp_table p = fold ft_step ?es (cm_table m)" "\<exists>body. left = Some (PostResult body)"
      using w ReclaimPacket plane by (auto simp: work_step_def reclaim_packet_def split: option.splits prod.splits)
    then show ?thesis
      using tasks ReclaimPacket
      by (intro implements_traffic [OF assms(3), of ?es] moved) (auto simp: is_traffic_def recording_def)
  next
    case (DecideDns query)
    have "cp_table p = cm_table m" "\<exists>body. left = Some (PostResult body)"
      using w DecideDns plane by (auto simp: work_step_def split: option.splits)
    then show ?thesis
      using tasks DecideDns by (intro implements_stay moved) (auto simp: recording_def)
  next
    case (PostResult body)
    obtain es where e: "list_all is_traffic es"
      "snd (connect_registered (wk_node ?task) (mo_connection mo) (cm_table m)) = fold ft_step es (cm_table m)"
      using connect_registered_event by blast
    have "cp_table p = fold ft_step es (cm_table m)" "left = None"
      using w PostResult plane e(2) by (auto simp: work_step_def post_result_def Let_def split_beta)
    then show ?thesis
      using tasks PostResult by (intro implements_traffic [OF assms(3) e(1)] moved) (auto simp: recording_def)
  qed
qed

lemma datagram_implements:
  assumes "do_datagram env datagram src s = Went obs s'" "matches s m"
  shows "implements g env m s'"
  by (rule implements_stay) (use assms in \<open>auto simp: do_datagram_def matches_def records_def Let_def split_beta
      split: if_splits option.splits tunnel_event.splits\<close>)

lemma recovered_implements: "do_recovered s = Went obs s' \<Longrightarrow> matches s m \<Longrightarrow> implements g env m s'"
  by (rule implements_stay) (auto simp: do_recovered_def matches_def records_def split: if_splits list.splits)

lemma gate_implements:
  assumes "do_gate env now s = Went obs s'" "matches s m" "apply_guard g"
  shows "implements g env m s'"
proof -
  obtain n packet vip effects table where f: "forward_to_tun (hs_tunn (se_host env)) (V4 vip) (co_cache (sy_con s)) now n packet
      (co_table (sy_con s)) = Some (effects, table)" "s' = s\<lparr>sy_con := (sy_con s)\<lparr>co_table := table\<rparr>, sy_gate := None\<rparr>"
    using assms(1) by (auto simp: do_gate_def split: option.splits)
  from forward_to_tun_events [OF f(1)] obtain es where e: "list_all is_traffic es" "table = fold ft_step es (co_table (sy_con s))"
    by blast
  have "matches s' (m\<lparr>cm_table := fold ft_step es (cm_table m)\<rparr>)"
    using assms(2) e(2) by (simp add: f(2) matches_def records_def)
  then show ?thesis by (rule implements_traffic [OF assms(3) e(1)])
qed

lemma tun_implements:
  assumes "do_tun env packet s = Went obs s'" "matches s m"
  shows "implements g env m s'"
proof -
  obtain effects manager table where f: "tun_turn (hs_tunn (se_host env)) packet (co_manager (sy_con s), co_table (sy_con s)) =
      Some (effects, manager, table)" "s' = s\<lparr>sy_con := (sy_con s)\<lparr>co_manager := manager, co_table := table\<rparr>\<rparr>"
    using assms(1) by (auto simp: do_tun_def split: if_splits option.splits)
  from tun_turn_table [OF f(1)] assms(2) show ?thesis
    by (intro implements_stay) (simp add: f(2) matches_def records_def)
qed

lemma timer_implements:
  assumes "do_timer env s = Went obs s'" "matches s m"
  shows "implements g env m s'"
  by (rule implements_stay) (use assms in \<open>auto simp: do_timer_def timer_turn_def matches_def records_def Let_def split_beta split: if_splits\<close>)

section \<open>Every run of the daemon is one of the control plane\<close>

text \<open>The guard of a run in which no package is applied while an admission is decided and not recorded.\<close>

definition sys_atomic :: "sys_label \<Rightarrow> 't system \<Rightarrow> bool" where
  "sys_atomic l s = (case l of LApplyPackage _ \<Rightarrow> records s = [] | _ \<Rightarrow> True)"

text \<open>A guard of the control plane that a guard of the daemon meets.\<close>

definition guards ::
  "(sys_label \<Rightarrow> 't system \<Rightarrow> bool) \<Rightarrow> (cp_label \<Rightarrow> cp_machine \<Rightarrow> bool) \<Rightarrow> bool" where
  "guards guard g \<longleftrightarrow> apply_guard g \<and> (\<forall>s m clock response now. guard (LApplyPackage clock) s \<longrightarrow> matches s m \<longrightarrow>
     g (LApply response now) m)"

lemma guards_any: "guards guard (\<lambda>_ _. True)"
  by (simp add: guards_def)

lemma guards_atomic: "guards sys_atomic admissions_atomic"
  by (auto simp: guards_def sys_atomic_def admissions_atomic_def matches_def)

lemma sys_step_implements:
  assumes "sys_step env l s = Went obs s'" "matches s m" "guards guard g" "guard l s"
  shows "implements g env m s'"
proof -
  have g: "apply_guard g" and a: "\<And>clock response now. l = LApplyPackage clock \<Longrightarrow> g (LApply response now) m"
    using assms(2-4) unfolding guards_def by blast+
  show ?thesis
    using assms(1,2) g a
    by (cases l) (simp_all add: exchange_implements apply_implements sync_implements evict_implements
        poll_sync_implements reconcile_implements rules_implements refresh_implements poll_connect_implements
        message_implements drop_poller_implements drop_work_implements work_implements datagram_implements recovered_implements gate_implements
        tun_implements timer_implements)
qed

lemma sys_run_implements:
  assumes "sys_run guard env s shown s'" "guards guard g" "matches s m"
  shows "\<exists>ls m'. cp_run g (control_env_of env) m ls m' \<and> matches s' m'"
  using assms
proof (induction rule: sys_run.induct)
  case sys_run_nil
  then show ?case using cp_run_nil by blast
next
  case (sys_run_step shown s' l obs s'')
  then obtain ls m' where r: "cp_run g (control_env_of env) m ls m'" "matches s' m'" by blast
  from sys_step_implements [OF sys_run_step.hyps(3) r(2) sys_run_step.prems(1) sys_run_step.hyps(2)]
  show ?case unfolding implements_def using cp_run_append [OF _ r(1)] by blast
qed

text \<open>
  C4: every run of the daemon is a run of the control plane, with the same policy, flow table,
  pending recordings and heartbeat stage; when no package is applied over a pending recording,
  it is one of the control plane's runs with the same restriction
\<close>

theorem daemon_refines_control_plane:
  assumes "sys_run guard env (system_new from_slice queue_file) shown s"
  shows "(\<exists>ls m. cp_run (\<lambda>_ _. True) (control_env_of env) cp_init ls m \<and> matches s m) \<and>
    (guard = sys_atomic \<longrightarrow> (\<exists>ls m. cp_run admissions_atomic (control_env_of env) cp_init ls m \<and> matches s m))"
  using sys_run_implements [OF assms guards_any matches_new] sys_run_implements [OF _ guards_atomic matches_new] assms
  by blast

section \<open>Examples\<close>

lemma ex_atomic_steps: "\<exists>shown s. sys_exec sys_atomic ex_sys_env [LExchange ex_net ex_clock] ex_system = Some (shown, s)"
  by (simp add: sys_atomic_def do_exchange_def ex_system_def system_new_def Let_def split: prod.split sum.split)

lemma daemon_refines_control_plane_witness:
  "\<exists>shown s m. sys_exec sys_atomic ex_sys_env [LExchange ex_net ex_clock] ex_system = Some (shown, s) \<and>
     (\<exists>ls. cp_run admissions_atomic (control_env_of ex_sys_env) cp_init ls m) \<and> cm_table m = co_table (sy_con s)"
proof -
  obtain shown s where e: "sys_exec sys_atomic ex_sys_env [LExchange ex_net ex_clock] ex_system = Some (shown, s)"
    using ex_atomic_steps by blast
  have "\<exists>ls m. cp_run admissions_atomic (control_env_of ex_sys_env) cp_init ls m \<and> matches s m"
    using daemon_refines_control_plane [OF sys_run_exec [OF e [unfolded ex_system_def]]] by blast
  then show ?thesis using e by (auto simp: matches_def)
qed

end
