(* ===== verification/Authorised_Traffic.thy ===== *)
theory Authorised_Traffic
  imports Control_Entitlement
begin

text \<open>
  Admission and forwarding together: what a packet the flow table forwards says of the policy in
  force, in any run of the control plane.
\<close>

section \<open>What a forwarded packet says of the admission table\<close>

text \<open>The port a packet leaves for: its own, unless the rule translates it.\<close>

definition leaves_for :: "u16 option \<Rightarrow> u16 \<Rightarrow> u16" where
  "leaves_for change dp = (case change of Some q \<Rightarrow> q | None \<Rightarrow> dp)"

lemma leaves_for_change [simp]: "leaves_for (destination_change ip dp) dp = ip"
  by (simp add: leaves_for_def destination_change_def)

lemma at_forward_rule:
  assumes "at_forward n p d dp cache a = Forward addr change None" "\<And>dl. d = Some dl \<Longrightarrow> dl_destination_port dl = dp"
  shows "\<exists>key x rule. at_flows a key = Some x \<and> fk_node_id key = n \<and> fk_port key = p \<and>
    rules_for (ad_rules x) (map_option dl_transport d) dp = [rule] \<and>
    dns_resolve cache (pr_internal_host rule) = Some addr \<and> leaves_for change dp = pr_internal_port rule"
proof -
  obtain key x where l: "at_lookup n p d a = Some (key, x)"
    using assms(1) by (auto simp: at_forward_def split: option.splits)
  note k = at_lookup_Some [OF l]
  then have np: "fk_node_id key = n" "fk_port key = p" by auto
  show ?thesis
  proof (cases "fk_dialled key")
    case (Some dl)
    then have d: "d = Some dl" using k by auto
    have "dl_destination_port dl = dp" by (rule assms(2) [OF d])
    moreover obtain ip where "resolve_rule (ad_rules x) (Some (dl_transport dl)) (dl_destination_port dl) cache = Inr (addr, ip)"
      "change = destination_change ip (dl_destination_port dl)"
      using assms(1) l Some by (auto simp: at_forward_def split: sum.splits)
    ultimately show ?thesis
      using k np d by (intro exI [of _ key] exI [of _ x]) (auto simp: resolve_rule_Inr)
  next
    case None
    then obtain ip where "resolve_rule (ad_rules x) (map_option dl_transport d) dp cache = Inr (addr, ip)"
      "ip = dp" "change = None"
      using assms(1) l by (auto simp: at_forward_def split: sum.splits if_splits)
    then show ?thesis
      using k np by (intro exI [of _ key] exI [of _ x]) (auto simp: resolve_rule_Inr leaves_for_def)
  qed
qed

lemma entitled_has_rules: "entitled_in bundles g dev \<Longrightarrow> \<exists>rules. rules_of bundles g = Some rules"
proof -
  assume "entitled_in bundles g dev"
  then obtain b where "find (\<lambda>b. pb_gateway_id b = g) bundles = Some b" by (auto simp: entitled_in_def)
  then have "b \<in> set bundles" "pb_gateway_id b = g" using find_Some_mem by fast+
  then have "find (\<lambda>b. pb_gateway_id b = g) (rev bundles) \<noteq> None" by (auto simp: find_None_iff)
  then show ?thesis by (auto simp: rules_of_def)
qed

text \<open>Every flow of a run: entitled by the policy in force, and under its rules.\<close>

lemma run_flow_authorised:
  assumes "cp_run admissions_atomic env cp_init ls s" "cm_stage s = HbIdle"
    and x: "at_flows (admissions (cm_table s)) key = Some x"
  shows "\<exists>state. cm_store s = Some state \<and>
    entitled_in (ps_policy_bundles state) (ad_gateway x) (ad_device x) \<and>
    rules_of (ps_policy_bundles state) (ad_gateway x) = Some (ad_rules x)"
proof -
  have ok: "cp_ok s" by (rule cp_ok_run [OF assms(1) cp_ok_init])
  have "flows_vouched cp_init"
    by (simp add: flows_vouched_def cp_init_def admissions_new no_admissions_def del: admissions_sel)
  then have "flows_vouched s" by (rule vouched_run [OF assms(1) cp_ok_init])
  then have "vouched s (ad_gateway x) (ad_device x)" using x unfolding flows_vouched_def by blast
  then obtain state where st: "cm_store s = Some state" "entitled_in (ps_policy_bundles state) (ad_gateway x) (ad_device x)"
    using assms(2) by (auto simp: vouched_def in_force_def entitled_in_def split: option.splits)
  obtain rules where r: "rules_of (ps_policy_bundles state) (ad_gateway x) = Some rules"
    using entitled_has_rules [OF st(2)] by blast
  have "at_rules (admissions (cm_table s)) (ad_gateway x) = Some rules"
    using ok assms(2) st(1) r by (simp add: cp_ok_def stage_ok_def)
  then have "ad_rules x = rules" using ok x unfolding cp_ok_def rules_follow_def by blast
  with st r show ?thesis by blast
qed

theorem forwarded_traffic_is_authorised:
  assumes "cp_run admissions_atomic env cp_init ls s" "cm_stage s = HbIdle"
    and "fst (forward n p d dp cache (cm_table s)) = Forward addr change sp"
    and "case d of Some dl \<Rightarrow> dl_destination_port dl = dp | None \<Rightarrow> True"
  shows "\<exists>state key flow rules rule. cm_store s = Some state \<and>
    hm_get (ft_flows (cm_table s)) key = Some flow \<and> fk_node_id key = n \<and> fk_port key = p \<and>
    entitled_in (ps_policy_bundles state) (af_gateway_id flow) (af_device_public_key flow) \<and>
    rules_of (ps_policy_bundles state) (af_gateway_id flow) = Some rules \<and>
    rules_for rules (map_option dl_transport d) dp = [rule] \<and>
    dns_resolve cache (pr_internal_host rule) = Some addr \<and> leaves_for change dp = pr_internal_port rule"
proof -
  have "at_forward n p d dp cache (admissions (cm_table s)) = Forward addr change None"
    using forward_decides [of n p d dp cache "cm_table s"] assms(3) by (simp add: verdict_def)
  from at_forward_rule [OF this] assms(4) obtain key x rule where
    x: "at_flows (admissions (cm_table s)) key = Some x" and k: "fk_node_id key = n" "fk_port key = p"
    and r: "rules_for (ad_rules x) (map_option dl_transport d) dp = [rule]"
      "dns_resolve cache (pr_internal_host rule) = Some addr" "leaves_for change dp = pr_internal_port rule" by (auto split: option.splits)
  obtain flow where f: "hm_get (ft_flows (cm_table s)) key = Some flow" "x = admission_of flow" using x by auto
  from run_flow_authorised [OF assms(1,2) x] obtain state where "cm_store s = Some state"
    "entitled_in (ps_policy_bundles state) (af_gateway_id flow) (af_device_public_key flow)"
    "rules_of (ps_policy_bundles state) (af_gateway_id flow) = Some (af_rules flow)"
    using f(2) by auto
  then show ?thesis
    using f k r by (intro exI [of _ state] exI [of _ key] exI [of _ flow] exI [of _ "af_rules flow"] exI [of _ rule]) simp
qed

lemma ex_table_exec:
  "map_option (\<lambda>s. (cm_stage s = HbIdle, hm_get (ft_flows (cm_table s)) (flow_key_new ''n-1'' 40100 (Some ex_dialled)),
       ft_by_allocation (cm_table s), ft_next_source_port (cm_table s), port_range (cm_table s)))
     (cp_exec admissions_atomic ex_env ex_admitted cp_init) =
   Some (True, Some (new_flow (Some ex_dialled) ''g-1'' ''f-1'' ''dev-1'' (bundle_rules ex_bundle)), [], [], (1024, 65535))"
  by code_simp

lemma ex_bundle_resolves:
  "resolve_rule (bundle_rules ex_bundle) (Some (dl_transport ex_dialled)) (dl_destination_port ex_dialled) dns_new =
     Inr (Ipv4 10 0 0 5, 443)"
  by code_simp

text \<open>The first packet of the example's flow, in whatever table it stands alone in.\<close>

lemma ex_forward_fresh:
  assumes "hm_get (ft_flows t) (flow_key_new ''n-1'' 40100 (Some ex_dialled)) =
      Some (new_flow (Some ex_dialled) ''g-1'' ''f-1'' ''dev-1'' (bundle_rules ex_bundle))"
    and "ft_by_allocation t = []" "ft_next_source_port t = []" "port_range t = (1024, 65535)"
  shows "fst (forward ''n-1'' 40100 (Some ex_dialled) 443 dns_new t) = Forward (Ipv4 10 0 0 5) None (Some 1024)"
proof -
  have f: "forward ''n-1'' 40100 (Some ex_dialled) 443 dns_new t =
      forward_with_identity (flow_key_new ''n-1'' 40100 (Some ex_dialled)) ex_dialled dns_new t"
    by (simp add: forward_eq hm_contains_def assms(1))
  show ?thesis
    unfolding f forward_with_identity_eq [OF assms(1)] new_flow_def
    using ex_bundle_resolves
    by (simp add: assms(2-4) without_allocation_def allocate_source_port_fresh destination_change_def)
      (simp add: ex_dialled_def)
qed

lemma ex_forwarded:
  "\<exists>s. cp_exec admissions_atomic ex_env ex_admitted cp_init = Some s \<and> cm_stage s = HbIdle \<and>
     fst (forward ''n-1'' 40100 (Some ex_dialled) 443 dns_new (cm_table s)) = Forward (Ipv4 10 0 0 5) None (Some 1024)"
  using ex_table_exec ex_forward_fresh by auto

lemma forwarded_traffic_is_authorised_witness:
  "\<exists>s state (flow :: admitted_flow). cp_exec admissions_atomic ex_env ex_admitted cp_init = Some s \<and> cm_store s = Some state \<and>
     entitled_in (ps_policy_bundles state) (af_gateway_id flow) (af_device_public_key flow)"
proof -
  obtain s where s: "cp_exec admissions_atomic ex_env ex_admitted cp_init = Some s" "cm_stage s = HbIdle"
    "fst (forward ''n-1'' 40100 (Some ex_dialled) 443 dns_new (cm_table s)) = Forward (Ipv4 10 0 0 5) None (Some 1024)"
    using ex_forwarded by blast
  have "case Some ex_dialled of Some dl \<Rightarrow> dl_destination_port dl = 443 | None \<Rightarrow> True"
    by (simp add: ex_dialled_def)
  from forwarded_traffic_is_authorised [OF cp_run_exec [OF s(1)] s(2,3) this] s(1) show ?thesis by blast
qed

end
