(* ===== verification/System_Traffic.thy ===== *)
theory System_Traffic
  imports System_Control Authorised_Traffic
begin

text \<open>
  From the wire to the TUN device: where a packet the daemon writes comes from, and what the policy in
  force says of it. \<open>System_Control\<close> gives the flows of the daemon's table the guarantees of the control
  plane; the rest is the way of the packet itself, through the gate, the buffer and the channel.
\<close>

section \<open>Where buffered packets come from\<close>

definition keeps_buffer :: "flow_table \<Rightarrow> flow_table \<Rightarrow> bool" where
  "keeps_buffer t t' \<longleftrightarrow> (\<forall>key v. hm_get (ft_pending t') key = Some v \<longrightarrow> hm_get (ft_pending t) key = Some v)"

lemma keeps_buffer_refl [simp]: "keeps_buffer t t"
  by (simp add: keeps_buffer_def)

lemma keeps_buffer_trans: "keeps_buffer t t' \<Longrightarrow> keeps_buffer t' t'' \<Longrightarrow> keeps_buffer t t''"
  by (simp add: keeps_buffer_def)

lemma fold_remember_pending [simp]: "ft_pending (fold (remember_rule_ended now) ks t) = ft_pending t"
  by (induction ks arbitrary: t) (simp_all add: remember_rule_ended_eq)

lemma check_rule_ended_pending [simp]: "ft_pending (snd (check_rule_ended now ks t)) = ft_pending t"
  by (induction ks arbitrary: t) (auto split: option.splits)

lemma forward_pending [simp]: "ft_pending (snd (forward n p d dp cache t)) = ft_pending t"
proof -
  have i: "ft_pending (snd (forward_with_identity key dl cache t)) = ft_pending t" for key dl
    by (auto simp: forward_with_identity_def Let_def split: option.split sum.split prod.split)
  have l: "ft_pending (snd (forward_legacy n p d dp cache t)) = ft_pending t"
    by (auto simp: forward_legacy_def Let_def split: option.split sum.split)
  show ?thesis unfolding forward_eq using i l by (auto split: option.split)
qed

lemma ft_step_pending:
  assumes "\<And>n p d packet now. e \<noteq> EvBuffer n p d packet now"
  shows "keeps_buffer t (ft_step e t)"
proof (cases e)
  case (EvBuffer n p d packet now)
  then show ?thesis using assms by blast
next
  case (EvTake n p d now)
  then show ?thesis by (auto simp: keeps_buffer_def take_pending_def hm_simps split: option.split prod.split if_splits)
qed (simp_all add: keeps_buffer_def evict_node_eq release_eq Let_def evict_gateway_device_def update_rules_tail refreshed_def
    retain_gateway_rules_def is_rule_ended_def
    record_control_channel_port_def record_outbound_control_channel_port_def split_beta split: option.split)

lemma events_pending:
  assumes "\<forall>e \<in> set es. \<forall>n p d packet now. e \<noteq> EvBuffer n p d packet now"
  shows "keeps_buffer t (fold ft_step es t)"
  using assms
proof (induction es arbitrary: t)
  case (Cons e es)
  have "keeps_buffer t (ft_step e t)" by (rule ft_step_pending) (use Cons.prems in auto)
  moreover have "keeps_buffer (ft_step e t) (fold ft_step es (ft_step e t))" using Cons by simp
  ultimately show ?case using keeps_buffer_trans by simp
qed simp

lemma buffer_pending_from:
  assumes "hm_ok (ft_pending t)" "hm_get (ft_pending (buffer_pending n p d packet now t)) key = Some v"
  shows "hm_get (ft_pending t) key = Some v \<or> fk_node_id key = n \<and> v = (packet, now)"
  using assms by (auto simp: buffer_pending_def Let_def hm_simps flow_key_new_def split: if_splits option.splits)

section \<open>Every packet before the gate was decrypted\<close>

definition provenance :: "observation set \<Rightarrow> 't system \<Rightarrow> bool" where
  "provenance seen s \<longleftrightarrow>
     (\<forall>n p. sy_gate s = Some (n, p) \<longrightarrow> Decrypted n p \<in> seen) \<and>
     (\<forall>n p. (n, p) \<in> set (sy_recovered s) \<longrightarrow> Decrypted n p \<in> seen) \<and>
     (\<forall>key p at. hm_get (ft_pending (co_table (sy_con s))) key = Some (p, at) \<longrightarrow> Decrypted (fk_node_id key) p \<in> seen) \<and>
     (\<forall>old_bundles response gone effects q. sy_beat s = BeatSynced old_bundles response gone effects \<longrightarrow>
        WriteTun q \<notin> set effects)"

lemma provenance_new: "provenance {} (system_new from_slice queue_file)"
  by (simp add: provenance_def system_new_def connector_new_def flow_table_new_def)

text \<open>A step that buffers nothing and puts nothing before the gate.\<close>

lemma provenance_kept:
  assumes "provenance seen s" "keeps_buffer (co_table (sy_con s)) (co_table (sy_con s'))"
    and "sy_gate s' = None \<or> sy_gate s' = sy_gate s" "set (sy_recovered s') \<subseteq> set (sy_recovered s)"
    and "sy_beat s' = sy_beat s \<or> (\<forall>old_bundles response gone effects. sy_beat s' \<noteq> BeatSynced old_bundles response gone effects)"
  shows "provenance (seen \<union> more_seen) s'"
proof -
  note p = assms(1) [unfolded provenance_def]
  have "\<forall>n p. sy_gate s' = Some (n, p) \<longrightarrow> Decrypted n p \<in> seen \<union> more_seen"
    using p assms(3) by auto
  moreover have "\<forall>n p. (n, p) \<in> set (sy_recovered s') \<longrightarrow> Decrypted n p \<in> seen \<union> more_seen"
    using p assms(4) by blast
  moreover have "\<forall>key p at. hm_get (ft_pending (co_table (sy_con s'))) key = Some (p, at) \<longrightarrow>
      Decrypted (fk_node_id key) p \<in> seen \<union> more_seen"
    using p assms(2) unfolding keeps_buffer_def by blast
  moreover have "\<forall>old_bundles response gone effects q. sy_beat s' = BeatSynced old_bundles response gone effects \<longrightarrow>
      WriteTun q \<notin> set effects"
    using p assms(5) by metis
  ultimately show ?thesis unfolding provenance_def by blast
qed

lemma dial_nodes_send: "WriteTun q \<notin> set (fst (dial_nodes lib nodes m))"
  by (induction nodes arbitrary: m) (simp_all add: Let_def split_beta split: option.split tunnel_event.split)

lemma beat_provenance:
  assumes "provenance seen s"
  shows "do_exchange env net clock s = Went obs s' \<Longrightarrow> provenance (seen \<union> set obs) s'"
    "do_apply env clock s = Went obs s' \<Longrightarrow> provenance (seen \<union> set obs) s'"
    "do_sync env s = Went obs s' \<Longrightarrow> provenance (seen \<union> set obs) s'"
    "do_evict s = Went obs s' \<Longrightarrow> provenance (seen \<union> set obs) s'"
    "do_poll_sync s = Went obs s' \<Longrightarrow> provenance (seen \<union> set obs) s'"
    "do_reconcile env next_id clock s = Went obs s' \<Longrightarrow> provenance (seen \<union> set obs) s'"
    "do_rules env clock s = Went obs s' \<Longrightarrow> provenance (seen \<union> set obs) s'"
    "do_refresh lookup s = Went obs s' \<Longrightarrow> provenance (seen \<union> set obs) s'"
proof -
  assume d: "do_exchange env net clock s = Went obs s'"
  obtain r c where e: "exchange_heartbeat ((se_host env)\<lparr>hs_net := net\<rparr>) clock (se_public_key env) (sy_con s) = (r, c)"
    by force
  show "provenance (seen \<union> set obs) s'"
    by (rule provenance_kept [OF assms])
      (use d e exchange_frame(4) [OF e] in \<open>auto simp: do_exchange_def Let_def split: if_splits sum.splits\<close>)
next
  assume d: "do_apply env clock s = Went obs s'"
  then obtain old_bundles response where b: "sy_beat s = BeatAnswered old_bundles response"
    by (cases "sy_beat s") (simp_all add: do_apply_def)
  obtain r c where a: "apply_package (se_host env) clock response (sy_con s) = (r, c)" by force
  show "provenance (seen \<union> set obs) s'"
    by (rule provenance_kept [OF assms])
      (use d b a apply_package_frame(3) [OF a] in \<open>auto simp: do_apply_def split: sum.splits\<close>)
next
  assume d: "do_sync env s = Went obs s'"
  then obtain old_bundles response where b: "sy_beat s = BeatApplied old_bundles response"
    by (cases "sy_beat s") (simp_all add: do_sync_def)
  show "provenance (seen \<union> set obs) s'"
    using assms d b by (auto simp: provenance_def do_sync_def dial_nodes_send Let_def split_beta)
next
  assume d: "do_evict s = Went obs s'"
  have e: "fold evict_node gone t = fold ft_step (map EvEvictNode gone) t" for gone t by (induction gone arbitrary: t) simp_all
  show "provenance (seen \<union> set obs) s'"
    by (rule provenance_kept [OF assms]) (use d in \<open>auto simp: do_evict_def e split: beat.splits intro!: events_pending\<close>)
next
  assume d: "do_poll_sync s = Went obs s'"
  show "provenance (seen \<union> set obs) s'"
    by (rule provenance_kept [OF assms]) (use d in \<open>auto simp: do_poll_sync_def Let_def split: beat.splits\<close>)
next
  assume d: "do_reconcile env next_id clock s = Went obs s'"
  show "provenance (seen \<union> set obs) s'"
    by (rule provenance_kept [OF assms]) (use d in \<open>auto simp: do_reconcile_def end_dropped_table reconcile_is_events
      reconcile_events_def split: beat.splits option.split intro!: events_pending\<close>)
next
  assume d: "do_rules env clock s = Went obs s'"
  have e: "keeps_buffer t (fold ft_step (rule_events bundles now) t)" for bundles now t
    by (rule events_pending) (auto simp: rule_events_def)
  show "provenance (seen \<union> set obs) s'"
    by (rule provenance_kept [OF assms]) (use d e in \<open>auto simp: do_rules_def split: beat.splits\<close>)
next
  assume d: "do_refresh lookup s = Went obs s'"
  show "provenance (seen \<union> set obs) s'"
    by (rule provenance_kept [OF assms]) (use d in \<open>auto simp: do_refresh_def Let_def split: beat.splits\<close>)
qed

lemma connect_registered_pending: "keeps_buffer t (snd (connect_registered n connection t))"
  by (simp add: keeps_buffer_def connect_registered_def record_outbound_control_channel_port_def split_beta split: connection.split)

lemma release_pending: "keeps_buffer t (release f now t)"
  using ft_step_pending [of "EvRelease f now" t] by simp

lemma record_admission_pending: "keeps_buffer t (snd (record_admission request d key rules now t))"
  using ft_step_pending [of "EvAdmit _ _ _ _ _ _ _" t] by (simp add: record_admission_table)

text \<open>A buffered packet is handed back under the node it was decrypted for.\<close>

lemma take_pending_from:
  assumes "take_pending n p d now t = (taken, t')"
  shows "keeps_buffer t t'" "taken = Some packet \<Longrightarrow> \<exists>key at. hm_get (ft_pending t) key = Some (packet, at) \<and> fk_node_id key = n"
proof -
  show "keeps_buffer t t'" using ft_step_pending [of "EvTake n p d now" t] assms by simp
  have k: "pending_key n p d t = Some key \<Longrightarrow> fk_node_id key = n" for key
    using find_Some_mem [of "\<lambda>key. fk_node_id key = n \<and> fk_port key = p" "hm_keys (ft_pending t)" key]
    by (auto simp: pending_key_def flow_key_new_def Let_def split: option.splits if_splits)
  show "taken = Some packet \<Longrightarrow> \<exists>key at. hm_get (ft_pending t) key = Some (packet, at) \<and> fk_node_id key = n"
    using assms k by (fastforce simp: take_pending_def split: option.splits prod.splits if_splits)
qed

lemma work_step_from:
  assumes "work_step env mo n c work p = Some (posts, left, p')"
  shows "keeps_buffer (cp_table p) (cp_table p')"
    "(m, packet) \<in> set (cp_recovered p') \<Longrightarrow> (m, packet) \<in> set (cp_recovered p) \<or>
       (\<exists>key at. hm_get (ft_pending (cp_table p)) key = Some (packet, at) \<and> fk_node_id key = m)"
proof -
  have "keeps_buffer (cp_table p) (cp_table p') \<and> ((m, packet) \<in> set (cp_recovered p') \<longrightarrow> (m, packet) \<in> set (cp_recovered p) \<or>
       (\<exists>key at. hm_get (ft_pending (cp_table p)) key = Some (packet, at) \<and> fk_node_id key = m))"
  proof (cases work)
    case (DecideFlow request)
    then show ?thesis using assms by (auto simp: work_step_def split: option.splits admission_outcome.splits)
  next
    case (RecordFlow request key rules)
    then show ?thesis using assms record_admission_pending by (auto simp: work_step_def Let_def split_beta)
  next
    case (ReclaimPacket request response)
    obtain taken t' where t: "take_pending n (fa_port request) (request_dialled request) (mo_reclaim mo) (cp_table p) = (taken, t')"
      by force
    show ?thesis
    proof (cases "fr_decision response = ''admit'' \<and> taken = Some packet \<and> m = n")
      case True
      then have "\<exists>key at. hm_get (ft_pending (cp_table p)) key = Some (packet, at) \<and> fk_node_id key = m"
        using take_pending_from(2) [OF t, of packet] by blast
      then show ?thesis
        using True ReclaimPacket assms t take_pending_from(1) [OF t]
        by (intro conjI impI disjI2) (auto simp: work_step_def reclaim_packet_def)
    next
      case False
      then show ?thesis
        using ReclaimPacket assms t take_pending_from(1) [OF t]
        by (auto simp: work_step_def reclaim_packet_def split: option.splits if_splits)
    qed
  next
    case (DecideDns query)
    then show ?thesis using assms by (auto simp: work_step_def split: option.splits)
  next
    case (PostResult body)
    then show ?thesis
      using assms connect_registered_pending by (auto simp: work_step_def post_result_def Let_def split_beta)
  qed
  then show "keeps_buffer (cp_table p) (cp_table p')"
    "(m, packet) \<in> set (cp_recovered p') \<Longrightarrow> (m, packet) \<in> set (cp_recovered p) \<or>
       (\<exists>key at. hm_get (ft_pending (cp_table p)) key = Some (packet, at) \<and> fk_node_id key = m)"
    by blast+
qed

lemma poller_provenance:
  assumes "provenance seen s"
  shows "do_poll_connect n connection s = Went obs s' \<Longrightarrow> provenance (seen \<union> set obs) s'"
    "do_message env mo n message s = Went obs s' \<Longrightarrow> provenance (seen \<union> set obs) s'"
    "do_late_message env mo k message s = Went obs s' \<Longrightarrow> provenance (seen \<union> set obs) s'"
    "do_drop_poller k s = Went obs s' \<Longrightarrow> provenance (seen \<union> set obs) s'"
    "do_drop_work i s = Went obs s' \<Longrightarrow> provenance (seen \<union> set obs) s'"
    "do_work env mo i s = Went obs s' \<Longrightarrow> provenance (seen \<union> set obs) s'"
proof -
  assume d: "do_poll_connect n connection s = Went obs s'"
  show "provenance (seen \<union> set obs) s'"
    by (rule provenance_kept [OF assms])
      (use d in \<open>auto simp: do_poll_connect_def connect_registered_pending split: if_splits\<close>)
next
  have dispatch: "provenance (seen \<union> set obs) s'" if "dispatch_to env mo n poller message s = Went obs s'" for n poller
    by (rule provenance_kept [OF assms])
      (use that in \<open>auto simp: dispatch_to_def with_plane_def plane_of_def handle_release_def release_pending
        split: option.splits if_splits\<close>)
  show "do_message env mo n message s = Went obs s' \<Longrightarrow> provenance (seen \<union> set obs) s'"
    "do_late_message env mo k message s = Went obs s' \<Longrightarrow> provenance (seen \<union> set obs) s'"
    using dispatch by (auto simp: do_message_def do_late_message_def split: option.splits if_splits)
  show "do_drop_poller k s = Went obs s' \<Longrightarrow> provenance (seen \<union> set obs) s'"
    "do_drop_work i s = Went obs s' \<Longrightarrow> provenance (seen \<union> set obs) s'"
    using assms by (auto simp: provenance_def do_drop_poller_def do_drop_work_def split: if_splits)
next
  assume d: "do_work env mo i s = Went obs s'"
  then have i: "i < length (sy_work s)" by (auto simp: do_work_def split: if_splits)
  obtain posts left p where w: "work_step (control_env_of env) mo (wk_node (sy_work s ! i))
      (pt_connector_id (wk_poller (sy_work s ! i))) (wk_work (sy_work s ! i)) (plane_of s) = Some (posts, left, p)"
    and s': "co_table (sy_con s') = cp_table p" "sy_recovered s' = cp_recovered p" "sy_gate s' = sy_gate s" "sy_beat s' = sy_beat s"
    using d i by (auto simp: do_work_def Let_def with_plane_def split: option.splits)
  note origin = work_step_from [OF w]
  have "Decrypted m packet \<in> seen" if "(m, packet) \<in> set (sy_recovered s')" for m packet
  proof -
    have "cp_recovered (plane_of s) = sy_recovered s" "cp_table (plane_of s) = co_table (sy_con s)"
      by (simp_all add: plane_of_def)
    with origin(2) that s'(2) have "(m, packet) \<in> set (sy_recovered s) \<or>
        (\<exists>key at. hm_get (ft_pending (co_table (sy_con s))) key = Some (packet, at) \<and> fk_node_id key = m)" by metis
    then show ?thesis using assms unfolding provenance_def by blast
  qed
  moreover have "keeps_buffer (co_table (sy_con s)) (co_table (sy_con s'))"
    using origin(1) s'(1) by (simp add: plane_of_def)
  ultimately show "provenance (seen \<union> set obs) s'"
    using assms s'(3,4) unfolding provenance_def keeps_buffer_def by simp
qed

section \<open>The packet loops\<close>

lemma forward_to_tun_pending:
  assumes "forward_to_tun lib vip cache now n packet t = Some (effects, t')" "ft_inv t"
    and "hm_get (ft_pending t') key = Some (p, at)"
  shows "hm_get (ft_pending t) key = Some (p, at) \<or> fk_node_id key = n \<and> p = packet"
proof -
  obtain ok q where d: "prepare_decrypted_packet (tl_dst_address lib) packet n vip cache now t = Some (ok, q, t')"
    using assms(1) by (auto simp: forward_to_tun_def split: option.splits)
  show ?thesis
  proof (cases "tl_dst_address lib packet = Some vip")
    case True
    then have "t' = note_control_packet packet n t" using d by (auto simp: prepare_decrypted_packet_def)
    then show ?thesis
      using assms(3) by (auto simp: note_control_packet_def record_control_channel_port_def Let_def split_beta split: option.splits if_splits)
  next
    case False
    then show ?thesis
    proof (cases rule: prepare_decrypted_cases [where n = n and cache = cache and now = now and t = t])
      case unparsed
      then show ?thesis using d assms(3) by simp
    next
      case (forward sp dp a change alloc t1 ok1 q1)
      then have "t' = t1" "ft_pending t1 = ft_pending t"
        using d forward_pending [of n sp "packet_dialled packet dp" dp cache t] by simp_all
      then show ?thesis using assms(3) by simp
    next
      case (kept_back sp dp t1)
      have i: "hm_ok (ft_pending t)" using assms(2) by (simp add: ft_inv_def pending_ok_def)
      have r: "ft_pending (snd (is_rule_ended n sp d now t0)) = ft_pending t0" for d t0 by (simp add: is_rule_ended_def split_beta split: option.split)
      show ?thesis
        using kept_back(3,4) d assms(3) i buffer_pending_from
        by (auto simp: r dest!: buffer_pending_from [rotated])
    qed
  qed
qed

lemma loop_provenance:
  assumes "provenance seen s" "ft_inv (co_table (sy_con s))"
  shows "do_datagram env datagram src s = Went obs s' \<Longrightarrow> provenance (seen \<union> set obs) s'"
    "do_recovered s = Went obs s' \<Longrightarrow> provenance (seen \<union> set obs) s'"
    "do_gate env now s = Went obs s' \<Longrightarrow> provenance (seen \<union> set obs) s'"
    "do_tun env packet s = Went obs s' \<Longrightarrow> provenance (seen \<union> set obs) s'"
    "do_timer env s = Went obs s' \<Longrightarrow> provenance (seen \<union> set obs) s'"
proof -
  assume d: "do_datagram env datagram src s = Went obs s'"
  have "co_table (sy_con s') = co_table (sy_con s)" "sy_recovered s' = sy_recovered s" "sy_beat s' = sy_beat s"
    "sy_gate s' = sy_gate s \<or> (\<exists>n p. sy_gate s' = Some (n, p) \<and> Decrypted n p \<in> set obs)"
    using d by (auto simp: do_datagram_def Let_def split_beta split: if_splits option.splits tunnel_event.splits)
  then show "provenance (seen \<union> set obs) s'" using assms(1) unfolding provenance_def by auto
next
  assume d: "do_recovered s = Went obs s'"
  then obtain n p rest where r: "sy_recovered s = (n, p) # rest" "s' = s\<lparr>sy_gate := Some (n, p), sy_recovered := rest\<rparr>"
    by (auto simp: do_recovered_def split: if_splits list.splits)
  then show "provenance (seen \<union> set obs) s'" using assms(1) by (auto simp: provenance_def)
next
  assume d: "do_gate env now s = Went obs s'"
  then obtain n packet vip effects table where g: "sy_gate s = Some (n, packet)"
    "forward_to_tun (hs_tunn (se_host env)) (V4 vip) (co_cache (sy_con s)) now n packet (co_table (sy_con s)) = Some (effects, table)"
    "s' = s\<lparr>sy_con := (sy_con s)\<lparr>co_table := table\<rparr>, sy_gate := None\<rparr>"
    by (auto simp: do_gate_def split: option.splits)
  have "Decrypted (fk_node_id key) p \<in> seen" if "hm_get (ft_pending table) key = Some (p, at)" for key p at
    using forward_to_tun_pending [OF g(2) assms(2) that] g(1) assms(1) unfolding provenance_def by blast
  then show "provenance (seen \<union> set obs) s'" using assms(1) g(3) by (simp add: provenance_def)
next
  assume d: "do_tun env packet s = Went obs s'"
  then obtain effects manager table where t: "tun_turn (hs_tunn (se_host env)) packet (co_manager (sy_con s), co_table (sy_con s)) =
      Some (effects, manager, table)" "s' = s\<lparr>sy_con := (sy_con s)\<lparr>co_manager := manager, co_table := table\<rparr>\<rparr>"
    by (auto simp: do_tun_def split: if_splits option.splits)
  show "provenance (seen \<union> set obs) s'"
    by (rule provenance_kept [OF assms(1)]) (use tun_turn_table [OF t(1)] t(2) in simp_all)
next
  assume d: "do_timer env s = Went obs s'"
  show "provenance (seen \<union> set obs) s'"
    by (rule provenance_kept [OF assms(1)])
      (use d in \<open>auto simp: do_timer_def timer_turn_def Let_def split_beta split: if_splits\<close>)
qed

lemma sys_step_provenance:
  assumes "sys_step env l s = Went obs s'" "provenance seen s" "sys_ok env s"
  shows "provenance (seen \<union> set obs) s'"
  using assms(1) beat_provenance [OF assms(2)] poller_provenance [OF assms(2)]
    loop_provenance [OF assms(2) connector_ok_parts(2) [OF assms(3) [unfolded sys_ok_def]]]
  by (cases l) simp_all

lemma sys_run_provenance:
  assumes "sys_run guard env (system_new from_slice queue_file) shown s"
  shows "provenance (set shown) s"
  using assms
proof (induction rule: sys_run.induct)
  case sys_run_nil
  show ?case using provenance_new by simp
next
  case (sys_run_step shown s' l obs s'')
  have "sys_ok env s'" by (rule sys_run_ok [OF sys_run_step.hyps(1) sys_ok_new])
  from sys_step_provenance [OF sys_run_step.hyps(3) sys_run_step.IH this] show ?case by simp
qed

section \<open>What is written to the TUN device\<close>

text \<open>Only the gate writes.\<close>

lemma tun_turn_sends: "tun_turn lib packet s = Some (effects, s') \<Longrightarrow> WriteTun q \<notin> set effects"
  by (auto simp: tun_turn_def Let_def split_beta split: prod.splits option.splits tunnel_event.splits)

lemma only_the_gate_writes:
  assumes "sys_step env l s = Went obs s'" "Emitted (WriteTun q) \<in> set obs" "provenance seen s"
  obtains now where "l = LGate now"
proof (cases l)
  case (LExchange net clock)
  then show ?thesis using assms by (auto simp: do_exchange_def Let_def split: if_splits prod.splits sum.splits)
next
  case (LApplyPackage clock)
  then show ?thesis using assms by (auto simp: do_apply_def split: beat.splits prod.splits sum.splits)
next
  case LSync
  then show ?thesis using assms by (auto simp: do_sync_def Let_def split: beat.splits prod.splits)
next
  case LEvict
  then show ?thesis using assms by (auto simp: do_evict_def provenance_def split: beat.splits)
next
  case LPollSync
  then show ?thesis using assms by (auto simp: do_poll_sync_def Let_def split: beat.splits)
next
  case (LEndDropped next_id clock)
  then show ?thesis using assms by (auto simp: do_reconcile_def split: beat.splits)
next
  case (LEndUnserved clock)
  then show ?thesis using assms by (auto simp: do_rules_def split: beat.splits)
next
  case (LRefresh lookup)
  then show ?thesis using assms by (auto simp: do_refresh_def Let_def split: beat.splits)
next
  case (LPollConnect n connection)
  then show ?thesis using assms by (auto simp: do_poll_connect_def split: if_splits)
next
  case (LMessage mo n message)
  then show ?thesis using assms by (auto simp: do_message_def dispatch_to_def split: option.splits if_splits)
next
  case (LLateMessage mo k message)
  then show ?thesis using assms by (auto simp: do_late_message_def dispatch_to_def split: if_splits)
next
  case (LDropPoller k)
  then show ?thesis using assms by (auto simp: do_drop_poller_def split: if_splits)
next
  case (LDropWork i)
  then show ?thesis using assms by (auto simp: do_drop_work_def split: if_splits)
next
  case (LWork mo i)
  then show ?thesis using assms by (auto simp: do_work_def Let_def split: option.splits if_splits)
next
  case (LDatagram datagram src)
  then show ?thesis
    using assms by (auto simp: do_datagram_def Let_def split_beta split: if_splits option.splits tunnel_event.splits)
next
  case LRecovered
  then show ?thesis using assms by (auto simp: do_recovered_def split: if_splits list.splits)
next
  case (LGate now)
  then show ?thesis by (rule that)
next
  case (LTun packet)
  then show ?thesis using assms tun_turn_sends by (fastforce simp: do_tun_def split: if_splits option.splits)
next
  case LTimer
  then show ?thesis using assms by (auto simp: do_timer_def timer_turn_def Let_def split_beta split: if_splits)
qed

text \<open>What the gate writes, and the decision it wrote it by.\<close>

lemma gate_writes:
  assumes "do_gate env now s = Went obs s'" "Emitted (WriteTun q) \<in> set obs"
  obtains n p vip where "sy_gate s = Some (n, p)" "sy_vip s = Some vip"
    "tl_dst_address (hs_tunn (se_host env)) p = Some (V4 vip)" "q = p"
  | n p vip sp dp a change alloc where "sy_gate s = Some (n, p)" "sy_vip s = Some vip"
    "parse_source_port p = Some sp" "parse_destination_port p = Some dp"
    "fst (forward n sp (packet_dialled p dp) dp (co_cache (sy_con s)) (co_table (sy_con s))) = Forward a change alloc"
    "reads_as q p (parse_source_ipv4 p) (Some a) (if alloc = None then Some sp else alloc) (Some (leaves_for change dp))"
proof -
  obtain n p vip effects table where g: "sy_gate s = Some (n, p)" "sy_vip s = Some vip"
    "forward_to_tun (hs_tunn (se_host env)) (V4 vip) (co_cache (sy_con s)) now n p (co_table (sy_con s)) = Some (effects, table)"
    "obs = map Emitted effects"
    using assms(1) by (auto simp: do_gate_def split: option.splits)
  have d: "prepare_decrypted_packet (tl_dst_address (hs_tunn (se_host env))) p n (V4 vip) (co_cache (sy_con s)) now
      (co_table (sy_con s)) = Some (True, q, table)"
    using g(3,4) assms(2) by (auto simp: forward_to_tun_def split: option.splits if_splits)
  show thesis
  proof (cases "tl_dst_address (hs_tunn (se_host env)) p = Some (V4 vip)")
    case True
    then have "q = p" using d by (simp add: prepare_decrypted_packet_def)
    then show thesis by (rule that(1) [OF g(1,2) True])
  next
    case False
    from forwarded_packet_reads [OF d False] obtain sp dp a change alloc where
      "parse_source_port p = Some sp" "parse_destination_port p = Some dp"
      "forward n sp (packet_dialled p dp) dp (co_cache (sy_con s)) (co_table (sy_con s)) = (Forward a change alloc, table)"
      "reads_as q p (parse_source_ipv4 p) (Some a) (if alloc = None then Some sp else alloc)
         (if change = None then Some dp else change)" by blast
    then show thesis
      using that(2) [OF g(1,2), of sp dp a change alloc] by (cases change) (simp_all add: leaves_for_def)
  qed
qed

lemma packet_dialled_port: "packet_dialled p dp = Some dl \<Longrightarrow> dl_destination_port dl = dp"
  by (auto simp: packet_dialled_def split: option.splits)

text \<open>The same, by the flow whose rule decided it.\<close>

lemma gate_writes_flow:
  assumes "do_gate env now s = Went obs s'" "Emitted (WriteTun q) \<in> set obs"
  obtains n p vip where "sy_gate s = Some (n, p)" "sy_vip s = Some vip"
    "tl_dst_address (hs_tunn (se_host env)) p = Some (V4 vip)" "q = p"
  | n p vip sp dp key flow rule where "sy_gate s = Some (n, p)" "sy_vip s = Some vip"
    "parse_source_port p = Some sp" "parse_destination_port p = Some dp"
    "hm_get (ft_flows (co_table (sy_con s))) key = Some flow" "fk_node_id key = n" "fk_port key = sp"
    "rules_for (af_rules flow) (map_option dl_transport (packet_dialled p dp)) dp = [rule]"
    "parse_source_ipv4 q = parse_source_ipv4 p"
    "parse_destination_ipv4 q = dns_resolve (co_cache (sy_con s)) (pr_internal_host rule)"
    "parse_destination_port q = Some (pr_internal_port rule)"
proof (cases rule: gate_writes [OF assms])
  case (1 n p vip)
  then show thesis by (rule that(1))
next
  case (2 n p vip sp dp a change alloc)
  have "at_forward n sp (packet_dialled p dp) dp (co_cache (sy_con s)) (admissions (co_table (sy_con s))) =
      Forward a change None"
    using forward_decides [of n sp "packet_dialled p dp" dp "co_cache (sy_con s)" "co_table (sy_con s)"] 2(5)
    by (simp add: verdict_def)
  from at_forward_rule [OF this packet_dialled_port [of p dp]] obtain key x rule where
    x: "at_flows (admissions (co_table (sy_con s))) key = Some x" and k: "fk_node_id key = n" "fk_port key = sp"
    and rule: "rules_for (ad_rules x) (map_option dl_transport (packet_dialled p dp)) dp = [rule]"
      "dns_resolve (co_cache (sy_con s)) (pr_internal_host rule) = Some a" "leaves_for change dp = pr_internal_port rule"
    by blast
  obtain flow where "hm_get (ft_flows (co_table (sy_con s))) key = Some flow" "x = admission_of flow" using x by auto
  then show thesis
    using that(2) [OF 2(1-4) _ k, of flow rule] rule 2(6) by (simp add: reads_as_def)
qed

text \<open>
  C1: the whole daemon, in every interleaving of its heartbeats, pollers, admissions and
  packet loops in which no package is applied between the decision of an admission and its
  recording: every packet written to the TUN device between heartbeats was decrypted from some
  node's tunnel and either is for the Connector itself, unchanged, or belongs to a flow of
  that node and port of a device the policy in force lists for the flow's gateway, and leaves,
  its source address kept, for the internal host and port of the one rule of that policy that
  opens the dialled port (a packet counts as written at the step of the receive loop that
  decides on it, under the flow table's lock)
\<close>

theorem written_packets_are_authorised:
  assumes "sys_run sys_atomic env (system_new from_slice queue_file) shown s"
    and "stage_of (sy_beat s) = HbIdle"
    and "sys_step env l s = Went obs s'" "Emitted (WriteTun q) \<in> set obs"
  shows "\<exists>n p vip. Decrypted n p \<in> set shown \<and> sy_vip s = Some vip \<and>
    (tl_dst_address (hs_tunn (se_host env)) p = Some (V4 vip) \<and> q = p \<or>
     (\<exists>sp dp state key flow rules rule.
        parse_source_port p = Some sp \<and> parse_destination_port p = Some dp \<and>
        hm_get (ft_flows (co_table (sy_con s))) key = Some flow \<and> fk_node_id key = n \<and> fk_port key = sp \<and>
        co_store (sy_con s) = Some state \<and>
        entitled_in (ps_policy_bundles state) (af_gateway_id flow) (af_device_public_key flow) \<and>
        rules_of (ps_policy_bundles state) (af_gateway_id flow) = Some rules \<and>
        rules_for rules (map_option dl_transport (packet_dialled p dp)) dp = [rule] \<and>
        parse_source_ipv4 q = parse_source_ipv4 p \<and>
        parse_destination_ipv4 q = dns_resolve (co_cache (sy_con s)) (pr_internal_host rule) \<and>
        parse_destination_port q = Some (pr_internal_port rule)))"
proof -
  have prov: "provenance (set shown) s" by (rule sys_run_provenance [OF assms(1)])
  obtain now where "l = LGate now" by (rule only_the_gate_writes [OF assms(3,4) prov])
  then have g: "do_gate env now s = Went obs s'" using assms(3) by simp
  obtain ls m where r: "cp_run admissions_atomic (control_env_of env) cp_init ls m" and m: "matches s m"
    using sys_run_implements [OF assms(1) guards_atomic matches_new] by blast
  have idle: "cm_stage m = HbIdle" and same: "cm_table m = co_table (sy_con s)" "cm_store m = co_store (sy_con s)"
    using m assms(2) by (simp_all add: matches_def)
  show ?thesis
  proof (cases rule: gate_writes_flow [OF g assms(4)])
    case (1 n p vip)
    then show ?thesis using prov by (auto simp: provenance_def)
  next
    case (2 n p vip sp dp key flow rule)
    have "Decrypted n p \<in> set shown" using prov 2(1) by (auto simp: provenance_def)
    moreover have "at_flows (admissions (co_table (sy_con s))) key = Some (admission_of flow)" using 2(5) by simp
    from run_flow_authorised [OF r idle, unfolded same, OF this] obtain state where "co_store (sy_con s) = Some state"
      "entitled_in (ps_policy_bundles state) (af_gateway_id flow) (af_device_public_key flow)"
      "rules_of (ps_policy_bundles state) (af_gateway_id flow) = Some (af_rules flow)"
      by auto
    ultimately show ?thesis using 2 by blast
  qed
qed

end
