(* ===== verification/System_Rescue.thy ===== *)
theory System_Rescue
  imports System_Traffic
begin

text \<open>
  The way of a flow's first packet: held back at the gate while its admission is decided, handed back when
  the admission is recorded, and written to the TUN device.
\<close>

section \<open>A table with fewer flows than ports has a free one\<close>

definition spare_ports :: "flow_table \<Rightarrow> bool" where
  "spare_ports t \<longleftrightarrow> length (ft_flows t) \<le> unat (snd (port_range t)) - unat (fst (port_range t))"

lemma card_range:
  assumes "range_ok r"
  shows "card {p. in_range r p} = Suc (unat (snd r) - unat (fst r))"
proof -
  have "unat ` {p. in_range r p} = {unat (fst r)..unat (snd r)}"
  proof (intro equalityI subsetI)
    fix x assume x: "x \<in> {unat (fst r)..unat (snd r)}"
    have "unat (snd r) < 2 ^ LENGTH(16)" by (rule unsigned_less)
    then have "x < 2 ^ 16" using x by simp
    then have "unat (of_nat x :: u16) = x" by (simp add: unat_of_nat)
    then show "x \<in> unat ` {p. in_range r p}"
      using x by (intro image_eqI [of _ _ "of_nat x"]) (auto simp: in_range_def word_le_nat_alt)
  qed (auto simp: in_range_def word_le_nat_alt)
  moreover have "inj_on unat {p. in_range r p}" by (rule inj_onI) (simp add: word_unat_eq_iff)
  ultimately have "card {p. in_range r p} = card {unat (fst r)..unat (snd r)}" by (metis card_image)
  then show ?thesis using assms by (simp add: range_ok_def word_le_nat_alt Suc_diff_le)
qed

lemma owns_one: "owns flows k (tr, a, ip, sp) \<Longrightarrow> owns flows k (tr', a', ip', sp') \<Longrightarrow> sp = sp'"
  by (auto simp: owns_def allocation_key_of_def split: option.splits)

lemma owns_flow: "owns flows k ak \<Longrightarrow> hm_get flows k \<noteq> None"
  by (cases "hm_get flows k") (simp_all add: owns_def split: option.splits)

lemma free_port:
  assumes "range_ok r" "length flows \<le> unat (snd r) - unat (fst r)"
    and "\<And>k. k \<noteq> key \<Longrightarrow> hm_get flows' k = hm_get flows k"
  shows "\<exists>sp. in_range r sp \<and> (\<nexists>k. k \<noteq> key \<and> owns flows' k (tr, a, ip, sp))"
proof (rule ccontr)
  assume "\<not> ?thesis"
  then have "\<forall>sp. in_range r sp \<longrightarrow> (\<exists>k. k \<noteq> key \<and> owns flows' k (tr, a, ip, sp))" by blast
  then obtain k where k: "\<And>sp. in_range r sp \<Longrightarrow> k sp \<noteq> key \<and> owns flows' (k sp) (tr, a, ip, sp)" by metis
  have "inj_on k {p. in_range r p}"
    using k owns_one unfolding inj_on_def by (metis mem_Collect_eq)
  moreover have "k ` {p. in_range r p} \<subseteq> set (map fst flows)"
  proof
    fix x assume "x \<in> k ` {p. in_range r p}"
    then obtain sp where "x = k sp" "in_range r sp" by blast
    with k [of sp] owns_flow [of flows' x] assms(3) [of x] have "hm_get flows x \<noteq> None" by auto
    then show "x \<in> set (map fst flows)" using hm_keys_iff [of x flows] by (auto simp: hm_keys_def)
  qed
  ultimately have "card {p. in_range r p} \<le> card (set (map fst flows))" by (meson card_inj_on_le finite_set)
  also have "\<dots> \<le> length flows" using card_length [of "map fst flows"] by simp
  finally show False using card_range [OF assms(1)] assms(2) by simp
qed

section \<open>Recorded, the flow forwards\<close>

lemma forward_pending_update: "fst (forward n p d dp cache (t\<lparr>ft_pending := x\<rparr>)) = fst (forward n p d dp cache t)"
proof -
  have i: "fst (forward_with_identity key dl cache (t\<lparr>ft_pending := x\<rparr>)) = fst (forward_with_identity key dl cache t)" for key dl
    by (auto simp: forward_with_identity_def Let_def split: option.split sum.split prod.split)
  have l: "fst (forward_legacy n p e dp cache (t\<lparr>ft_pending := x\<rparr>)) = fst (forward_legacy n p e dp cache t)" for e
    by (auto simp: forward_legacy_def Let_def split: option.split sum.split)
  have a: "legacy_flow_accepts n p g (t\<lparr>ft_pending := x\<rparr>) = legacy_flow_accepts n p g t" for g
    by (simp add: legacy_flow_accepts_def split: option.split)
  show ?thesis unfolding forward_eq by (cases d) (simp_all add: i l a if_distrib [of fst])
qed

lemma admitted_forwards:
  assumes "ft_inv t" "spare_ports t"
    and "resolve_rule rules (Some (dl_transport d)) (dl_destination_port d) cache = Inr (a, ip)"
  shows "\<exists>alloc. fst (forward n p (Some d) dp cache (admit_flow n p (Some d) g f dev rules t)) =
      Forward a (destination_change ip (dl_destination_port d)) alloc"
proof -
  let ?t = "admit_flow n p (Some d) g f dev rules t" and ?key = "flow_key_new n p (Some d)"
  have i: "ft_inv ?t" by (rule admit_flow_inv [OF assms(1)])
  have fl: "hm_get (ft_flows ?t) ?key = Some (new_flow (Some d) g f dev rules)" by (simp add: admit_flow_flows)
  have r: "range_ok (port_range t)" using assms(1) by (simp add: ft_inv_def)
  let ?flow = "new_flow (Some d) g f dev rules"
  let ?ba = "without_allocation (dl_transport d) ?flow (ft_by_allocation ?t)"
  obtain sp where "in_range (port_range t) sp" "\<nexists>k. k \<noteq> ?key \<and> owns (ft_flows ?t) k (dl_transport d, a, ip, sp)"
    using free_port [OF r, of "ft_flows t" ?key "ft_flows ?t" "dl_transport d" a ip] assms(2)
    unfolding spare_ports_def by (metis admit_flow_flows)
  then have "fst (allocate_source_port ?ba (ft_next_source_port ?t) (port_range ?t) (dl_transport d) (a, ip)) \<noteq> None"
    using allocate_source_port_None [OF r] without_allocation_contains [OF i fl] by auto
  moreover have "forward n p (Some d) dp cache ?t = forward_with_identity ?key d cache ?t"
    by (simp add: forward_eq hm_contains_def fl)
  ultimately show ?thesis
    unfolding forward_with_identity_eq [OF fl] using assms(3)
    by (auto simp: new_flow_def Let_def split: prod.split option.split)
qed

section \<open>Handed back and written\<close>

lemma dialled_parses: "packet_dialled p dp = Some d \<Longrightarrow> \<exists>protocol ihl. ipv4_tcp_or_udp p = Some (protocol, ihl)"
  by (auto simp: packet_dialled_def parse_ipv4_transport_def bind_eq_Some_conv split: option.splits)

lemma take_pending_hit:
  assumes "hm_get (ft_pending t) (flow_key_new n sp (Some d)) = Some (p, since)" "duration_since now since \<le> PENDING_PACKET_TTL"
  shows "take_pending n sp (Some d) now t = (Some p, t\<lparr>ft_pending := hm_remove (flow_key_new n sp (Some d)) (ft_pending t)\<rparr>)"
  using assms by (simp add: take_pending_def pending_key_def)

lemma gate_forwards:
  assumes "parse_source_port p = Some sp" "parse_destination_port p = Some dp" "packet_dialled p dp = Some d"
    and "tl_dst_address lib p \<noteq> Some vip"
    and "fst (forward n sp (Some d) dp cache t) = Forward a (destination_change ip dp) alloc"
  shows "\<exists>q t'. forward_to_tun lib vip cache now n p t = Some ([WriteTun q], t') \<and>
    reads_as q p (parse_source_ipv4 p) (Some a) (if alloc = None then Some sp else alloc) (Some ip)"
proof -
  obtain t' where f: "forward n sp (packet_dialled p dp) dp cache t = (Forward a (destination_change ip dp) alloc, t')"
    using assms(3,5) by (cases "forward n sp (Some d) dp cache t") simp
  obtain protocol ihl where pi: "ipv4_tcp_or_udp p = Some (protocol, ihl)" using dialled_parses [OF assms(3)] by blast
  obtain q where q: "then_rewrite (then_rewrite (rewrite_destination_ipv4 p a)
        (is_none_or rewrite_destination_port (destination_change ip dp))) (is_none_or rewrite_source_port alloc) = Some (True, q)"
    "reads_as q p (parse_source_ipv4 p) (Some a) (if alloc = None then parse_source_port p else alloc)
       (if destination_change ip dp = None then parse_destination_port p else destination_change ip dp)"
    using forward_chain [OF pi, of a "destination_change ip dp" alloc] by blast
  have "prepare_decrypted_packet (tl_dst_address lib) p n vip cache now t = Some (True, q, t')"
    using assms(1,2,4) f q(1) by (simp add: prepare_decrypted_packet_def Let_def)
  then show ?thesis
    using q(2) assms(1,2) by (intro exI [of _ q] exI [of _ t']) (auto simp: forward_to_tun_def destination_change_def split: if_splits)
qed

text \<open>
  C6: a flow's first packet is not lost to its own admission. From any reachable state with
  the TUN device up and no packet before the gate or in the recovered queue: when an admission
  task has decided to admit a flow whose request names a dialled identity and the node of its
  own poller, and the packet held for that flow is not for the Connector itself, then the
  task's recording and reclaiming and one turn of the receive loop, run next and without other
  steps between, write that packet to the TUN device, its source address kept, addressed to
  the host and port its rule resolves to, provided the flow was not recently released, the
  packet has not expired, its dialled port resolves to one rule with a known address, and the
  table has fewer flows than source ports
\<close>

theorem first_packet_gets_through:
  assumes "sys_run guard env (system_new from_slice queue_file) shown s"
    and idle: "sy_vip s = Some vip" "sy_gate s = None" "sy_recovered s = []"
    and task: "i < length (sy_work s)" "wk_work (sy_work s ! i) = RecordFlow request key rules"
      "fa_node_id request = wk_node (sy_work s ! i)" "request_dialled request = Some d"
    and live: "\<not> was_recently_released (fa_flow_id request) (mo_now mo) (co_table (sy_con s))"
    and held: "hm_get (ft_pending (co_table (sy_con s))) (flow_key_new (wk_node (sy_work s ! i)) (fa_port request) (Some d)) =
        Some (p, since)" "duration_since (mo_reclaim mo) since \<le> PENDING_PACKET_TTL"
    and packet: "parse_source_port p = Some (fa_port request)" "parse_destination_port p = Some dp" "packet_dialled p dp = Some d"
      "tl_dst_address (hs_tunn (se_host env)) p \<noteq> Some (V4 vip)"
    and rule: "resolve_rule (case current_rules (fa_gateway_id request) (co_table (sy_con s)) of Some c \<Rightarrow> c | None \<Rightarrow> rules)
        (Some (dl_transport d)) dp (co_cache (sy_con s)) = Inr (a, ip)"
    and spare: "spare_ports (co_table (sy_con s))"
  shows "\<exists>q s'. sys_exec any_step env [LWork mo i, LWork mo i, LRecovered, LGate now] s = Some ([Emitted (WriteTun q)], s') \<and>
    parse_source_ipv4 q = parse_source_ipv4 p \<and> parse_destination_ipv4 q = Some a \<and> parse_destination_port q = Some ip"
proof -
  let ?task = "sy_work s ! i" and ?t = "co_table (sy_con s)"
  let ?n = "wk_node ?task" and ?sp = "fa_port request"
  let ?rules = "case current_rules (fa_gateway_id request) ?t of Some c \<Rightarrow> c | None \<Rightarrow> rules"
  define t1 where "t1 = admit_flow ?n ?sp (Some d) (fa_gateway_id request) (fa_flow_id request) key ?rules ?t"
  define t2 where "t2 = t1\<lparr>ft_pending := hm_remove (flow_key_new ?n ?sp (Some d)) (ft_pending t1)\<rparr>"
  have ok: "ft_inv ?t" using sys_run_ok [OF assms(1) sys_ok_new] connector_ok_parts(2) by (auto simp: sys_ok_def)
  have dp: "dl_destination_port d = dp" by (rule packet_dialled_port [OF packet(3)])
  obtain recorded rule where m: "record_admission request (request_dialled request) key rules (mo_now mo) ?t = ((recorded, rule), t1)"
    "recorded \<noteq> AlreadyReleased"
    using live task(3,4) record_admission_recorded [of request "Some d" key rules "mo_now mo" ?t]
      record_admission_table [of request "Some d" key rules "mo_now mo" ?t]
    by (cases "record_admission request (Some d) key rules (mo_now mo) ?t") (auto simp: t1_def)
  obtain response event where r: "admission_reply request key recorded rule = (response, event)" by force
  have admit: "fr_decision response = ''admit''"
    using admission_reply_decision(1) [of request key recorded rule] r m(2) by simp
  obtain alloc where fwd: "fst (forward ?n ?sp (Some d) dp (co_cache (sy_con s)) t1) = Forward a (destination_change ip dp) alloc"
    using admitted_forwards [OF ok spare, of ?rules d "co_cache (sy_con s)" a ip] rule unfolding dp t1_def by metis
  have "ft_pending t1 = ft_pending ?t" by (simp add: t1_def)
  with take_pending_hit [of t1, OF _ held(2)] held(1)
  have taken: "take_pending ?n ?sp (Some d) (mo_reclaim mo) t1 = (Some p, t2)" by (simp add: t2_def)
  define s1 where "s1 = (with_plane ((plane_of s)\<lparr>cp_log := (case event of Some event \<Rightarrow>
        try_record (ce_disk (control_env_of env)) event (co_log (sy_con s)) | None \<Rightarrow> co_log (sy_con s)), cp_table := t1\<rparr>) s)
      \<lparr>sy_work := (sy_work s)[i := ?task\<lparr>wk_work := ReclaimPacket request response\<rparr>]\<rparr>"
  have step1: "sys_step env (LWork mo i) s = Went [] s1"
    using task(1,2) m(1) r by (simp add: do_work_def work_step_def s1_def plane_of_def Let_def split: option.split)
  have w1: "i < length (sy_work s1)" "sy_work s1 ! i = ?task\<lparr>wk_work := ReclaimPacket request response\<rparr>"
    "co_table (sy_con s1) = t1" "sy_recovered s1 = []" "sy_vip s1 = Some vip" "sy_gate s1 = None" "co_cache (sy_con s1) = co_cache (sy_con s)"
    using task(1) idle by (simp_all add: s1_def with_plane_def plane_of_def)
  obtain s2 where step2: "sys_step env (LWork mo i) s1 = Went [] s2" and w2: "co_table (sy_con s2) = t2"
    "sy_recovered s2 = [(?n, p)]" "sy_vip s2 = Some vip" "sy_gate s2 = None" "co_cache (sy_con s2) = co_cache (sy_con s)"
    using w1 admit taken task(4) by (simp add: do_work_def work_step_def reclaim_packet_def with_plane_def plane_of_def)
  have f2: "fst (forward ?n ?sp (Some d) dp (co_cache (sy_con s2)) (co_table (sy_con s2))) = Forward a (destination_change ip dp) alloc"
    unfolding w2(1,5) t2_def forward_pending_update by (rule fwd)
  from gate_forwards [OF packet f2] obtain q t3 where
    g: "forward_to_tun (hs_tunn (se_host env)) (V4 vip) (co_cache (sy_con s2)) now ?n p (co_table (sy_con s2)) = Some ([WriteTun q], t3)"
    and reads: "reads_as q p (parse_source_ipv4 p) (Some a) (if alloc = None then Some ?sp else alloc) (Some ip)"
    by blast
  have "\<exists>s'. sys_exec any_step env [LWork mo i, LWork mo i, LRecovered, LGate now] s = Some ([Emitted (WriteTun q)], s')"
    using step1 step2 w2 g by (simp add: do_recovered_def do_gate_def)
  then show ?thesis using reads by (auto simp: reads_as_def)
qed

end
