(* ===== verification/System_Pollers.thy ===== *)
theory System_Pollers
  imports System_Control
begin

text \<open>
  The admissions in flight: how many a poller has, whose they are, what becomes of them when their poller is
  aborted, and that each of them comes to its answer whatever else has happened.
\<close>

section \<open>What a step does to the tasks\<close>

lemma count_list_forget:
  "count_list (map f (forget_task i xs)) x \<le> count_list (map f xs) x"
proof -
  have "count_list (map f (forget_task i xs)) x = count_list (map f (take i xs)) x + count_list (map f (drop (Suc i) xs)) x"
    by (simp add: forget_task_def)
  moreover have "count_list (map f (drop (Suc i) xs)) x \<le> count_list (map f (drop i xs)) x"
    by (cases "drop i xs") (simp_all add: drop_Suc drop_tl)
  moreover have "count_list (map f xs) x = count_list (map f (take i xs)) x + count_list (map f (drop i xs)) x"
    using arg_cong [OF append_take_drop_id [of i xs], of "\<lambda>ys. count_list (map f ys) x"] by (simp del: append_take_drop_id)
  ultimately show ?thesis by simp
qed

lemma count_list_length: "count_list (map f xs) x = length (filter (\<lambda>y. f y = x) xs)"
  by (induction xs) auto

lemma forget_task_subset: "set (forget_task i xs) \<subseteq> set xs"
  by (auto simp: forget_task_def dest: in_set_takeD in_set_dropD)

lemma in_flight_count:
  "in_flight n poller s = count_list (map (\<lambda>task. (wk_node task, wk_poller task)) (sy_work s)) (n, poller)"
  by (simp add: in_flight_def count_list_length)

text \<open>The parts of the state the tasks are.\<close>

abbreviation tasks_of :: "'t system \<Rightarrow> admission_task list \<times> admission_pollers \<times> (string \<times> poller_task) list" where
  "tasks_of s \<equiv> (sy_work s, co_pollers (sy_con s), sy_stopping s)"

lemma heartbeat_keeps_tasks:
  "do_exchange env net clock s = Went obs s' \<Longrightarrow> tasks_of s' = tasks_of s"
  "do_apply env clock s = Went obs s' \<Longrightarrow> tasks_of s' = tasks_of s"
proof -
  assume d: "do_exchange env net clock s = Went obs s'"
  obtain r c where e: "exchange_heartbeat ((se_host env)\<lparr>hs_net := net\<rparr>) clock (se_public_key env) (sy_con s) = (r, c)"
    by force
  show "tasks_of s' = tasks_of s"
    using d e exchange_frame(6) [OF e] by (auto simp: do_exchange_def Let_def split: if_splits sum.splits)
next
  assume d: "do_apply env clock s = Went obs s'"
  then obtain old_bundles response where b: "sy_beat s = BeatAnswered old_bundles response"
    by (cases "sy_beat s") (simp_all add: do_apply_def)
  obtain r c where a: "apply_package (se_host env) clock response (sy_con s) = (r, c)" by force
  show "tasks_of s' = tasks_of s"
    using d b a apply_package_frame(5) [OF a] by (auto simp: do_apply_def split: sum.splits)
qed

lemma dispatch_tasks:
  assumes "dispatch_to env mo n poller message s = Went obs s'"
  shows "tasks_of s' = tasks_of s \<or> in_flight n poller s < MAX_CONCURRENT_ADMISSIONS_PER_NODE \<and>
    (\<exists>work. work_of message = Some work \<and>
      tasks_of s' = (sy_work s @ [\<lparr>wk_node = n, wk_poller = poller, wk_work = work\<rparr>], co_pollers (sy_con s), sy_stopping s))"
  using assms by (auto simp: dispatch_to_def with_plane_def split: option.splits if_splits)

text \<open>A step begins an admission, moves one on, lets one go, sets the pollers, drops one, or does none of these.\<close>

lemma step_tasks:
  assumes "sys_step env l s = Went obs s'"
  obtains (stays) "tasks_of s' = tasks_of s"
  | (begins) n poller work where "poller_runs s n poller" "in_flight n poller s < MAX_CONCURRENT_ADMISSIONS_PER_NODE"
      "\<exists>message. work_of message = Some work"
      "tasks_of s' = (sy_work s @ [\<lparr>wk_node = n, wk_poller = poller, wk_work = work\<rparr>], co_pollers (sy_con s), sy_stopping s)"
  | (moves) mo i posts work p where "l = LWork mo i" "i < length (sy_work s)"
      "work_step (control_env_of env) mo (wk_node (sy_work s ! i)) (pt_connector_id (wk_poller (sy_work s ! i)))
         (wk_work (sy_work s ! i)) (plane_of s) = Some (posts, Some work, p)"
      "tasks_of s' = ((sy_work s)[i := (sy_work s ! i)\<lparr>wk_work := work\<rparr>], co_pollers (sy_con s), sy_stopping s)"
  | (leaves) i where "i < length (sy_work s)" "tasks_of s' = (forget_task i (sy_work s), co_pollers (sy_con s), sy_stopping s)"
  | (syncs) old response where "l = LPollSync" "sy_beat s = BeatEvicted old response"
      "tasks_of s' = (sy_work s, sync_pollers (hr_connector_id response) (hr_node_list response) (co_pollers (sy_con s)),
         sy_stopping s @ aborted_pollers (co_pollers (sy_con s)) (co_pollers (sy_con s')))"
  | (drops) k where "k < length (sy_stopping s)" "tasks_of s' = (sy_work s, co_pollers (sy_con s), forget_task k (sy_stopping s))"
proof (cases l)
  case (LExchange net clock)
  then show thesis using heartbeat_keeps_tasks(1) assms by (intro stays) simp
next
  case (LApplyPackage clock)
  then show thesis using heartbeat_keeps_tasks(2) assms by (intro stays) simp
next
  case (LDatagram datagram src)
  then show thesis using assms
    by (intro stays) (auto simp: do_datagram_def Let_def split_beta split: if_splits option.splits tunnel_event.splits)
next
  case (LMessage mo n message)
  then obtain poller where p: "hm_get (pl_tasks (co_pollers (sy_con s))) n = Some poller"
    and d: "dispatch_to env mo n poller message s = Went obs s'"
    using assms by (auto simp: do_message_def split: option.splits)
  from dispatch_tasks [OF d] begins [of n poller] stays p show thesis by (auto simp: poller_runs_def)
next
  case (LLateMessage mo k message)
  then have k: "k < length (sy_stopping s)"
    and d: "dispatch_to env mo (fst (sy_stopping s ! k)) (snd (sy_stopping s ! k)) message s = Went obs s'"
    using assms by (auto simp: do_late_message_def split: if_splits)
  have "sy_stopping s ! k \<in> set (sy_stopping s)" using k by (rule nth_mem)
  then have "poller_runs s (fst (sy_stopping s ! k)) (snd (sy_stopping s ! k))" by (simp add: poller_runs_def)
  with dispatch_tasks [OF d] begins stays show thesis by blast
next
  case (LDropPoller k)
  then show thesis using assms by (intro drops [of k]) (auto simp: do_drop_poller_def split: if_splits)
next
  case (LDropWork i)
  then show thesis using assms by (intro leaves [of i]) (auto simp: do_drop_work_def split: if_splits)
next
  case (LWork mo i)
  then have i: "i < length (sy_work s)" using assms by (auto simp: do_work_def split: if_splits)
  obtain posts left p where w: "work_step (control_env_of env) mo (wk_node (sy_work s ! i))
      (pt_connector_id (wk_poller (sy_work s ! i))) (wk_work (sy_work s ! i)) (plane_of s) = Some (posts, left, p)"
    and s': "s' = (with_plane p s)\<lparr>sy_work := (case left of
      Some work \<Rightarrow> (sy_work s)[i := (sy_work s ! i)\<lparr>wk_work := work\<rparr>] | None \<Rightarrow> forget_task i (sy_work s))\<rparr>"
    using assms LWork i by (auto simp: do_work_def Let_def split: option.splits)
  show thesis
  proof (cases left)
    case None
    then show thesis using i s' by (intro leaves [of i]) (simp_all add: with_plane_def)
  next
    case (Some work)
    show thesis by (rule moves [OF LWork i w [unfolded Some]]) (simp add: s' Some with_plane_def)
  qed
next
  case LPollSync
  with assms obtain old response where "sy_beat s = BeatEvicted old response"
    by (auto simp: do_poll_sync_def split: beat.splits)
  then show thesis using assms LPollSync by (intro syncs [OF LPollSync]) (auto simp: do_poll_sync_def Let_def)
qed (use assms in \<open>auto intro!: stays simp: do_sync_def do_evict_def do_reconcile_def do_rules_def do_refresh_def
    do_poll_connect_def do_recovered_def do_gate_def do_tun_def do_timer_def Let_def
    split: beat.splits if_splits list.splits option.splits prod.splits\<close>)

section \<open>Every admission belongs to one poller, whose slots are sixteen\<close>

definition tasks_owned :: "'t system \<Rightarrow> bool" where
  "tasks_owned s \<longleftrightarrow> (\<forall>n poller. in_flight n poller s \<le> MAX_CONCURRENT_ADMISSIONS_PER_NODE) \<and>
     (\<forall>task \<in> set (sy_work s). pt_spawn (wk_poller task) < pl_spawned (co_pollers (sy_con s))) \<and>
     (\<forall>(n, poller) \<in> set (sy_stopping s). pt_spawn poller < pl_spawned (co_pollers (sy_con s)))"

lemma tasks_owned_new: "tasks_owned (system_new from_slice queue_file)"
  by (simp add: tasks_owned_def system_new_def in_flight_def)

lemma in_flight_append: "sy_work s' = sy_work s @ [task] \<Longrightarrow>
    in_flight n poller s' = in_flight n poller s + (if wk_node task = n \<and> wk_poller task = poller then 1 else 0)"
  by (simp add: in_flight_def)

lemma in_flight_move:
  assumes "i < length (sy_work s)" "sy_work s' = (sy_work s)[i := (sy_work s ! i)\<lparr>wk_work := work\<rparr>]"
  shows "in_flight n poller s' = in_flight n poller s"
proof -
  have "map (\<lambda>task. (wk_node task, wk_poller task)) (sy_work s') = map (\<lambda>task. (wk_node task, wk_poller task)) (sy_work s)"
    using assms(1) by (simp add: assms(2) map_update list_update_same_conv)
  then show ?thesis by (simp add: in_flight_count)
qed

lemma in_flight_forget: "sy_work s' = forget_task i (sy_work s) \<Longrightarrow> in_flight n poller s' \<le> in_flight n poller s"
  by (simp add: in_flight_count count_list_forget)

lemma in_flight_same: "sy_work s' = sy_work s \<Longrightarrow> in_flight n poller s' = in_flight n poller s"
  by (simp add: in_flight_def)

lemma ok_pollers: "sys_ok env s \<Longrightarrow> pollers_ok (co_pollers (sy_con s))"
  by (simp add: sys_ok_def connector_ok_def)

lemma running_spawned:
  assumes "sys_ok env s" "tasks_owned s" "poller_runs s n poller"
  shows "pt_spawn poller < pl_spawned (co_pollers (sy_con s))"
  using assms ok_pollers [OF assms(1)] by (auto simp: poller_runs_def tasks_owned_def pollers_ok_def)

lemma aborted_pollers_ran: "hm_ok (pl_tasks old) \<Longrightarrow> (n, poller) \<in> set (aborted_pollers old new) \<Longrightarrow>
    hm_get (pl_tasks old) n = Some poller"
  by (simp add: aborted_pollers_def hm_get_mem)

lemma sys_step_tasks_owned:
  assumes "sys_step env l s = Went obs s'" "sys_ok env s" "tasks_owned s"
  shows "tasks_owned s'"
proof -
  have owned: "in_flight n poller s \<le> MAX_CONCURRENT_ADMISSIONS_PER_NODE"
    "task \<in> set (sy_work s) \<Longrightarrow> pt_spawn (wk_poller task) < pl_spawned (co_pollers (sy_con s))"
    "(n, poller) \<in> set (sy_stopping s) \<Longrightarrow> pt_spawn poller < pl_spawned (co_pollers (sy_con s))" for n poller task
    using assms(3) by (auto simp: tasks_owned_def)
  show ?thesis
  proof (cases rule: step_tasks [OF assms(1)])
    case 1
    then show ?thesis using assms(3) in_flight_same [of s' s] by (simp add: tasks_owned_def)
  next
    case (2 n poller work)
    then show ?thesis
      using assms(3) running_spawned [OF assms(2,3) 2(1)] in_flight_append [of s' s]
      by (auto simp: tasks_owned_def)
  next
    case (3 mo i posts work p)
    then show ?thesis
      using assms(3) in_flight_move [of i s s' work] set_update_subset_insert [of "sy_work s" i "(sy_work s ! i)\<lparr>wk_work := work\<rparr>"]
      by (auto simp: tasks_owned_def dest!: subsetD)
  next
    case (4 i)
    then have w: "sy_work s' = forget_task i (sy_work s)" by simp
    have "in_flight n poller s' \<le> MAX_CONCURRENT_ADMISSIONS_PER_NODE" for n poller
      using in_flight_forget [OF w] owned(1) by (rule order_trans)
    moreover have "pt_spawn (wk_poller task) < pl_spawned (co_pollers (sy_con s))" if "task \<in> set (sy_work s')" for task
      using that forget_task_subset [of i "sy_work s"] unfolding w by (intro owned(2)) blast
    ultimately show ?thesis using 4(2) owned(3) by (auto simp: tasks_owned_def)
  next
    case (5 old response)
    note ok = ok_pollers [OF assms(2)]
    let ?p = "co_pollers (sy_con s)" and ?p' = "co_pollers (sy_con s')"
    have le: "pl_spawned ?p \<le> pl_spawned ?p'" using 5 sync_pollers_spawned(1) [OF ok] by simp
    have "pt_spawn poller < pl_spawned ?p" if "(n, poller) \<in> set (aborted_pollers ?p ?p')" for n poller
      using aborted_pollers_ran [OF _ that] ok by (auto simp: pollers_ok_def)
    then have "pt_spawn poller < pl_spawned ?p" if "(n, poller) \<in> set (sy_stopping s')" for n poller
      using that owned(3) 5(3) by auto
    then show ?thesis
      using le owned(1,2) in_flight_same [of s' s] 5(3) unfolding tasks_owned_def by (fastforce intro: less_le_trans)
  next
    case (6 k)
    then show ?thesis
      using assms(3) in_flight_same [of s' s] forget_task_subset [of k "sy_stopping s"]
      by (auto simp: tasks_owned_def)
  qed
qed

lemma sys_run_tasks_owned:
  "sys_run guard env s0 shown s \<Longrightarrow> sys_ok env s0 \<Longrightarrow> tasks_owned s0 \<Longrightarrow> sys_ok env s \<and> tasks_owned s"
proof (induction rule: sys_run.induct)
  case (sys_run_step shown s' l obs s'')
  then show ?case using sys_step_tasks_owned [of env l s' obs s''] sys_step_goes_well [of env s' l] by simp
qed simp

text \<open>A poller that was started and that the runtime has dropped: it begins nothing any more.\<close>

definition poller_gone :: "'t system \<Rightarrow> string \<Rightarrow> poller_task \<Rightarrow> bool" where
  "poller_gone s n poller \<longleftrightarrow> pt_spawn poller < pl_spawned (co_pollers (sy_con s)) \<and> \<not> poller_runs s n poller"

lemma sys_step_gone:
  assumes "sys_step env l s = Went obs s'" "sys_ok env s" "poller_gone s n poller"
  shows "poller_gone s' n poller \<and> in_flight n poller s' \<le> in_flight n poller s"
proof (cases rule: step_tasks [OF assms(1)])
  case 1
  then show ?thesis using assms(3) in_flight_same [of s' s] by (simp add: poller_gone_def poller_runs_def)
next
  case (2 n' poller' work)
  then show ?thesis
    using assms(3) in_flight_append [of s' s] by (auto simp: poller_gone_def poller_runs_def)
next
  case (3 mo i posts work p)
  then show ?thesis using assms(3) in_flight_move [of i s s' work] by (simp add: poller_gone_def poller_runs_def)
next
  case (4 i)
  then show ?thesis using assms(3) in_flight_forget [of s' i s] by (simp add: poller_gone_def poller_runs_def)
next
  case (5 old response)
  note ok = ok_pollers [OF assms(2)]
  let ?p = "co_pollers (sy_con s)" and ?p' = "co_pollers (sy_con s')"
  have "pl_spawned ?p \<le> pl_spawned ?p'" using 5 sync_pollers_spawned(1) [OF ok] by simp
  moreover have "hm_get (pl_tasks ?p') n \<noteq> Some poller"
    using 5 sync_pollers_spawned(2) [OF ok, of "hr_connector_id response" "hr_node_list response" n poller] assms(3)
    by (auto simp: poller_gone_def poller_runs_def)
  moreover have "(n, poller) \<notin> set (aborted_pollers ?p ?p')"
    using aborted_pollers_ran [of ?p n poller ?p'] ok assms(3) by (auto simp: pollers_ok_def poller_gone_def poller_runs_def)
  ultimately show ?thesis
    using 5 assms(3) in_flight_same [of s' s] by (auto simp: poller_gone_def poller_runs_def)
next
  case (6 k)
  then show ?thesis
    using assms(3) in_flight_same [of s' s] forget_task_subset [of k "sy_stopping s"]
    by (auto simp: poller_gone_def poller_runs_def)
qed

lemma sys_run_gone:
  "sys_run guard env s further s' \<Longrightarrow> sys_ok env s \<Longrightarrow> poller_gone s n poller \<Longrightarrow>
     sys_ok env s' \<and> poller_gone s' n poller \<and> in_flight n poller s' \<le> in_flight n poller s"
proof (induction rule: sys_run.induct)
  case (sys_run_step shown s' l obs s'')
  then have "sys_ok env s' \<and> poller_gone s' n poller" "in_flight n poller s' \<le> in_flight n poller s" by blast+
  then show ?case
    using sys_step_gone [OF sys_run_step.hyps(3), of n poller] sys_step_goes_well [of env s' l] sys_run_step.hyps(3)
    by (metis goes_well_simps(3) order_trans)
qed simp

text \<open>
  C29: no poller ever has more than sixteen admissions in flight, so neither has the current
  poller of a node. Each admission's poller is a current one, or was aborted and is being
  stopped, or is gone; one that is gone stays gone and starts no admission any more, whatever
  comes after: those it left, which the runtime still has to drop, only become fewer
\<close>

theorem admissions_in_flight_are_bounded:
  assumes "sys_run guard env (system_new from_slice queue_file) shown s"
  shows "in_flight n poller s \<le> 16 \<and>
    length (filter (\<lambda>task. wk_node task = n \<and> still_runs (co_pollers (sy_con s)) task) (sy_work s)) \<le> 16 \<and>
    (\<forall>task \<in> set (sy_work s). poller_runs s (wk_node task) (wk_poller task) \<or> poller_gone s (wk_node task) (wk_poller task)) \<and>
    (poller_gone s n poller \<longrightarrow> (\<forall>guard' further s'. sys_run guard' env s further s' \<longrightarrow>
       poller_gone s' n poller \<and> in_flight n poller s' \<le> in_flight n poller s))"
proof -
  have ok: "sys_ok env s" "tasks_owned s"
    using sys_run_tasks_owned [OF assms sys_ok_new tasks_owned_new] by blast+
  have bound: "in_flight m q s \<le> 16" for m q
    using ok(2) by (simp add: tasks_owned_def MAX_CONCURRENT_ADMISSIONS_PER_NODE_def)
  have "filter (\<lambda>task. wk_node task = n \<and> still_runs (co_pollers (sy_con s)) task) (sy_work s) =
      (case hm_get (pl_tasks (co_pollers (sy_con s))) n of None \<Rightarrow> []
       | Some q \<Rightarrow> filter (\<lambda>task. wk_node task = n \<and> wk_poller task = q) (sy_work s))"
    by (auto simp: still_runs_def filter_empty_conv split: option.split intro!: filter_cong)
  with bound have "length (filter (\<lambda>task. wk_node task = n \<and> still_runs (co_pollers (sy_con s)) task) (sy_work s)) \<le> 16"
    by (auto simp: in_flight_def split: option.split)
  moreover have "\<forall>task \<in> set (sy_work s). poller_runs s (wk_node task) (wk_poller task) \<or> poller_gone s (wk_node task) (wk_poller task)"
    using ok(2) by (auto simp: tasks_owned_def poller_gone_def)
  ultimately show ?thesis using bound [of n poller] sys_run_gone [OF _ ok(1)] by blast
qed

section \<open>Every admission comes to its answer\<close>

text \<open>The result a task owes its node.\<close>

fun result_for :: "work \<Rightarrow> result_body \<Rightarrow> bool" where
  "result_for (DecideFlow request) (FlowResult response) \<longleftrightarrow> fr_flow_id response = fa_flow_id request"
| "result_for (RecordFlow request _ _) (FlowResult response) \<longleftrightarrow> fr_flow_id response = fa_flow_id request"
| "result_for (ReclaimPacket _ response) body \<longleftrightarrow> body = FlowResult response"
| "result_for (DecideDns query) (DnsResult correlation_id _) \<longleftrightarrow> correlation_id = da_correlation_id query"
| "result_for (PostResult result) body \<longleftrightarrow> body = result"
| "result_for _ _ \<longleftrightarrow> False"

fun pieces_left :: "work \<Rightarrow> nat" where
  "pieces_left (DecideFlow _) = 4"
| "pieces_left (RecordFlow _ _ _) = 3"
| "pieces_left (ReclaimPacket _ _) = 2"
| "pieces_left (DecideDns _) = 2"
| "pieces_left (PostResult _) = 1"

lemma work_step_advances:
  assumes "work_step env mo n c work p = Some (posts, left, p')"
  shows "case left of
      Some work' \<Rightarrow> posts = [] \<and> pieces_left work' < pieces_left work \<and> (\<forall>body. result_for work' body \<longrightarrow> result_for work body)
    | None \<Rightarrow> \<exists>body. work = PostResult body \<and>
        (\<forall>port. mo_connection mo = Connected port \<longrightarrow> posts = [Posted n (result_path c) body])"
proof (cases work)
  case (DecideFlow request)
  have "result_for (ReclaimPacket request (refusal_reply request reason)) body \<Longrightarrow> result_for work body" for reason body
    using DecideFlow by (cases body) (auto simp: refusal_reply_def)
  moreover have "result_for (RecordFlow request key rules) body \<Longrightarrow> result_for work body" for key rules body
    using DecideFlow by (cases body) auto
  ultimately show ?thesis
    using assms DecideFlow by (auto simp: work_step_def split: option.splits admission_outcome.splits)
next
  case (RecordFlow request key rules)
  obtain recorded rule table where m: "record_admission request (request_dialled request) key rules (mo_now mo) (cp_table p) =
      ((recorded, rule), table)" by (metis prod.exhaust)
  obtain response event where a: "admission_reply request key recorded rule = (response, event)" by force
  have "fr_flow_id response = fa_flow_id request" using admission_reply_decision(2) [of request key recorded rule] a by simp
  then have "result_for (ReclaimPacket request response) body \<Longrightarrow> result_for work body" for body
    using RecordFlow by (cases body) auto
  then show ?thesis using assms RecordFlow by (auto simp: work_step_def m a)
next
  case (ReclaimPacket request response)
  then show ?thesis using assms by (auto simp: work_step_def)
next
  case (DecideDns query)
  have "result_for (PostResult (DnsResult (da_correlation_id query) response)) body \<Longrightarrow> result_for work body" for response body
    using DecideDns by (cases body) auto
  then show ?thesis using assms DecideDns by (auto simp: work_step_def split: option.splits)
next
  case (PostResult body)
  then show ?thesis using assms by (auto simp: work_step_def post_result_def connect_registered_def Let_def split_beta)
qed

lemma forget_task_update: "forget_task i (xs[i := x]) = forget_task i xs"
  by (simp add: forget_task_def)

lemma work_runs_out:
  assumes "sys_ok env s" "i < length (sy_work s)" "mo_connection mo = Connected port"
    and "pieces_left (wk_work (sy_work s ! i)) \<le> n"
  shows "\<exists>k \<le> n. \<exists>body s'. sys_exec any_step env (replicate k (LWork mo i)) s =
      Some ([Answered (Posted (wk_node (sy_work s ! i)) (result_path (pt_connector_id (wk_poller (sy_work s ! i)))) body)], s') \<and>
    sy_work s' = forget_task i (sy_work s) \<and> result_for (wk_work (sy_work s ! i)) body"
  using assms(1,2,4)
proof (induction n arbitrary: s)
  case 0
  then show ?case by (cases "wk_work (sy_work s ! i)") auto
next
  case (Suc n)
  let ?task = "sy_work s ! i"
  note ok = Suc.prems(1) [unfolded sys_ok_def]
  have "store_ok (ce_parse_rfc3339 (control_env_of env)) (cp_store (plane_of s))" "ft_inv (cp_table (plane_of s))"
    using connector_ok_parts [OF ok] by (simp_all add: control_env_of_def plane_of_def)
  then obtain posts left p where w: "work_step (control_env_of env) mo (wk_node ?task) (pt_connector_id (wk_poller ?task))
      (wk_work ?task) (plane_of s) = Some (posts, left, p)" by (rule work_step_total)
  note adv = work_step_advances [OF w]
  show ?case
  proof (cases left)
    case None
    then obtain body where b: "wk_work ?task = PostResult body"
      "posts = [Posted (wk_node ?task) (result_path (pt_connector_id (wk_poller ?task))) body]"
      using adv assms(3) by auto
    let ?s = "(with_plane p s)\<lparr>sy_work := forget_task i (sy_work s)\<rparr>"
    have "sys_exec any_step env (replicate 1 (LWork mo i)) s =
        Some ([Answered (Posted (wk_node ?task) (result_path (pt_connector_id (wk_poller ?task))) body)], ?s)"
      using Suc.prems(2) w None b(2) by (simp add: do_work_def Let_def)
    then show ?thesis
      using b(1) by (intro exI [of _ 1] exI [of _ body] exI [of _ ?s]) simp
  next
    case (Some work')
    let ?s = "(with_plane p s)\<lparr>sy_work := (sy_work s)[i := ?task\<lparr>wk_work := work'\<rparr>]\<rparr>"
    have d: "do_work env mo i s = Went [] ?s"
      using Suc.prems(2) w Some adv by (simp add: do_work_def Let_def)
    have "sys_ok env ?s" using sys_step_goes_well [OF Suc.prems(1), of "LWork mo i"] d by simp
    moreover have t: "i < length (sy_work ?s)" "sy_work ?s ! i = ?task\<lparr>wk_work := work'\<rparr>" using Suc.prems(2) by simp_all
    moreover have "pieces_left (wk_work (sy_work ?s ! i)) \<le> n" using t(2) adv Some Suc.prems(3) by simp
    ultimately obtain k body s' where k: "k \<le> n" "sys_exec any_step env (replicate k (LWork mo i)) ?s =
        Some ([Answered (Posted (wk_node ?task) (result_path (pt_connector_id (wk_poller ?task))) body)], s')"
      "sy_work s' = forget_task i (sy_work s)" "result_for work' body"
      using Suc.IH [of ?s] by (auto simp: forget_task_update)
    have "result_for (wk_work ?task) body" using adv Some k(4) by simp
    then show ?thesis
      using k d by (intro exI [of _ "Suc k"] exI [of _ body] exI [of _ s']) simp
  qed
qed

text \<open>
  C28: an admission in flight, wherever it and the daemon stand, comes to its answer in at
  most four steps of its own, whatever came before them, once its connection to the node can
  be made and if it runs rather than being dropped with an aborted poller: its result, for the
  flow or query it was asked about, is posted to its node under its poller's connector id, and
  its slot is free
\<close>

theorem every_admission_is_answered:
  assumes "sys_run guard env (system_new from_slice queue_file) shown s"
    and "i < length (sy_work s)" "mo_connection mo = Connected port"
  shows "\<exists>k \<le> 4. \<exists>body s'. sys_exec any_step env (replicate k (LWork mo i)) s =
      Some ([Answered (Posted (wk_node (sy_work s ! i)) (result_path (pt_connector_id (wk_poller (sy_work s ! i)))) body)], s') \<and>
    sy_work s' = forget_task i (sy_work s) \<and> result_for (wk_work (sy_work s ! i)) body"
proof -
  have "pieces_left (wk_work (sy_work s ! i)) \<le> 4" by (cases "wk_work (sy_work s ! i)") simp_all
  with work_runs_out [OF sys_run_ok [OF assms(1) sys_ok_new] assms(2,3)] show ?thesis by blast
qed

end
