(* ===== verification/System_Serving.thy ===== *)
theory System_Serving
  imports System_Pollers
begin

text \<open>
  What the daemon serves between two heartbeats: tunnels, pollers, admissions (those of aborted pollers
  aside), rules and cached addresses are those of the package in the policy store, however its tasks have
  interleaved. A heartbeat brings them over one lock at a time, so what holds in the middle of one is said stage by stage.
\<close>

section \<open>What a step does to the flow table\<close>

text \<open>The operations a step may run on the flow table, beside the traffic any step may cause.\<close>

definition step_operation :: "sys_label \<Rightarrow> 't system \<Rightarrow> ft_event \<Rightarrow> bool" where
  "step_operation l s e \<longleftrightarrow> is_traffic e \<or> (case l of
     LEndDropped _ _ \<Rightarrow> (\<exists>g dev. e = EvEvictDevice g dev)
   | LEndUnserved _ \<Rightarrow> (\<exists>g rules now. e = EvUpdateRules g rules now) \<or> (\<exists>gs. e = EvRetainRules gs)
   | LMessage _ _ _ \<Rightarrow> (\<exists>f now. e = EvRelease f now)
   | LLateMessage _ _ _ \<Rightarrow> (\<exists>f now. e = EvRelease f now)
   | LWork mo i \<Rightarrow> i < length (sy_work s) \<and>
       (\<exists>task. recording (sy_work s ! i) = Some task \<and> e = admission_event task (co_table (sy_con s)))
   | _ \<Rightarrow> False)"

definition step_changes :: "sys_label \<Rightarrow> 't system \<Rightarrow> flow_table \<Rightarrow> flow_table \<Rightarrow> bool" where
  "step_changes l s t t' \<longleftrightarrow> (\<exists>es. t' = fold ft_step es t \<and> list_all (step_operation l s) es)"

lemma step_changes_same [simp]: "step_changes l s t t"
  unfolding step_changes_def by (intro exI [of _ "[]"]) simp

lemma step_changes_traffic:
  "\<exists>es. list_all is_traffic es \<and> t' = fold ft_step es t \<Longrightarrow> step_changes l s t t'"
  unfolding step_changes_def by (auto simp: step_operation_def list_all_iff)

lemma step_changes_one: "step_operation l s e \<Longrightarrow> step_changes l s t (ft_step e t)"
  unfolding step_changes_def by (intro exI [of _ "[e]"]) simp

lemma work_step_changes:
  assumes "work_step env mo n c (wk_work (sy_work s ! i)) (plane_of s) = Some (posts, left, p)" "i < length (sy_work s)"
  shows "step_changes (LWork mo i) s (co_table (sy_con s)) (cp_table p)"
proof (cases "wk_work (sy_work s ! i)")
  case (DecideFlow request)
  then show ?thesis
    using assms(1) by (auto simp: work_step_def plane_of_def split: option.splits admission_outcome.splits)
next
  case (RecordFlow request key rules)
  let ?task = "\<lparr>tk_request = request, tk_device = key, tk_rules = rules\<rparr>"
  have "step_operation (LWork mo i) s (admission_event ?task (co_table (sy_con s)))"
    using assms(2) RecordFlow by (simp add: step_operation_def recording_def)
  note one = step_changes_one [OF this]
  have "cp_table p = snd (record_admission request (request_dialled request) key rules (mo_now mo) (co_table (sy_con s)))"
    using assms(1) RecordFlow by (auto simp: work_step_def plane_of_def Let_def split_beta)
  with one [of "co_table (sy_con s)"] show ?thesis by (simp add: record_admission_table admission_event_def cong: option.case_cong)
next
  case (ReclaimPacket request response)
  let ?take = "EvTake n (fa_port request) (request_dialled request) (mo_reclaim mo)"
  have "cp_table p = fold ft_step (if fr_decision response = ''admit'' then [?take] else []) (co_table (sy_con s))"
    using assms(1) ReclaimPacket by (auto simp: work_step_def reclaim_packet_def plane_of_def split: option.splits prod.splits)
  then show ?thesis
    by (intro step_changes_traffic exI [of _ "if fr_decision response = ''admit'' then [?take] else []"]) (simp add: is_traffic_def)
next
  case (DecideDns query)
  then show ?thesis using assms(1) by (auto simp: work_step_def plane_of_def split: option.splits)
next
  case (PostResult body)
  have "cp_table p = snd (connect_registered n (mo_connection mo) (co_table (sy_con s)))"
    using assms(1) PostResult by (auto simp: work_step_def post_result_def plane_of_def Let_def split_beta)
  then show ?thesis
    using connect_registered_event [of n "mo_connection mo" "co_table (sy_con s)"] by (intro step_changes_traffic) simp
qed

lemma beat_step_changes:
  shows "do_exchange env net clock s = Went obs s' \<Longrightarrow> co_table (sy_con s') = co_table (sy_con s)"
    "do_apply env clock s = Went obs s' \<Longrightarrow> co_table (sy_con s') = co_table (sy_con s)"
    "do_evict s = Went obs s' \<Longrightarrow> step_changes LEvict s (co_table (sy_con s)) (co_table (sy_con s'))"
    "do_reconcile env next_id clock s = Went obs s' \<Longrightarrow>
       step_changes (LEndDropped next_id clock) s (co_table (sy_con s)) (co_table (sy_con s'))"
    "do_rules env clock s = Went obs s' \<Longrightarrow>
       step_changes (LEndUnserved clock) s (co_table (sy_con s)) (co_table (sy_con s'))"
proof -
  assume d: "do_exchange env net clock s = Went obs s'"
  obtain r c where e: "exchange_heartbeat ((se_host env)\<lparr>hs_net := net\<rparr>) clock (se_public_key env) (sy_con s) = (r, c)"
    by force
  show "co_table (sy_con s') = co_table (sy_con s)"
    using d e exchange_frame(4) [OF e] by (auto simp: do_exchange_def Let_def split: if_splits sum.splits)
next
  assume d: "do_apply env clock s = Went obs s'"
  then obtain old_bundles response where b: "sy_beat s = BeatAnswered old_bundles response"
    by (cases "sy_beat s") (simp_all add: do_apply_def)
  obtain r c where a: "apply_package (se_host env) clock response (sy_con s) = (r, c)" by force
  show "co_table (sy_con s') = co_table (sy_con s)"
    using d b a apply_package_frame(3) [OF a] by (auto simp: do_apply_def split: sum.splits)
next
  assume d: "do_evict s = Went obs s'"
  have "fold evict_node gone t = fold ft_step (map EvEvictNode gone) t" for gone t by (induction gone arbitrary: t) simp_all
  then have "\<exists>es. list_all is_traffic es \<and> fold evict_node gone t = fold ft_step es t" for gone t
    by (intro exI [of _ "map EvEvictNode gone"]) (simp add: list_all_iff is_traffic_def)
  then show "step_changes LEvict s (co_table (sy_con s)) (co_table (sy_con s'))"
    using d by (auto simp: do_evict_def split: beat.splits intro!: step_changes_traffic)
next
  assume d: "do_reconcile env next_id clock s = Went obs s'"
  have "list_all (step_operation (LEndDropped next_id clock) s) (reconcile_events old new)" for old new
    by (auto simp: reconcile_events_def list_all_iff step_operation_def)
  then show "step_changes (LEndDropped next_id clock) s (co_table (sy_con s)) (co_table (sy_con s'))"
    using d unfolding step_changes_def
    by (auto simp: do_reconcile_def end_dropped_table split: beat.splits option.split intro: exI [of _ "[]"])
next
  assume d: "do_rules env clock s = Went obs s'"
  have "list_all (step_operation (LEndUnserved clock) s) (rule_events bundles now)" for bundles now
    by (auto simp: rule_events_def list_all_iff step_operation_def)
  then show "step_changes (LEndUnserved clock) s (co_table (sy_con s)) (co_table (sy_con s'))"
    using d unfolding step_changes_def by (auto simp: do_rules_def split: beat.splits)
qed

lemma dispatch_step_changes:
  fixes s :: "'t system"
  assumes "dispatch_to env mo n poller message s = Went obs s'"
    and "\<And>f. step_operation l s (EvRelease f (mo_now mo))"
  shows "step_changes l s (co_table (sy_con s)) (co_table (sy_con s'))"
proof -
  have "step_changes l s t (release f (mo_now mo) t)" for f t
    using step_changes_one [of l s "EvRelease f (mo_now mo)" t] assms(2) by simp
  moreover have "co_table (sy_con s') = co_table (sy_con s) \<or>
      (\<exists>f. co_table (sy_con s') = release f (mo_now mo) (co_table (sy_con s)))"
    using assms(1)
    by (auto simp: dispatch_to_def with_plane_def plane_of_def handle_release_def split: option.splits if_splits)
  ultimately show ?thesis by auto
qed

lemma message_step_changes:
  "do_message env mo n message s = Went obs s' \<Longrightarrow>
     step_changes (LMessage mo n message) s (co_table (sy_con s)) (co_table (sy_con s'))"
  "do_late_message env mo k message s = Went obs s' \<Longrightarrow>
     step_changes (LLateMessage mo k message) s (co_table (sy_con s)) (co_table (sy_con s'))"
  by (auto simp: do_message_def do_late_message_def step_operation_def split: option.splits if_splits
      intro: dispatch_step_changes)

lemma sys_step_changes:
  assumes "sys_step env l s = Went obs s'"
  shows "step_changes l s (co_table (sy_con s)) (co_table (sy_con s'))"
proof (cases l)
  case (LExchange net clock)
  then show ?thesis using beat_step_changes(1) [of env net clock s obs s'] assms by simp
next
  case (LApplyPackage clock)
  then show ?thesis using beat_step_changes(2) [of env clock s obs s'] assms by simp
next
  case (LMessage mo n message)
  then show ?thesis using message_step_changes(1) assms by simp
next
  case (LLateMessage mo k message)
  then show ?thesis using message_step_changes(2) assms by simp
next
  case (LWork mo i)
  then show ?thesis
    using assms work_step_changes [of "control_env_of env" mo _ _ s i]
    by (auto simp: do_work_def Let_def with_plane_def split: if_splits option.splits)
next
  case (LPollConnect n connection)
  then show ?thesis
    using assms connect_registered_event [of n connection "co_table (sy_con s)"]
    by (intro step_changes_traffic) (auto simp: do_poll_connect_def split: if_splits)
next
  case (LGate now)
  then obtain n packet vip effects table where "forward_to_tun (hs_tunn (se_host env)) (V4 vip) (co_cache (sy_con s)) now n packet
      (co_table (sy_con s)) = Some (effects, table)" "co_table (sy_con s') = table"
    using assms by (auto simp: do_gate_def split: option.splits)
  then show ?thesis using forward_to_tun_events by (intro step_changes_traffic) blast
next
  case (LTun packet)
  then show ?thesis using assms tun_turn_table by (fastforce simp: do_tun_def split: if_splits option.splits)
next
  case (LDatagram datagram src)
  then have "co_table (sy_con s') = co_table (sy_con s)" using assms
    by (auto simp: do_datagram_def Let_def split_beta split: if_splits option.splits tunnel_event.splits)
  then show ?thesis by simp
qed (use assms beat_step_changes(3-5) in \<open>auto simp: do_sync_def do_poll_sync_def do_refresh_def do_recovered_def do_timer_def
    do_drop_poller_def do_drop_work_def timer_turn_def Let_def split_beta split: beat.splits if_splits list.splits\<close>)

section \<open>The package in force and what the daemon serves of it\<close>

text \<open>Before the first package the daemon serves nothing.\<close>

definition policy_of :: "policy_store \<Rightarrow> policy_state" where
  "policy_of store = (case store of
     Some state \<Rightarrow> state
   | None \<Rightarrow> \<lparr>ps_connector_id = [], ps_generated_at = [], ps_expires_at = [], ps_policy_bundles = [], ps_node_list = []\<rparr>)"

definition carried :: "heartbeat_response \<Rightarrow> policy_state" where
  "carried response = \<lparr>ps_connector_id = hr_connector_id response, ps_generated_at = hr_generated_at response,
     ps_expires_at = hr_expires_at response, ps_policy_bundles = hr_policy_bundles response,
     ps_node_list = hr_node_list response\<rparr>"

definition tunnels_to :: "policy_state \<Rightarrow> 't connector \<Rightarrow> bool" where
  "tunnels_to policy c \<longleftrightarrow> (\<forall>n. tunnel_for (co_manager c) n \<noteq> None \<longrightarrow> n \<in> listed (ps_node_list policy))"

definition polled_by :: "policy_state \<Rightarrow> 't connector \<Rightarrow> bool" where
  "polled_by policy c \<longleftrightarrow> (\<forall>n. (hm_get (pl_tasks (co_pollers c)) n \<noteq> None \<longleftrightarrow>
       \<not> is_blank (ps_connector_id policy) \<and> n \<in> hn_node_id ` set (ps_node_list policy)) \<and>
     (\<forall>poller. hm_get (pl_tasks (co_pollers c)) n = Some poller \<longrightarrow> pt_connector_id poller = ps_connector_id policy))"

definition ruled_by :: "policy_state \<Rightarrow> 't connector \<Rightarrow> bool" where
  "ruled_by policy c \<longleftrightarrow> (\<forall>g. current_rules g (co_table c) = rules_of (ps_policy_bundles policy) g)"

definition cached_for :: "policy_state \<Rightarrow> 't connector \<Rightarrow> bool" where
  "cached_for policy c \<longleftrightarrow> (\<forall>h. hm_get (co_cache c) h \<noteq> None \<longrightarrow> h \<in> set (collect_endpoint_hosts (ps_policy_bundles policy)))"

text \<open>The package a heartbeat is putting in force, and how many of the first three it has brought over.\<close>

fun progress :: "beat \<Rightarrow> (heartbeat_response \<times> nat) option" where
  "progress (BeatApplied _ response) = Some (response, 0)"
| "progress (BeatSynced _ response _ _) = Some (response, 1)"
| "progress (BeatEvicted _ response) = Some (response, 1)"
| "progress (BeatPolled _ response) = Some (response, 2)"
| "progress (BeatReconciled response) = Some (response, 2)"
| "progress (BeatRuled response) = Some (response, 3)"
| "progress _ = None"

definition serving :: "beat \<Rightarrow> 't connector \<Rightarrow> bool" where
  "serving b c \<longleftrightarrow> (case progress b of
     None \<Rightarrow> (let policy = policy_of (co_store c) in
       tunnels_to policy c \<and> polled_by policy c \<and> ruled_by policy c \<and> cached_for policy c)
   | Some (response, k) \<Rightarrow> co_store c = Some (carried response) \<and> (1 \<le> k \<longrightarrow> tunnels_to (carried response) c) \<and>
       (2 \<le> k \<longrightarrow> polled_by (carried response) c) \<and> (3 \<le> k \<longrightarrow> ruled_by (carried response) c))"

lemma serving_new: "serving BeatIdle (connector_new from_slice queue_file)"
  by (simp add: serving_def connector_new_def policy_of_def policy_store_new_def tunnels_to_def polled_by_def ruled_by_def
      cached_for_def tunnel_for_def tunnel_manager_new_def pollers_new_def current_rules_def flow_table_new_def
      rules_of_def dns_new_def)

section \<open>Steps that bring nothing over\<close>

definition same_service :: "'t connector \<Rightarrow> 't connector \<Rightarrow> bool" where
  "same_service c c' \<longleftrightarrow> co_store c' = co_store c \<and> co_pollers c' = co_pollers c \<and> co_cache c' = co_cache c \<and>
     (\<forall>n. tunnel_for (co_manager c') n \<noteq> None \<longrightarrow> tunnel_for (co_manager c) n \<noteq> None) \<and>
     (\<forall>g. current_rules g (co_table c') = current_rules g (co_table c))"

lemma same_service_pieces:
  assumes "same_service c c'"
  shows "tunnels_to policy c \<Longrightarrow> tunnels_to policy c'" "polled_by policy c' \<longleftrightarrow> polled_by policy c"
    "ruled_by policy c' \<longleftrightarrow> ruled_by policy c" "cached_for policy c' \<longleftrightarrow> cached_for policy c"
proof -
  note same = assms [unfolded same_service_def]
  show "tunnels_to policy c \<Longrightarrow> tunnels_to policy c'" using same unfolding tunnels_to_def by blast
  show "polled_by policy c' \<longleftrightarrow> polled_by policy c" "ruled_by policy c' \<longleftrightarrow> ruled_by policy c"
    "cached_for policy c' \<longleftrightarrow> cached_for policy c"
    using same by (simp_all add: polled_by_def ruled_by_def cached_for_def)
qed

lemma serving_kept: "serving b c \<Longrightarrow> same_service c c' \<Longrightarrow> progress b' = progress b \<Longrightarrow> serving b' c'"
  using same_service_pieces [of c c'] unfolding serving_def same_service_def Let_def by (auto split: option.splits prod.splits)

lemma step_operation_rules:
  assumes "step_operation l s e" "\<And>clock. l \<noteq> LEndUnserved clock"
  shows "e \<noteq> EvUpdateRules g rules now" "e \<noteq> EvRetainRules gs"
  using assms by (cases l; auto simp: step_operation_def is_traffic_def admission_event_def)+

lemma step_changes_rules:
  assumes "step_changes l s t t'" "ft_inv t" "\<And>clock. l \<noteq> LEndUnserved clock"
  shows "current_rules g t' = current_rules g t"
proof -
  obtain es where es: "t' = fold ft_step es t" "list_all (step_operation l s) es"
    using assms(1) unfolding step_changes_def by blast
  have "list_all (\<lambda>e. (\<forall>g rules now. e \<noteq> EvUpdateRules g rules now) \<and> (\<forall>gs. e \<noteq> EvRetainRules gs)) es"
    using es(2) step_operation_rules [OF _ assms(3)] unfolding list_all_iff by blast
  from at_rules_same [OF this, of "admissions t"] have "at_rules (admissions t') = at_rules (admissions t)"
    unfolding es(1) ft_run.simulates_run [OF assms(2)] .
  then show ?thesis by (metis admissions_sel(2) current_rules_def)
qed

lemma put_tunnel_within:
  assumes "tm_inv m" "tunnel_for m n = Some tunnel" "nt_node_id tunnel' = nt_node_id tunnel"
  shows "tunnel_for (put_tunnel tunnel' m) k \<noteq> None \<longrightarrow> tunnel_for m k \<noteq> None"
proof -
  have "nt_node_id tunnel' = n" using tunnel_for_inv [OF assms(1,2)] assms(3) by simp
  then show ?thesis using assms(2) by (simp add: put_tunnel_def tunnel_for_def hm_simps)
qed

lemma tun_turn_within:
  assumes "tun_turn lib packet (m, t) = Some (effects, m', t')" "tm_inv m"
  shows "tunnel_for m' n \<noteq> None \<longrightarrow> tunnel_for m n \<noteq> None"
proof (cases "m' = m")
  case False
  then obtain k tunnel r where t: "tunnel_for m k = Some tunnel"
    and m: "m' = put_tunnel (snd (encapsulate (tl_encapsulate lib) r tunnel)) m"
    using assms(1) by (auto simp: tun_turn_def Let_def split_beta split: option.splits)
  show ?thesis
    unfolding m by (rule put_tunnel_within [OF assms(2) t]) (simp add: encapsulate_def split_beta)
qed simp

lemma datagram_within:
  assumes "do_datagram env datagram src s = Went obs s'" "tm_inv (co_manager (sy_con s))"
  shows "tunnel_for (co_manager (sy_con s')) n \<noteq> None \<longrightarrow> tunnel_for (co_manager (sy_con s)) n \<noteq> None"
proof (cases "tunnel_for_addr (co_manager (sy_con s)) src")
  case None
  then show ?thesis using assms(1) by (auto simp: do_datagram_def split: if_splits)
next
  case (Some tunnel)
  then have m: "co_manager (sy_con s') = put_tunnel (snd (receive_datagram (tl_decapsulate (hs_tunn (se_host env))) datagram tunnel))
      (co_manager (sy_con s))"
    using assms(1) by (auto simp: do_datagram_def Let_def split_beta split: if_splits tunnel_event.splits)
  have t: "tunnel_for (co_manager (sy_con s)) (nt_node_id tunnel) = Some tunnel"
    using tunnel_for_addr_Some [OF assms(2) Some] by blast
  show ?thesis
    unfolding m by (rule put_tunnel_within [OF assms(2) t]) (simp add: receive_datagram_def split_beta)
qed

lemma timer_within:
  assumes "timer_turn lib (m, t) = Some (effects, m', t')"
  shows "tunnel_for m' n \<noteq> None \<longrightarrow> tunnel_for m n \<noteq> None"
  using assms by (auto simp: timer_turn_def drive_all_timers_def tunnel_for_def split_beta drive_tunnels_get)

text \<open>The steps that are not a heartbeat's.\<close>

definition is_beat :: "sys_label \<Rightarrow> bool" where
  "is_beat l = (case l of
     LExchange _ _ \<Rightarrow> True | LApplyPackage _ \<Rightarrow> True | LSync \<Rightarrow> True | LEvict \<Rightarrow> True | LPollSync \<Rightarrow> True
   | LEndDropped _ _ \<Rightarrow> True | LEndUnserved _ \<Rightarrow> True | LRefresh _ \<Rightarrow> True | _ \<Rightarrow> False)"

lemma other_step_service:
  assumes "sys_step env l s = Went obs s'" "sys_ok env s" "\<not> is_beat l"
  shows "same_service (sy_con s) (sy_con s')" "sy_beat s' = sy_beat s"
proof -
  note ok = connector_ok_parts [OF assms(2) [unfolded sys_ok_def]]
  have rules: "current_rules g (co_table (sy_con s')) = current_rules g (co_table (sy_con s))" for g
    by (rule step_changes_rules [OF sys_step_changes [OF assms(1)] ok(2)]) (use assms(3) in \<open>auto simp: is_beat_def\<close>)
  have within: "tunnel_for (co_manager (sy_con s')) n \<noteq> None \<longrightarrow> tunnel_for (co_manager (sy_con s)) n \<noteq> None" for n
  proof (cases l)
    case (LDatagram datagram src)
    then show ?thesis using datagram_within [OF _ ok(1)] assms(1) by simp
  next
    case (LTun packet)
    then show ?thesis using tun_turn_within [OF _ ok(1)] assms(1) by (auto simp: do_tun_def split: if_splits option.splits)
  next
    case LTimer
    then obtain effects manager table where t: "timer_turn (hs_tunn (se_host env)) (co_manager (sy_con s), co_table (sy_con s)) =
        Some (effects, manager, table)" "co_manager (sy_con s') = manager"
      using assms(1) by (auto simp: do_timer_def split: if_splits option.splits)
    show ?thesis using timer_within [OF t(1)] t(2) by simp
  qed (use assms(1,3) in \<open>auto simp: is_beat_def do_poll_connect_def poller_step_defs do_work_def do_recovered_def do_gate_def
      with_plane_def Let_def split: if_splits option.splits list.splits prod.splits\<close>)
  have rest: "co_store (sy_con s') = co_store (sy_con s) \<and> co_pollers (sy_con s') = co_pollers (sy_con s) \<and>
      co_cache (sy_con s') = co_cache (sy_con s) \<and> sy_beat s' = sy_beat s"
  proof (cases l)
    case (LDatagram datagram src)
    then show ?thesis using assms(1)
      by (auto simp: do_datagram_def Let_def split_beta split: if_splits option.splits tunnel_event.splits)
  qed (use assms(1,3) in \<open>auto simp: is_beat_def do_poll_connect_def poller_step_defs do_work_def do_recovered_def do_gate_def
      do_tun_def do_timer_def with_plane_def Let_def split: if_splits option.splits list.splits prod.splits\<close>)
  show "same_service (sy_con s) (sy_con s')" "sy_beat s' = sy_beat s"
    using rules within rest by (simp_all add: same_service_def)
qed

section \<open>The steps of a heartbeat\<close>

lemma exchange_serving:
  assumes "do_exchange env net clock s = Went obs s'" "serving (sy_beat s) (sy_con s)"
  shows "serving (sy_beat s') (sy_con s')"
proof -
  obtain r c where e: "exchange_heartbeat ((se_host env)\<lparr>hs_net := net\<rparr>) clock (se_public_key env) (sy_con s) = (r, c)"
    by force
  have idle: "sy_beat s = BeatIdle" using assms(1) by (simp add: do_exchange_def split: if_splits)
  have s': "sy_con s' = c" "progress (sy_beat s') = None"
    using assms(1) e idle by (auto simp: do_exchange_def Let_def split: sum.splits)
  have "same_service (sy_con s) c" using exchange_frame [OF e] by (simp add: same_service_def)
  from serving_kept [OF assms(2) this] show ?thesis using idle s' by simp
qed

lemma applied_package:
  assumes "apply_package host clock response c = (r, c')"
  shows "co_store c' = (case r of Inl _ \<Rightarrow> co_store c | Inr _ \<Rightarrow> Some (carried response))"
  using apply_package_frame(1) [OF assms] by (auto simp: apply_at_def carried_def split: option.splits if_splits)

lemma apply_serving:
  assumes "do_apply env clock s = Went obs s'" "serving (sy_beat s) (sy_con s)"
  shows "serving (sy_beat s') (sy_con s')"
proof -
  obtain old_bundles response where b: "sy_beat s = BeatAnswered old_bundles response"
    using assms(1) by (cases "sy_beat s") (simp_all add: do_apply_def)
  obtain r c where a: "apply_package (se_host env) clock response (sy_con s) = (r, c)" by force
  note f = apply_package_frame [OF a] and store = applied_package [OF a]
  show ?thesis
  proof (cases r)
    case (Inl e)
    then have s': "sy_con s' = c" "progress (sy_beat s') = None" using assms(1) b a by (auto simp: do_apply_def)
    have "same_service (sy_con s) c" using f store Inl by (simp add: same_service_def)
    from serving_kept [OF assms(2) this] show ?thesis using b s' by simp
  next
    case (Inr u)
    then show ?thesis using assms(1) b a store by (auto simp: do_apply_def serving_def)
  qed
qed

lemma sync_serving:
  assumes "do_sync env s = Went obs s'" "serving (sy_beat s) (sy_con s)" "sys_ok env s"
  shows "serving (sy_beat s') (sy_con s')"
proof -
  obtain old_bundles response where b: "sy_beat s = BeatApplied old_bundles response"
    using assms(1) by (cases "sy_beat s") (simp_all add: do_sync_def)
  have tm: "tm_inv (co_manager (sy_con s))" using connector_ok_parts(1) assms(3) by (auto simp: sys_ok_def)
  let ?synced = "snd (sync_nodes (hs_decode_base64 (se_host env)) (hs_new_tunn (se_host env)) (hr_node_list response)
    (co_manager (sy_con s)))"
  have s': "sy_con s' = (sy_con s)\<lparr>co_manager := snd (dial_nodes (hs_tunn (se_host env)) (hr_node_list response) ?synced)\<rparr>"
    "progress (sy_beat s') = Some (response, 1)"
    using assms(1) b by (auto simp: do_sync_def Let_def split_beta)
  have "tunnels_to (carried response) (sy_con s')"
    using sync_nodes_gone [OF tm] unfolding tunnels_to_def s'(1) by (force simp: carried_def)
  then show ?thesis using assms(2) b s' by (simp add: serving_def)
qed

lemma evict_serving:
  assumes "do_evict s = Went obs s'" "serving (sy_beat s) (sy_con s)" "ft_inv (co_table (sy_con s))"
  shows "serving (sy_beat s') (sy_con s')"
proof -
  obtain old_bundles response gone effects where b: "sy_beat s = BeatSynced old_bundles response gone effects"
    using assms(1) by (auto simp: do_evict_def split: beat.splits)
  have "current_rules g (co_table (sy_con s')) = current_rules g (co_table (sy_con s))" for g
    using step_changes_rules [OF beat_step_changes(3) [OF assms(1)] assms(3)] by simp
  then have "same_service (sy_con s) (sy_con s')" using assms(1) b by (auto simp: do_evict_def same_service_def)
  from serving_kept [OF assms(2) this] show ?thesis using assms(1) b by (auto simp: do_evict_def)
qed

lemma poll_sync_serving:
  assumes "do_poll_sync s = Went obs s'" "serving (sy_beat s) (sy_con s)" "pollers_ok (co_pollers (sy_con s))"
  shows "serving (sy_beat s') (sy_con s')"
proof -
  obtain old_bundles response where b: "sy_beat s = BeatEvicted old_bundles response"
    using assms(1) by (auto simp: do_poll_sync_def split: beat.splits)
  have s': "sy_con s' = (sy_con s)\<lparr>co_pollers := sync_pollers (hr_connector_id response) (hr_node_list response) (co_pollers (sy_con s))\<rparr>"
    "sy_beat s' = BeatPolled old_bundles response"
    using assms(1) b by (auto simp: do_poll_sync_def Let_def)
  have "polled_by (carried response) (sy_con s')"
    using pollers_follow_the_node_list [OF assms(3), of "hr_connector_id response" "hr_node_list response"]
    unfolding polled_by_def s' by (simp add: carried_def)
  then show ?thesis using assms(2) b s' by (simp add: serving_def tunnels_to_def)
qed

lemma reconcile_serving:
  assumes "do_reconcile env next_id clock s = Went obs s'" "serving (sy_beat s) (sy_con s)" "ft_inv (co_table (sy_con s))"
  shows "serving (sy_beat s') (sy_con s')"
proof -
  obtain old_bundles response where b: "sy_beat s = BeatPolled old_bundles response"
    using assms(1) by (auto simp: do_reconcile_def split: beat.splits)
  have "current_rules g (co_table (sy_con s')) = current_rules g (co_table (sy_con s))" for g
    using step_changes_rules [OF beat_step_changes(4) [OF assms(1)] assms(3)] by simp
  then have "same_service (sy_con s) (sy_con s')" using assms(1) b by (auto simp: do_reconcile_def same_service_def)
  from serving_kept [OF assms(2) this] show ?thesis using assms(1) b by (auto simp: do_reconcile_def)
qed

lemma rules_serving:
  assumes "do_rules env clock s = Went obs s'" "serving (sy_beat s) (sy_con s)" "ft_inv (co_table (sy_con s))"
  shows "serving (sy_beat s') (sy_con s')"
proof -
  obtain response where b: "sy_beat s = BeatReconciled response"
    using assms(1) by (auto simp: do_rules_def split: beat.splits)
  have s': "sy_con s' = end_unserved_flows (se_host env) clock (hr_policy_bundles response) (sy_con s)" "sy_beat s' = BeatRuled response"
    using assms(1) b by (auto simp: do_rules_def)
  have "at_rules (admissions (co_table (sy_con s'))) g = rules_of (hr_policy_bundles response) g" for g
    unfolding s' end_unserved_frame ft_run.simulates_run [OF assms(3)] by (rule rule_events_rules)
  then have "ruled_by (carried response) (sy_con s')" by (simp add: ruled_by_def current_rules_def carried_def)
  then show ?thesis using assms(2) b s' by (simp add: serving_def tunnels_to_def polled_by_def)
qed

lemma refresh_serving:
  assumes "do_refresh lookup s = Went obs s'" "serving (sy_beat s) (sy_con s)" "dns_inv (co_cache (sy_con s))"
  shows "serving (sy_beat s') (sy_con s')"
proof -
  obtain response where b: "sy_beat s = BeatRuled response"
    using assms(1) by (auto simp: do_refresh_def split: beat.splits)
  have s': "sy_con s' = (sy_con s)\<lparr>co_cache := dns_refresh lookup (collect_endpoint_hosts (hr_policy_bundles response)) (co_cache (sy_con s))\<rparr>"
    "sy_beat s' = BeatIdle"
    using assms(1) b by (auto simp: do_refresh_def Let_def)
  have "cached_for (carried response) (sy_con s')"
    using dns_refresh_get [OF assms(3), of lookup "collect_endpoint_hosts (hr_policy_bundles response)"]
    unfolding cached_for_def s' by (auto simp: carried_def split: if_splits)
  then show ?thesis
    using assms(2) b s' by (simp add: serving_def policy_of_def tunnels_to_def polled_by_def ruled_by_def)
qed

lemma sys_step_serving:
  assumes "sys_step env l s = Went obs s'" "serving (sy_beat s) (sy_con s)" "sys_ok env s"
  shows "serving (sy_beat s') (sy_con s')"
proof (cases "is_beat l")
  case False
  from other_step_service [OF assms(1,3) False] serving_kept [OF assms(2)] show ?thesis by simp
next
  case True
  have "ft_inv (co_table (sy_con s))" "pollers_ok (co_pollers (sy_con s))" "dns_inv (co_cache (sy_con s))"
    using assms(3) by (simp_all add: sys_ok_def connector_ok_def dp_inv_def)
  note steps = exchange_serving [OF _ assms(2)] apply_serving [OF _ assms(2)] sync_serving [OF _ assms(2,3)]
    evict_serving [OF _ assms(2) this(1)] poll_sync_serving [OF _ assms(2) this(2)] reconcile_serving [OF _ assms(2) this(1)]
    rules_serving [OF _ assms(2) this(1)] refresh_serving [OF _ assms(2) this(3)]
  show ?thesis using True assms(1) by (cases l) (simp_all add: is_beat_def steps)
qed

lemma sys_run_serving:
  assumes "sys_run guard env (system_new from_slice queue_file) shown s"
  shows "serving (sy_beat s) (sy_con s)"
  using assms
proof (induction rule: sys_run.induct)
  case sys_run_nil
  show ?case using serving_new by (simp add: system_new_def)
next
  case (sys_run_step shown s' l obs s'')
  have "sys_ok env s'" by (rule sys_run_ok [OF sys_run_step.hyps(1) sys_ok_new])
  from sys_step_serving [OF sys_run_step.hyps(3) sys_run_step.IH this] show ?case .
qed

text \<open>
  C7: however the daemon's tasks interleave and its heartbeats fail or succeed, between
  heartbeats tunnels lead only to nodes the policy in force lists with a key, exactly its
  nodes have a poller (none when its connector id is blank), every gateway's current rules are
  its rules, and only its hosts have a cached address; every admission in flight belongs to
  the current poller of one of its nodes, under its connector id, or to a poller that was
  aborted, which the runtime is about to drop or has dropped. Before the first policy there
  are no tunnels, pollers, rules or cached addresses
\<close>

theorem daemon_serves_the_policy_in_force:
  assumes "sys_run guard env (system_new from_slice queue_file) shown s" "sy_beat s = BeatIdle"
  shows "let policy = policy_of (co_store (sy_con s)); nodes = hn_node_id ` set (ps_node_list policy) in
    (tunnel_for (co_manager (sy_con s)) n \<noteq> None \<longrightarrow> n \<in> listed (ps_node_list policy)) \<and>
    (hm_get (pl_tasks (co_pollers (sy_con s))) n \<noteq> None \<longleftrightarrow> \<not> is_blank (ps_connector_id policy) \<and> n \<in> nodes) \<and>
    (\<forall>task \<in> set (sy_work s).
       still_runs (co_pollers (sy_con s)) task \<and> wk_node task \<in> nodes \<and>
         pt_connector_id (wk_poller task) = ps_connector_id policy \<or>
       (wk_node task, wk_poller task) \<in> set (sy_stopping s) \<or> poller_gone s (wk_node task) (wk_poller task)) \<and>
    current_rules g (co_table (sy_con s)) = rules_of (ps_policy_bundles policy) g \<and>
    (hm_get (co_cache (sy_con s)) h \<noteq> None \<longrightarrow> h \<in> set (collect_endpoint_hosts (ps_policy_bundles policy)))"
proof -
  let ?policy = "policy_of (co_store (sy_con s))"
  have served: "tunnels_to ?policy (sy_con s)" "polled_by ?policy (sy_con s)" "ruled_by ?policy (sy_con s)"
    "cached_for ?policy (sy_con s)"
    using sys_run_serving [OF assms(1)] assms(2) by (simp_all add: serving_def Let_def)
  have "tasks_owned s" using sys_run_tasks_owned [OF assms(1) sys_ok_new tasks_owned_new] by blast
  moreover have "wk_node task \<in> hn_node_id ` set (ps_node_list ?policy) \<and>
      pt_connector_id (wk_poller task) = ps_connector_id ?policy" if "still_runs (co_pollers (sy_con s)) task" for task
    using served(2) that unfolding still_runs_def polled_by_def by blast
  ultimately have "\<forall>task \<in> set (sy_work s).
       still_runs (co_pollers (sy_con s)) task \<and> wk_node task \<in> hn_node_id ` set (ps_node_list ?policy) \<and>
         pt_connector_id (wk_poller task) = ps_connector_id ?policy \<or>
       (wk_node task, wk_poller task) \<in> set (sy_stopping s) \<or> poller_gone s (wk_node task) (wk_poller task)"
    unfolding tasks_owned_def poller_gone_def poller_runs_def still_runs_def by blast
  then show ?thesis
    using served unfolding Let_def tunnels_to_def polled_by_def ruled_by_def cached_for_def by blast
qed

section \<open>A package that is applied gets in force\<close>

text \<open>The heartbeat's own steps that are left once its package is applied.\<close>

fun steps_left :: "beat \<Rightarrow> nat" where
  "steps_left (BeatApplied _ _) = 6"
| "steps_left (BeatSynced _ _ _ _) = 5"
| "steps_left (BeatEvicted _ _) = 4"
| "steps_left (BeatPolled _ _) = 3"
| "steps_left (BeatReconciled _) = 2"
| "steps_left (BeatRuled _) = 1"
| "steps_left _ = 0"

definition under_way :: "heartbeat_response \<Rightarrow> nat \<Rightarrow> 't system \<Rightarrow> bool" where
  "under_way response k s \<longleftrightarrow> co_store (sy_con s) = Some (carried response) \<and> steps_left (sy_beat s) = k \<and>
     (if k = 0 then sy_beat s = BeatIdle else map_option fst (progress (sy_beat s)) = Some response)"

lemma beat_can_step:
  assumes "progress (sy_beat s) = Some (response, k)"
  shows "\<exists>l obs s'. is_beat l \<and> sys_step env l s = Went obs s'"
proof (cases "sy_beat s")
  case (BeatApplied old_bundles r)
  then show ?thesis by (intro exI [of _ LSync]) (simp add: is_beat_def do_sync_def Let_def split_beta)
next
  case (BeatSynced old_bundles r gone effects)
  then show ?thesis by (intro exI [of _ LEvict]) (simp add: is_beat_def do_evict_def)
next
  case (BeatEvicted old_bundles r)
  then show ?thesis by (intro exI [of _ LPollSync]) (simp add: is_beat_def do_poll_sync_def Let_def)
next
  case (BeatPolled old_bundles r)
  then show ?thesis by (intro exI [of _ "LEndDropped undefined undefined"]) (simp add: is_beat_def do_reconcile_def)
next
  case (BeatReconciled r)
  then show ?thesis by (intro exI [of _ "LEndUnserved undefined"]) (simp add: is_beat_def do_rules_def)
next
  case (BeatRuled r)
  then show ?thesis by (intro exI [of _ "LRefresh undefined"]) (simp add: is_beat_def do_refresh_def Let_def)
qed (use assms in simp_all)

lemma under_way_beat:
  assumes "sys_step env l s = Went obs s'" "is_beat l" "under_way response (Suc k) s"
  shows "under_way response k s'"
proof -
  have "steps_left (sy_beat s) = Suc k" using assms(3) by (simp add: under_way_def)
  then show ?thesis
    using assms
    by (cases "sy_beat s"; cases l)
      (auto simp: is_beat_def under_way_def do_exchange_def do_apply_def do_sync_def do_evict_def do_poll_sync_def
        do_reconcile_def do_rules_def do_refresh_def Let_def split_beta)
qed

lemma under_way_other:
  assumes "sys_step env l s = Went obs s'" "\<not> is_beat l" "sys_ok env s"
  shows "under_way response k s' \<longleftrightarrow> under_way response k s"
  using other_step_service [OF assms(1,3,2)] by (simp add: under_way_def same_service_def)

lemma under_way_exec:
  "sys_exec any_step env ls s = Some (further, s') \<Longrightarrow> sys_ok env s \<Longrightarrow> under_way response (length (filter is_beat ls) + k) s \<Longrightarrow>
     under_way response k s'"
proof (induction ls arbitrary: s further)
  case (Cons l ls)
  then obtain obs s1 rest where l: "sys_step env l s = Went obs s1" "sys_exec any_step env ls s1 = Some (rest, s')"
    by (auto split: outcome.splits)
  have ok: "sys_ok env s1" using sys_step_goes_well [OF Cons.prems(2), of l] l(1) by simp
  have "under_way response (length (filter is_beat ls) + k) s1"
    using Cons.prems(3) under_way_beat [OF l(1)] under_way_other [OF l(1) _ Cons.prems(2)]
    by (cases "is_beat l") simp_all
  from Cons.IH [OF l(2) ok this] show ?case .
qed simp

text \<open>
  C5: once a heartbeat has applied its package it always has a next step it can take, and
  after at most six of its own, whatever the other tasks do in between, the package is in
  force in every component: in the store, tunnels only to its nodes, a poller for exactly its
  nodes under its connector id (none at all when that id is blank), its rules as every
  gateway's current ones, cached addresses only of its hosts
\<close>

theorem applied_package_gets_in_force:
  assumes "sys_run any_step env (system_new from_slice queue_file) shown s"
    and "progress (sy_beat s) = Some (response, k)"
  shows "(\<exists>l obs s'. is_beat l \<and> sys_step env l s = Went obs s') \<and>
    (\<forall>ls further s'. sys_exec any_step env ls s = Some (further, s') \<and> length (filter is_beat ls) = steps_left (sy_beat s) \<longrightarrow>
       sy_beat s' = BeatIdle \<and> co_store (sy_con s') = Some (carried response) \<and>
       tunnels_to (carried response) (sy_con s') \<and> polled_by (carried response) (sy_con s') \<and>
       ruled_by (carried response) (sy_con s') \<and> cached_for (carried response) (sy_con s'))"
proof (intro conjI allI impI)
  show "\<exists>l obs s'. is_beat l \<and> sys_step env l s = Went obs s'" by (rule beat_can_step [OF assms(2)])
next
  fix ls further s'
  assume e: "sys_exec any_step env ls s = Some (further, s') \<and> length (filter is_beat ls) = steps_left (sy_beat s)"
  have "steps_left (sy_beat s) \<noteq> 0" using assms(2) by (cases "sy_beat s") simp_all
  then have "under_way response (length (filter is_beat ls) + 0) s"
    using e assms(2) sys_run_serving [OF assms(1)] by (simp add: under_way_def serving_def)
  from under_way_exec [OF conjunct1 [OF e] sys_run_ok [OF assms(1) sys_ok_new] this]
  have u: "sy_beat s' = BeatIdle" "co_store (sy_con s') = Some (carried response)" by (simp_all add: under_way_def)
  have "sys_run any_step env (system_new from_slice queue_file) (shown @ further) s'"
    using sys_run_append_exec [OF assms(1)] e by blast
  from sys_run_serving [OF this] u show "sy_beat s' = BeatIdle" "co_store (sy_con s') = Some (carried response)"
    "tunnels_to (carried response) (sy_con s')" "polled_by (carried response) (sy_con s')"
    "ruled_by (carried response) (sy_con s')" "cached_for (carried response) (sy_con s')"
    by (simp_all add: serving_def policy_of_def Let_def)
qed

end
