(* ===== verification/System_Earned.thy ===== *)
theory System_Earned
  imports System_Serving System_Traffic
begin

text \<open>
  What every forwarded packet rests on, whatever the interleaving: a request that proved a key which the
  policy then in force entitled. \<open>System_Traffic\<close> says more of the policy now in force, and needs for it
  that no package is applied between an admission's decision and its recording; here nothing is asked.
\<close>

section \<open>A proof on record\<close>

text \<open>A step of the run so far decided the request: it proved the key, entitled at that moment.\<close>

definition proved_before ::
  "(sys_label \<Rightarrow> 't system \<Rightarrow> bool) \<Rightarrow> 't sys_env \<Rightarrow> 't system \<Rightarrow> 't system \<Rightarrow> flow_admission_request \<Rightarrow> string \<Rightarrow> bool" where
  "proved_before guard env s0 s request key \<longleftrightarrow> (\<exists>shown1 s1 mo i obs s2 shown2 rules.
     sys_run guard env s0 shown1 s1 \<and> i < length (sy_work s1) \<and> wk_work (sy_work s1 ! i) = DecideFlow request \<and>
     entitled (control_env_of env) (co_store (sy_con s1)) request (mo_utc mo) key rules \<and>
     sys_step env (LWork mo i) s1 = Went obs s2 \<and> sys_run guard env s2 shown2 s)"

lemma proved_before_step:
  assumes "proved_before guard env s0 s request key" "guard l s" "sys_step env l s = Went obs s'"
  shows "proved_before guard env s0 s' request key"
proof -
  have "sys_run guard env s2 (shown2 @ obs) s'" if "sys_run guard env s2 shown2 s" for s2 shown2
    using sys_run_step that assms(2,3) by metis
  then show ?thesis using assms(1) unfolding proved_before_def by metis
qed

text \<open>The flow an admission request asks for.\<close>

definition asks_for :: "flow_admission_request \<Rightarrow> flow_key \<Rightarrow> admitted_flow \<Rightarrow> bool" where
  "asks_for request key flow \<longleftrightarrow> key = flow_key_new (fa_node_id request) (fa_port request) (request_dialled request) \<and>
     af_gateway_id flow = fa_gateway_id request \<and> af_flow_id flow = fa_flow_id request"

definition earned :: "(sys_label \<Rightarrow> 't system \<Rightarrow> bool) \<Rightarrow> 't sys_env \<Rightarrow> 't system \<Rightarrow> 't system \<Rightarrow> bool" where
  "earned guard env s0 s \<longleftrightarrow>
     (\<forall>task \<in> set (sy_work s). \<forall>decided. recording task = Some decided \<longrightarrow>
        proved_before guard env s0 s (tk_request decided) (tk_device decided)) \<and>
     (\<forall>key flow. hm_get (ft_flows (co_table (sy_con s))) key = Some flow \<longrightarrow>
        (\<exists>request. asks_for request key flow \<and> proved_before guard env s0 s request (af_device_public_key flow)))"

lemma earned_new: "earned guard env s0 (system_new from_slice queue_file)"
  by (simp add: earned_def system_new_def connector_new_def flow_table_new_def)

section \<open>Where a flow comes from\<close>

definition same_flow :: "admission \<Rightarrow> admission \<Rightarrow> bool" where
  "same_flow x y \<longleftrightarrow> ad_gateway x = ad_gateway y \<and> ad_flow_id x = ad_flow_id y \<and> ad_device x = ad_device y"

lemma at_steps_origin:
  assumes "at_flows (fold at_step es a) key = Some x"
  shows "(\<exists>y. at_flows a key = Some y \<and> same_flow y x) \<or>
    (\<exists>rules. EvAdmit (fk_node_id key) (fk_port key) (fk_dialled key) (ad_gateway x) (ad_flow_id x) (ad_device x) rules \<in> set es)"
  using assms
proof (induction es arbitrary: a)
  case Nil
  then show ?case by (auto simp: same_flow_def)
next
  case (Cons e es)
  from Cons.IH [OF Cons.prems [simplified fold_Cons comp_def]] show ?case
  proof (elim disjE exE conjE)
    fix y
    assume y: "at_flows (at_step e a) key = Some y" "same_flow y x"
    from at_step_origin [OF y(1)] y(2) show ?thesis unfolding same_flow_def by auto
  qed auto
qed

lemma step_changes_origin:
  assumes "step_changes l s t t'" "ft_inv t" "hm_get (ft_flows t') key = Some flow" "t = co_table (sy_con s)"
  shows "(\<exists>old. hm_get (ft_flows t) key = Some old \<and> af_gateway_id old = af_gateway_id flow \<and>
      af_flow_id old = af_flow_id flow \<and> af_device_public_key old = af_device_public_key flow) \<or>
    (\<exists>task \<in> set (sy_work s). \<exists>decided. recording task = Some decided \<and> asks_for (tk_request decided) key flow \<and>
      tk_device decided = af_device_public_key flow)"
proof -
  obtain es where es: "t' = fold ft_step es t" "list_all (step_operation l s) es"
    using assms(1) unfolding step_changes_def by blast
  have "at_flows (fold at_step es (admissions t)) key = Some (admission_of flow)"
    using assms(3) unfolding es(1) ft_run.simulates_run [OF assms(2), symmetric] by simp
  from at_steps_origin [OF this] show ?thesis
  proof (elim disjE exE conjE)
    fix y
    assume "at_flows (admissions t) key = Some y" "same_flow y (admission_of flow)"
    then show ?thesis by (auto simp: same_flow_def)
  next
    fix rules
    assume e: "EvAdmit (fk_node_id key) (fk_port key) (fk_dialled key) (ad_gateway (admission_of flow))
      (ad_flow_id (admission_of flow)) (ad_device (admission_of flow)) rules \<in> set es" (is "?e \<in> _")
    then have "step_operation l s ?e" using es(2) by (simp add: list_all_iff)
    then obtain mo i decided where "l = LWork mo i" "i < length (sy_work s)" "recording (sy_work s ! i) = Some decided"
      "?e = admission_event decided t"
      using assms(4) by (auto simp: step_operation_def is_traffic_def split: sys_label.splits)
    then show ?thesis
      by (intro disjI2 bexI [of _ "sy_work s ! i"] exI [of _ decided])
        (auto simp: admission_event_def asks_for_def flow_key_new_def)
  qed
qed

section \<open>Where a decided admission comes from\<close>

lemma work_step_decides:
  assumes "work_step env mo n c work p = Some (posts, Some (RecordFlow request key rules), p')"
  shows "work = DecideFlow request \<and> entitled env (cp_store p) request (mo_utc mo) key rules"
proof (cases work)
  case (DecideFlow r)
  then show ?thesis
    using assms authenticate_Allowed [of env "cp_store p" "fa_gateway_id r" "fa_user_public_key r" "fa_signature r"
        "fa_signed_data r" "mo_utc mo" "cp_log p" key rules]
    by (auto simp: work_step_def entitled_def split: option.splits admission_outcome.splits)
qed (use assms in \<open>auto simp: work_step_def Let_def split_beta split: option.splits\<close>)

lemma step_decided:
  assumes "sys_step env l s = Went obs s'" "task \<in> set (sy_work s')" "recording task = Some decided"
  shows "task \<in> set (sy_work s) \<or> (\<exists>mo i rules. l = LWork mo i \<and> i < length (sy_work s) \<and>
    wk_work (sy_work s ! i) = DecideFlow (tk_request decided) \<and>
    entitled (control_env_of env) (co_store (sy_con s)) (tk_request decided) (mo_utc mo) (tk_device decided) rules)"
proof (cases rule: step_tasks [OF assms(1)])
  case (2 n poller work)
  then show ?thesis using assms(2,3) new_work_records_nothing by auto
next
  case (3 mo i posts work p)
  show ?thesis
  proof (cases "task \<in> set (sy_work s)")
    case False
    then have t: "task = (sy_work s ! i)\<lparr>wk_work := work\<rparr>"
      using assms(2) 3(4) set_update_subset_insert [of "sy_work s" i] by auto
    then obtain rules where "work = RecordFlow (tk_request decided) (tk_device decided) rules"
      using assms(3) by (auto simp: recording_def split: work.splits)
    with 3(3) work_step_decides have "wk_work (sy_work s ! i) = DecideFlow (tk_request decided) \<and>
        entitled (control_env_of env) (cp_store (plane_of s)) (tk_request decided) (mo_utc mo) (tk_device decided) rules"
      by blast
    then show ?thesis using 3(1,2) by (auto simp: plane_of_def)
  qed simp
next
  case (4 i)
  then show ?thesis using assms(2) forget_task_subset [of i "sy_work s"] by auto
qed (use assms(2) in auto)

section \<open>Every flow was earned\<close>

lemma earned_step:
  assumes "sys_run guard env s0 shown s" "earned guard env s0 s" "ft_inv (co_table (sy_con s))"
    and "guard l s" "sys_step env l s = Went obs s'"
  shows "earned guard env s0 s'"
proof -
  have later: "proved_before guard env s0 s' request key" if "proved_before guard env s0 s request key" for request key
    by (rule proved_before_step [of guard env s0 s request key l obs s', OF that assms(4,5)])
  have old: "proved_before guard env s0 s' (tk_request decided) (tk_device decided)"
    if "task \<in> set (sy_work s)" "recording task = Some decided" for task decided
    using assms(2) that later unfolding earned_def by blast
  have "proved_before guard env s0 s' (tk_request decided) (tk_device decided)"
    if "task \<in> set (sy_work s')" "recording task = Some decided" for task decided
    using step_decided [OF assms(5) that]
  proof (elim disjE exE conjE)
    fix mo i rules
    assume d: "l = LWork mo i" "i < length (sy_work s)" "wk_work (sy_work s ! i) = DecideFlow (tk_request decided)"
      "entitled (control_env_of env) (co_store (sy_con s)) (tk_request decided) (mo_utc mo) (tk_device decided) rules"
    then show ?thesis
      using assms(1,5) sys_run_nil [of guard env s'] unfolding proved_before_def by blast
  qed (use old that(2) in blast)
  moreover have "\<exists>request. asks_for request key flow \<and> proved_before guard env s0 s' request (af_device_public_key flow)"
    if "hm_get (ft_flows (co_table (sy_con s'))) key = Some flow" for key flow
    using step_changes_origin [OF sys_step_changes [OF assms(5)] assms(3) that refl]
  proof (elim disjE exE conjE bexE)
    fix before
    assume b: "hm_get (ft_flows (co_table (sy_con s))) key = Some before" "af_gateway_id before = af_gateway_id flow"
      "af_flow_id before = af_flow_id flow" "af_device_public_key before = af_device_public_key flow"
    then obtain request where "asks_for request key before" "proved_before guard env s0 s request (af_device_public_key before)"
      using assms(2) unfolding earned_def by blast
    with b(2-4) later show ?thesis by (auto simp: asks_for_def)
  next
    fix task decided
    assume "task \<in> set (sy_work s)" "recording task = Some decided" "asks_for (tk_request decided) key flow"
      "tk_device decided = af_device_public_key flow"
    with old show ?thesis by metis
  qed
  ultimately show ?thesis unfolding earned_def by blast
qed

lemma sys_run_earned:
  assumes "sys_run guard env (system_new from_slice queue_file) shown s"
  shows "earned guard env (system_new from_slice queue_file) s"
  using assms
proof (induction rule: sys_run.induct)
  case sys_run_nil
  show ?case by (rule earned_new)
next
  case (sys_run_step shown s' l obs s'')
  have "ft_inv (co_table (sy_con s'))"
    using sys_run_ok [OF sys_run_step.hyps(1) sys_ok_new] connector_ok_parts(2) by (auto simp: sys_ok_def)
  from earned_step [OF sys_run_step.hyps(1) sys_run_step.IH this sys_run_step.hyps(2,3)] show ?case .
qed

text \<open>Between heartbeats a flow of a gateway that is still served follows the rules in force.\<close>

lemma run_rules_in_force:
  assumes "sys_run guard env (system_new from_slice queue_file) shown s" "stage_of (sy_beat s) = HbIdle"
    and "hm_get (ft_flows (co_table (sy_con s))) key = Some flow" "co_store (sy_con s) = Some state"
    and "rules_of (ps_policy_bundles state) (af_gateway_id flow) = Some rules"
  shows "af_rules flow = rules"
proof -
  obtain ls m where r: "cp_run (\<lambda>_ _. True) (control_env_of env) cp_init ls m" and m: "matches s m"
    using sys_run_implements [OF assms(1) guards_any matches_new] by blast
  have ok: "cp_ok m" by (rule cp_ok_run [OF r cp_ok_init])
  have "at_rules (admissions (cm_table m)) (af_gateway_id flow) = Some rules"
    using ok m assms(2,4,5) by (simp add: cp_ok_def stage_ok_def matches_def)
  moreover have "at_flows (admissions (cm_table m)) key = Some (admission_of flow)"
    using m assms(3) by (simp add: matches_def)
  ultimately show ?thesis using ok unfolding cp_ok_def rules_follow_def by (metis admission_of_sel(1,4))
qed

text \<open>
  C2: the whole daemon, in every interleaving of its heartbeats, pollers, admissions and
  packet loops and at every moment: every packet written to the TUN device was decrypted from
  some node's tunnel and either is for the Connector itself, unchanged, or belongs to a flow
  of that node and port that an earlier step of the run decided on a request proving
  possession of the flow's device key, which the policy in force at that step entitled to the
  flow's gateway; it leaves for the host and port of the one rule of the flow that opens the
  dialled port, and between heartbeats the flow's rules are those of the policy in force, if
  that still has the gateway (a packet counts as written at the step of the receive loop that
  decides on it, under the flow table's lock)
\<close>

theorem written_packets_were_earned:
  assumes "sys_run guard env (system_new from_slice queue_file) shown s"
    and "sys_step env l s = Went obs s'" "Emitted (WriteTun q) \<in> set obs"
  shows "\<exists>n p vip. Decrypted n p \<in> set shown \<and> sy_vip s = Some vip \<and>
    (tl_dst_address (hs_tunn (se_host env)) p = Some (V4 vip) \<and> q = p \<or>
     (\<exists>sp dp key flow request rule.
        parse_source_port p = Some sp \<and> parse_destination_port p = Some dp \<and>
        hm_get (ft_flows (co_table (sy_con s))) key = Some flow \<and> fk_node_id key = n \<and> fk_port key = sp \<and>
        asks_for request key flow \<and>
        proved_before guard env (system_new from_slice queue_file) s request (af_device_public_key flow) \<and>
        rules_for (af_rules flow) (map_option dl_transport (packet_dialled p dp)) dp = [rule] \<and>
        (\<forall>state rules. stage_of (sy_beat s) = HbIdle \<and> co_store (sy_con s) = Some state \<and>
           rules_of (ps_policy_bundles state) (af_gateway_id flow) = Some rules \<longrightarrow> af_rules flow = rules) \<and>
        parse_source_ipv4 q = parse_source_ipv4 p \<and>
        parse_destination_ipv4 q = dns_resolve (co_cache (sy_con s)) (pr_internal_host rule) \<and>
        parse_destination_port q = Some (pr_internal_port rule)))"
proof -
  have prov: "provenance (set shown) s" by (rule sys_run_provenance [OF assms(1)])
  obtain now where "l = LGate now" by (rule only_the_gate_writes [OF assms(2,3) prov])
  then have g: "do_gate env now s = Went obs s'" using assms(2) by simp
  show ?thesis
  proof (cases rule: gate_writes_flow [OF g assms(3)])
    case (1 n p vip)
    then show ?thesis using prov by (auto simp: provenance_def)
  next
    case (2 n p vip sp dp key flow rule)
    have "Decrypted n p \<in> set shown" using prov 2(1) by (auto simp: provenance_def)
    moreover obtain request where "asks_for request key flow"
      "proved_before guard env (system_new from_slice queue_file) s request (af_device_public_key flow)"
      using sys_run_earned [OF assms(1)] 2(5) unfolding earned_def by blast
    moreover note run_rules_in_force [OF assms(1) _ 2(5)]
    ultimately show ?thesis using 2 by blast
  qed
qed

end
