(* ===== verification/System_Replies.thy ===== *)
theory System_Replies
  imports System_Traffic
begin

text \<open>
  From the TUN device to the wire: whose tunnel a packet the daemon reads is sent into, and what
  the policy in force says of it.
\<close>

section \<open>What is sent of a packet read from the TUN device\<close>

lemma tun_turn_sent:
  assumes "tun_turn lib r (m, t) = Some (effects, m', t')" "e \<in> set effects" "ft_inv t"
  obtains n tunnel r' sealed port where "e = SendUdp sealed (nt_addr tunnel)" "tunnel_for m n = Some tunnel"
    "fst (encapsulate (tl_encapsulate lib) r' tunnel) = SendToNode sealed" "parse_destination_port r = Some port"
    "prepare_reply_packet r port t = Some (Some n, r')"
  using assms(1,2)
  by (fastforce simp: tun_turn_def Let_def split_beta encapsulate_def split: option.splits tunnel_event.splits prod.splits)

text \<open>
  A packet \<open>r\<close> read for a port, sent as \<open>r'\<close>: it comes from the host and port the flow's packets were
  forwarded to, on the port the flow holds, and reads as if it came from what the device dialled. A flow
  without a dialled identity keeps neither: its reply is one for the flow's port, from anywhere, and reads as
  if it came from the gateway address its last packet was for. Nothing but addresses, ports and their
  checksums differs.
\<close>

definition answers_flow :: "bytes \<Rightarrow> u16 \<Rightarrow> bytes \<Rightarrow> flow_key \<Rightarrow> admitted_flow \<Rightarrow> bool" where
  "answers_flow r port r' key flow \<longleftrightarrow> same_elsewhere r' r \<and> (case fk_dialled key of
     Some d \<Rightarrow> (\<exists>al. af_allocation flow = Some al \<and> al_port al = port \<and> parse_ipv4_transport r = Some (dl_transport d) \<and>
         parse_source_ipv4 r = Some (fst (al_target al)) \<and> parse_source_port r = Some (snd (al_target al))) \<and>
       parse_source_ipv4 r' = Some (dl_gateway_address d) \<and> parse_source_port r' = Some (dl_destination_port d) \<and>
       parse_destination_port r' = Some (fk_port key)
   | None \<Rightarrow> fk_port key = port \<and> parse_source_ipv4 r' = af_virtual_address flow \<and>
       parse_source_port r' = parse_source_port r \<and> parse_destination_port r' = Some port)"

lemma owns_allocation:
  "owns flows key ak \<Longrightarrow> fk_dialled key = Some d \<Longrightarrow>
     \<exists>flow al. hm_get flows key = Some flow \<and> af_allocation flow = Some al \<and> ak = allocation_key_of (dl_transport d) al"
  by (cases "hm_get flows key") (auto simp: owns_def split: option.splits)

lemma reply_answers:
  assumes "prepare_reply_packet r port t = Some (Some n, r')" "parse_destination_port r = Some port" "ft_inv t"
  obtains key flow where "hm_get (ft_flows t) key = Some flow" "fk_node_id key = n" "answers_flow r port r' key flow"
  | "r' = r" "(\<exists>q. parse_source_port r = Some q \<and> node_for_outbound_port t q = Some n) \<or> node_for_control_channel_port t port = Some n"
proof (cases rule: prepare_reply_cases [of r port t])
  case (unchanged node_id)
  from reply_routes [OF assms(3) unchanged(2)] have
    "(\<exists>q. parse_source_port r = Some q \<and> node_for_outbound_port t q = Some n) \<or> node_for_control_channel_port t port = Some n"
    using unchanged(1) assms(1) by auto
  with unchanged(1) assms(1) show thesis by (intro that(2)) auto
next
  case (restored node_id a sp dp q)
  then have q: "node_id = n" "q = r'" using assms(1) by auto
  from reply_routes [OF assms(3) restored(2)] consider
    (owned) key d tr' s' sp' where "parse_ipv4_transport r = Some tr'" "parse_source_ipv4 r = Some s'"
      "parse_source_port r = Some sp'" "fk_dialled key = Some d" "owns (ft_flows t) key (tr', s', sp', port)"
      "node_id = fk_node_id key" "a = dl_gateway_address d" "sp = Some (dl_destination_port d)" "dp = Some (fk_port key)"
  | (legacy) flow where "hm_get (ft_flows t) (flow_key_new node_id port None) = Some flow"
      "af_virtual_address flow = Some a" "sp = None" "dp = None" by auto
  then show thesis
  proof cases
    case owned
    from owns_allocation [OF owned(5,4)] obtain flow al where "hm_get (ft_flows t) key = Some flow" "af_allocation flow = Some al"
      "(tr', s', sp', port) = allocation_key_of (dl_transport d) al" by blast
    then show thesis
      using owned restored(3) q
      by (intro that(1) [of key flow]) (auto simp: answers_flow_def allocation_key_of_def reads_as_def)
  next
    case legacy
    then show thesis
      using restored(3) q assms(2)
      by (intro that(1) [of "flow_key_new n port None" flow]) (auto simp: answers_flow_def flow_key_new_def reads_as_def)
  qed
next
  case dropped
  then show thesis using assms(1) by simp
qed

text \<open>
  C3: the other direction, for the whole daemon under the same condition: every packet the
  daemon sends of what it reads from the TUN device between heartbeats goes into the tunnel of
  one node and either answers a flow of that node of a device the policy in force lists, or is
  the Connector's own control traffic with that node, unchanged. A reply to a flow admitted
  with a dialled identity comes from the host and port that flow was forwarded to and leaves
  reading as the address and port the device dialled, for the device's own port. A flow
  admitted without one holds no record of its host: its reply is only known to be for the
  flow's port and leaves with the gateway address the flow's last packet was for as its
  source, its ports unchanged. Either way only addresses, ports and their checksums differ
  from the packet that was read
\<close>

theorem sent_replies_are_authorised:
  assumes "sys_run sys_atomic env (system_new from_slice queue_file) shown s"
    and "stage_of (sy_beat s) = HbIdle"
    and "sys_step env (LTun r) s = Went obs s'" "Emitted e \<in> set obs"
  shows "\<exists>n tunnel r' sealed port. e = SendUdp sealed (nt_addr tunnel) \<and> tunnel_for (co_manager (sy_con s)) n = Some tunnel \<and>
    fst (encapsulate (tl_encapsulate (hs_tunn (se_host env))) r' tunnel) = SendToNode sealed \<and>
    parse_destination_port r = Some port \<and>
    ((\<exists>key flow state. hm_get (ft_flows (co_table (sy_con s))) key = Some flow \<and> fk_node_id key = n \<and>
        answers_flow r port r' key flow \<and> co_store (sy_con s) = Some state \<and>
        entitled_in (ps_policy_bundles state) (af_gateway_id flow) (af_device_public_key flow)) \<or>
     r' = r \<and> ((\<exists>q. parse_source_port r = Some q \<and> node_for_outbound_port (co_table (sy_con s)) q = Some n) \<or>
                node_for_control_channel_port (co_table (sy_con s)) port = Some n))"
proof -
  have ok: "ft_inv (co_table (sy_con s))"
    using sys_run_ok [OF assms(1) sys_ok_new] connector_ok_parts(2) by (auto simp: sys_ok_def)
  obtain effects manager table where t: "tun_turn (hs_tunn (se_host env)) r (co_manager (sy_con s), co_table (sy_con s)) =
      Some (effects, manager, table)" "e \<in> set effects"
    using assms(3,4) by (auto simp: do_tun_def split: if_splits option.splits)
  obtain n tunnel r' sealed port where sent: "e = SendUdp sealed (nt_addr tunnel)" "tunnel_for (co_manager (sy_con s)) n = Some tunnel"
    "fst (encapsulate (tl_encapsulate (hs_tunn (se_host env))) r' tunnel) = SendToNode sealed" "parse_destination_port r = Some port"
    and p: "prepare_reply_packet r port (co_table (sy_con s)) = Some (Some n, r')"
    by (rule tun_turn_sent [OF t ok])
  show ?thesis
  proof (cases rule: reply_answers [OF p sent(4) ok])
    case (1 key flow)
    obtain ls m where run: "cp_run admissions_atomic (control_env_of env) cp_init ls m" and m: "matches s m"
      using sys_run_implements [OF assms(1) guards_atomic matches_new] by blast
    have idle: "cm_stage m = HbIdle" and same: "cm_table m = co_table (sy_con s)" "cm_store m = co_store (sy_con s)"
      using m assms(2) by (simp_all add: matches_def)
    have "at_flows (admissions (cm_table m)) key = Some (admission_of flow)" using 1(1) same(1) by simp
    from run_flow_authorised [OF run idle this] obtain state where "co_store (sy_con s) = Some state"
      "entitled_in (ps_policy_bundles state) (af_gateway_id flow) (af_device_public_key flow)" using same(2) by auto
    with sent 1 show ?thesis by blast
  next
    case 2
    with sent show ?thesis by blast
  qed
qed

end
