(* ===== verification/System_Runs.thy ===== *)
theory System_Runs
  imports System_Rescue System_Earned System_Replies
begin

text \<open>
  A day of the daemon, step by step: a first heartbeat, an admission and the packet it lets through.
\<close>

section \<open>The environment\<close>

definition tr_node :: heartbeat_node where
  "tr_node = \<lparr>hn_node_id = ''n-1'', hn_ip_address = ''198.51.100.7'', hn_wireguard_public_key = Some ''key''\<rparr>"

definition tr_package :: heartbeat_response where
  "tr_package = \<lparr>hr_connector_id = ''c-1'', hr_connector_public_key = Some ''cpk'',
     hr_connector_virtual_ip = Some ''100.127.0.1'', hr_generated_at = ''t0'', hr_expires_at = ''t1'', hr_nonce = ''n'',
     hr_policy_bundles = [ex_bundle], hr_node_list = [tr_node]\<rparr>"

text \<open>Both Agents of the list answer, with a given package.\<close>

definition tr_net :: "heartbeat_response \<Rightarrow> network" where
  "tr_net package = ex_net\<lparr>nw_post_heartbeat := (\<lambda>_ _. Some ex_answer),
     nw_codec := (nw_codec ex_net)\<lparr>cd_heartbeat := (\<lambda>_. Some package)\<rparr>\<rparr>"

definition tr_env :: "nat sys_env" where
  "tr_env = \<lparr>se_host = ex_host\<lparr>hs_decode_base64 := (\<lambda>_. Some (replicate 32 0))\<rparr>, se_public_key = ''cpk'',
     se_crypto = ce_crypto ex_env\<rparr>"

definition tr_message :: poll_message where
  "tr_message = \<lparr>pm_kind = ''admission'', pm_admission = Some ex_request, pm_release = None, pm_dns_admission = None\<rparr>"

definition tr_moment :: moment where
  "tr_moment = \<lparr>mo_utc = 5, mo_now = 0, mo_reclaim = 0, mo_connection = Connected 40000\<rparr>"

section \<open>The exchange\<close>

lemma tr_fetched: "fetch_operational_agents (tr_net package) ''u'' = Inr [ex_agent ''a'', ex_agent ''b'']"
proof -
  have "nw_agents_json (tr_net package) = nw_agents_json ex_net" "nw_get (tr_net package) = nw_get ex_net"
    by (simp_all add: tr_net_def)
  then show ?thesis
    by (simp add: fetch_operational_agents_def) (simp add: ex_net_def ex_answer_def is_success_def ex_trims
      OPERATIONAL_STATUS_def eq_ignore_ascii_case_def ex_agent_def base_url_for_def Let_def)
qed

lemma tr_through:
  assumes "hr_connector_public_key package = Some ''cpk''" "hq_connector_public_key request = ''cpk''"
  shows "heartbeat_through (tr_net package) ''r'' request agent = Inr package"
proof -
  have "get_agent_permitted_key (tr_net package) ''r'' (ag_ip_address agent) = Inr ''key''"
    by code_simp
  moreover have "verified_body (nw_crypto (tr_net package)) ''key'' ex_answer = Inr []"
    by code_simp
  ultimately show ?thesis
    using assms by (simp add: heartbeat_through_def fetch_and_verify_def)
      (simp add: tr_net_def ex_answer_def is_success_def)
qed

text \<open>A heartbeat's exchange, wherever the daemon stands: it is answered with the package.\<close>

definition tr_answered :: "heartbeat_response \<Rightarrow> directory_state \<Rightarrow> gateway_end_queue \<Rightarrow> nat system \<Rightarrow> nat system" where
  "tr_answered package d q s = s\<lparr>sy_con := (sy_con s)\<lparr>co_directory := d, co_queue := q\<rparr>,
     sy_beat := BeatAnswered (map_option ps_policy_bundles (co_store (sy_con s))) package\<rparr>"

lemma tr_exchange:
  assumes "sy_beat s = BeatIdle" "hr_connector_public_key package = Some ''cpk''"
  obtains d q where "do_exchange tr_env (tr_net package) ex_clock s = Went [] (tr_answered package d q s)"
proof -
  let ?host = "(se_host tr_env)\<lparr>hs_net := tr_net package\<rparr>"
  have h: "hs_net ?host = tr_net package" "hs_agents_json_url ?host = ''u''" "hs_registry_base_url ?host = ''r''"
    by (simp_all add: tr_env_def ex_host_def)
  obtain request c0 where q: "heartbeat_request_for ?host ex_clock ''cpk'' (sy_con s) = (request, c0)" by force
  then have k: "hq_connector_public_key request = ''cpk''"
    by (auto simp: heartbeat_request_for_def Let_def split: prod.splits)
  have "fst (candidates (tr_net package) ''u'' (co_directory c0)) \<in> Inr ` {agents. agents \<noteq> []}"
    by (simp add: candidates_def tr_fetched sticky_first_def image_iff split: option.split)
  then obtain agent agents d0 where "candidates (tr_net package) ''u'' (co_directory c0) = (Inr (agent # agents), d0)"
    by (cases "candidates (tr_net package) ''u'' (co_directory c0)") (auto simp: neq_Nil_conv)
  then have "fst (directory_heartbeat (tr_net package) ''u'' ''r'' request (co_directory c0)) = Inr package"
    by (simp add: directory_heartbeat_def tr_through [OF assms(2) k])
  moreover obtain r c where e: "exchange_heartbeat ?host ex_clock ''cpk'' (sy_con s) = (r, c)" by force
  ultimately have "r = Inr package" by (auto simp: exchange_heartbeat_def q h Let_def split: prod.splits)
  moreover have "c = (sy_con s)\<lparr>co_directory := co_directory c, co_queue := co_queue c\<rparr>"
    using exchange_frame [OF e] by simp
  moreover have "se_public_key tr_env = ''cpk''" by (simp add: tr_env_def)
  ultimately have "do_exchange tr_env (tr_net package) ex_clock s = Went [] (tr_answered package (co_directory c) (co_queue c) s)"
    using e assms(1) by (simp add: do_exchange_def tr_answered_def current_policy_def)
  then show thesis by (rule that)
qed

section \<open>The first heartbeat\<close>

definition tr_after :: "sys_label list \<Rightarrow> nat system \<Rightarrow> nat system" where
  "tr_after ls s = (case sys_exec sys_atomic tr_env ls s of Some (_, s') \<Rightarrow> s' | None \<Rightarrow> s)"

lemma tr_after_exec: "map_option fst (sys_exec sys_atomic tr_env ls s) = Some shown \<Longrightarrow>
    sys_exec sys_atomic tr_env ls s = Some (shown, tr_after ls s)"
  by (auto simp: tr_after_def)

definition tr_dial :: "sys_label list" where
  "tr_dial = [LApplyPackage ex_clock, LSync, LEvict]"

definition tr_finish :: "sys_label list" where
  "tr_finish = [LEndDropped (\<lambda>_. ''r'') ex_clock, LEndUnserved ex_clock, LRefresh (\<lambda>_. None)]"

definition tr_pollers :: admission_pollers where
  "tr_pollers = \<lparr>pl_connector_id = Some ''c-1'', pl_tasks = [(''n-1'', \<lparr>pt_connector_id = ''c-1'', pt_spawn = 0\<rparr>)], pl_spawned = 1\<rparr>"

definition tr_polled :: "admission_pollers \<Rightarrow> policy_bundle list option \<Rightarrow> heartbeat_response \<Rightarrow> nat system \<Rightarrow> nat system" where
  "tr_polled pollers old_bundles package s = s\<lparr>sy_con := (sy_con s)\<lparr>co_pollers := pollers\<rparr>,
     sy_stopping := sy_stopping s @ aborted_pollers (co_pollers (sy_con s)) pollers, sy_beat := BeatPolled old_bundles package\<rparr>"

lemma tr_connector_id: "\<not> is_blank ''c-1''"
  by (simp add: is_blank_def trim_str_id starts_white_def ends_white_def white_space_def)

lemma tr_poll_first:
  assumes "sy_beat s = BeatEvicted old_bundles tr_package" "co_pollers (sy_con s) = pollers_new"
  shows "do_poll_sync s = Went [] (tr_polled tr_pollers old_bundles tr_package s)"
proof -
  have "sync_pollers ''c-1'' [tr_node] pollers_new = tr_pollers"
    using tr_connector_id
    by (simp add: sync_pollers_def pollers_new_def stop_all_def start_poller_def tr_node_def tr_pollers_def hm_contains_def
        hm_insert_def hm_retain_def Let_def)
  with assms show ?thesis by (simp add: do_poll_sync_def tr_polled_def Let_def tr_package_def)
qed

text \<open>The states the first heartbeat passes, by the directory and queue its exchange leaves.\<close>

definition tr_dialled :: "directory_state \<Rightarrow> gateway_end_queue \<Rightarrow> nat system" where
  "tr_dialled d q = tr_after tr_dial (tr_answered tr_package d q ex_system)"

definition tr_idle :: "directory_state \<Rightarrow> gateway_end_queue \<Rightarrow> nat system" where
  "tr_idle d q = tr_after tr_finish (tr_polled tr_pollers None tr_package (tr_dialled d q))"

lemma tr_dialled_exec:
  "map_option fst (sys_exec sys_atomic tr_env tr_dial (tr_answered tr_package d q ex_system)) = Some [Emitted (SendUdp [1] ex_src)]"
  "sy_beat (tr_dialled d q) = BeatEvicted None tr_package" "co_pollers (sy_con (tr_dialled d q)) = pollers_new"
  by code_simp+

lemma tr_idle_exec:
  "map_option fst (sys_exec sys_atomic tr_env tr_finish (tr_polled tr_pollers None tr_package (tr_dialled d q))) = Some []"
  "sy_beat (tr_idle d q) = BeatIdle"
  by code_simp+

definition tr_beat :: "heartbeat_response \<Rightarrow> sys_label list \<Rightarrow> sys_label list" where
  "tr_beat package before_sync = LExchange (tr_net package) ex_clock # tr_dial @ before_sync @ [LPollSync] @ tr_finish"

lemma sys_exec_append:
  "sys_exec guard env ls s = Some (shown, s1) \<Longrightarrow> sys_exec guard env ls' s1 = Some (shown', s2) \<Longrightarrow>
     sys_exec guard env (ls @ ls') s = Some (shown @ shown', s2)"
  by (induction ls arbitrary: s shown) (auto split: if_splits outcome.splits)

text \<open>A heartbeat, from the parts that evaluate and the two that do not.\<close>

lemma tr_beat_exec:
  assumes "do_exchange tr_env (tr_net package) ex_clock s = Went [] (tr_answered package d q s)"
    and "map_option fst (sys_exec sys_atomic tr_env (tr_dial @ before_sync) (tr_answered package d q s)) = Some shown"
    and "do_poll_sync (tr_after (tr_dial @ before_sync) (tr_answered package d q s)) = Went [] s1"
    and "map_option fst (sys_exec sys_atomic tr_env tr_finish s1) = Some []"
  shows "sys_exec sys_atomic tr_env (tr_beat package before_sync) s = Some (shown, tr_after tr_finish s1)"
proof -
  have "sys_exec sys_atomic tr_env ([LPollSync] @ tr_finish)
      (tr_after (tr_dial @ before_sync) (tr_answered package d q s)) = Some ([], tr_after tr_finish s1)"
    using tr_after_exec [OF assms(4)] by (simp add: sys_atomic_def assms(3))
  from sys_exec_append [OF tr_after_exec [OF assms(2)] this] assms(1) show ?thesis
    by (simp add: tr_beat_def sys_atomic_def)
qed

lemma tr_first_beat:
  "\<exists>d q. sys_exec sys_atomic tr_env (tr_beat tr_package []) ex_system = Some ([Emitted (SendUdp [1] ex_src)], tr_idle d q)"
proof -
  have "sy_beat ex_system = BeatIdle" "hr_connector_public_key tr_package = Some ''cpk''"
    by (simp_all add: ex_system_def system_new_def tr_package_def)
  then obtain d q where x: "do_exchange tr_env (tr_net tr_package) ex_clock ex_system = Went [] (tr_answered tr_package d q ex_system)"
    by (rule tr_exchange)
  have p: "do_poll_sync (tr_dialled d q) = Went [] (tr_polled tr_pollers None tr_package (tr_dialled d q))"
    by (rule tr_poll_first) (simp_all add: tr_dialled_exec)
  show ?thesis
    using tr_beat_exec [OF x, of "[]"] tr_dialled_exec(1) tr_idle_exec(1) p
    by (intro exI [of _ d] exI [of _ q]) (simp add: tr_dialled_def tr_idle_def)
qed

section \<open>An admission and the packet it lets through\<close>

definition tr_admit :: "sys_label list" where
  "tr_admit = [LMessage tr_moment ''n-1'' tr_message, LWork tr_moment 0, LWork tr_moment 0]"

definition tr_run :: "sys_label list" where
  "tr_run = tr_beat tr_package [] @ tr_admit @ [LDatagram ex_packet ex_src]"

text \<open>Where the run stands, the packet before the gate.\<close>

definition tr_arrived :: "nat system \<Rightarrow> bool" where
  "tr_arrived s \<longleftrightarrow> stage_of (sy_beat s) = HbIdle \<and> sy_gate s = Some (''n-1'', ex_packet) \<and> sy_vip s = Some (Ipv4 100 127 0 1) \<and>
     co_cache (sy_con s) = dns_new \<and> map_option nt_addr (tunnel_for (co_manager (sy_con s)) ''n-1'') = Some ex_src \<and>
     hm_get (ft_flows (co_table (sy_con s))) (flow_key_new ''n-1'' 40100 (Some ex_dialled)) =
       Some (new_flow (Some ex_dialled) ''g-1'' ''f-1'' ''dev-1'' (bundle_rules ex_bundle)) \<and>
     ft_by_allocation (co_table (sy_con s)) = [] \<and> ft_next_source_port (co_table (sy_con s)) = [] \<and>
     port_range (co_table (sy_con s)) = (1024, 65535)"

lemma tr_arrived_exec:
  "map_option fst (sys_exec sys_atomic tr_env (tr_admit @ [LDatagram ex_packet ex_src]) (tr_idle d q)) =
     Some [Decrypted ''n-1'' ex_packet]"
  "tr_arrived (tr_after (tr_admit @ [LDatagram ex_packet ex_src]) (tr_idle d q))"
  by code_simp+

lemma tr_run_exec:
  "\<exists>s. sys_exec sys_atomic tr_env tr_run ex_system = Some ([Emitted (SendUdp [1] ex_src), Decrypted ''n-1'' ex_packet], s) \<and>
     tr_arrived s"
proof -
  obtain d q where f: "sys_exec sys_atomic tr_env (tr_beat tr_package []) ex_system =
      Some ([Emitted (SendUdp [1] ex_src)], tr_idle d q)" using tr_first_beat by blast
  from sys_exec_append [OF f tr_after_exec [OF tr_arrived_exec(1)]] tr_arrived_exec(2) show ?thesis
    unfolding tr_run_def by fastforce
qed

lemma tr_dst: "tl_dst_address (hs_tunn (se_host tr_env)) = ex_dst"
  by (simp add: tr_env_def ex_host_def ex_lib_def)

lemma tr_not_for_us: "ex_dst ex_packet \<noteq> Some (V4 (Ipv4 100 127 0 1))"
  by (rule ex_packet_fields(4))

lemma tr_written:
  assumes "tr_arrived s"
  obtains q t' where "sys_step tr_env (LGate 0) s =
      Went [Emitted (WriteTun q)] (s\<lparr>sy_con := (sy_con s)\<lparr>co_table := t'\<rparr>, sy_gate := None\<rparr>)"
    "prepare_decrypted_packet ex_dst ex_packet ''n-1'' (V4 (Ipv4 100 127 0 1)) dns_new 0 (co_table (sy_con s)) = Some (True, q, t')"
    "reads_as q ex_packet (Some (Ipv4 10 0 0 1)) (Some (Ipv4 10 0 0 5)) (Some 1024) (Some 443)"
proof -
  note a = assms [unfolded tr_arrived_def]
  let ?t = "co_table (sy_con s)"
  have "fst (forward ''n-1'' 40100 (Some ex_dialled) 443 dns_new ?t) = Forward (Ipv4 10 0 0 5) None (Some 1024)"
    by (rule ex_forward_fresh) (use a in simp_all)
  then obtain t' where f': "forward ''n-1'' 40100 (Some ex_dialled) 443 dns_new ?t = (Forward (Ipv4 10 0 0 5) None (Some 1024), t')"
    by (cases "forward ''n-1'' 40100 (Some ex_dialled) 443 dns_new ?t") simp
  obtain q where c: "then_rewrite (then_rewrite (rewrite_destination_ipv4 ex_packet (Ipv4 10 0 0 5))
        (is_none_or rewrite_destination_port None)) (is_none_or rewrite_source_port (Some 1024)) = Some (True, q)"
    "reads_as q ex_packet (Some (Ipv4 10 0 0 1)) (Some (Ipv4 10 0 0 5)) (Some 1024) (Some 443)"
    using forward_chain [OF ex_packet_parsed, of "Ipv4 10 0 0 5" None "Some 1024"] ex_packet_fields by auto
  have p: "prepare_decrypted_packet ex_dst ex_packet ''n-1'' (V4 (Ipv4 100 127 0 1)) dns_new 0 ?t = Some (True, q, t')"
    using ex_packet_fields f' c(1) by (simp add: prepare_decrypted_packet_def Let_def)
  then have "sys_step tr_env (LGate 0) s =
      Went [Emitted (WriteTun q)] (s\<lparr>sy_con := (sy_con s)\<lparr>co_table := t'\<rparr>, sy_gate := None\<rparr>)"
    using a by (simp add: do_gate_def forward_to_tun_def tr_dst)
  then show thesis using p c(2) by (rule that)
qed

lemma written_packets_are_authorised_witness:
  "\<exists>shown s q s' state (flow :: admitted_flow). sys_exec sys_atomic tr_env tr_run ex_system = Some (shown, s) \<and>
     sys_step tr_env (LGate 0) s = Went [Emitted (WriteTun q)] s' \<and> co_store (sy_con s) = Some state \<and>
     entitled_in (ps_policy_bundles state) (af_gateway_id flow) (af_device_public_key flow) \<and>
     parse_source_ipv4 q = parse_source_ipv4 ex_packet"
proof -
  obtain s where s: "sys_exec sys_atomic tr_env tr_run ex_system =
      Some ([Emitted (SendUdp [1] ex_src), Decrypted ''n-1'' ex_packet], s)" "tr_arrived s"
    using tr_run_exec by blast
  obtain q s' where g: "sys_step tr_env (LGate 0) s = Went [Emitted (WriteTun q)] s'"
    using tr_written [OF s(2)] by metis
  have idle: "stage_of (sy_beat s) = HbIdle" and vip: "sy_vip s = Some (Ipv4 100 127 0 1)"
    using s(2) by (simp_all add: tr_arrived_def)
  have "tl_dst_address (hs_tunn (se_host tr_env)) ex_packet \<noteq> Some (V4 (Ipv4 100 127 0 1))"
    using tr_not_for_us by (simp add: tr_dst)
  then obtain state and flow :: admitted_flow where "co_store (sy_con s) = Some state"
    "entitled_in (ps_policy_bundles state) (af_gateway_id flow) (af_device_public_key flow)"
    "parse_source_ipv4 q = parse_source_ipv4 ex_packet"
    using written_packets_are_authorised [OF sys_run_exec [OF s(1) [unfolded ex_system_def]] idle g] vip by auto
  with s(1) g show ?thesis by blast
qed

section \<open>The answer to it\<close>

text \<open>The internal host answers from port 443 to the port it was reached from.\<close>

definition tr_reply :: bytes where
  "tr_reply = ex_reply[20 := 0x01, 21 := 0xBB]"

lemma tr_reply_fields:
  "parse_source_port tr_reply = Some 443" "parse_destination_port tr_reply = Some 1024"
  "parse_ipv4_transport tr_reply = Some Tcp" "parse_source_ipv4 tr_reply = Some (Ipv4 10 0 0 5)"
  by code_simp+

lemma tr_seals_nothing: "encapsulate (tl_encapsulate (hs_tunn (se_host tr_env))) r tunnel = (SendToNode r, tunnel)"
  by (simp add: encapsulate_def tr_env_def ex_host_def ex_lib_def tunnel_event_of_def)

lemma tr_answered_back:
  assumes "tr_arrived s" "ft_inv (co_table (sy_con s))"
    and "prepare_decrypted_packet ex_dst ex_packet ''n-1'' (V4 (Ipv4 100 127 0 1)) dns_new 0 (co_table (sy_con s)) = Some (True, q, t')"
    and "reads_as q ex_packet (Some (Ipv4 10 0 0 1)) (Some (Ipv4 10 0 0 5)) (Some 1024) (Some 443)"
  obtains r' s2 where "sys_step tr_env (LTun tr_reply) (s\<lparr>sy_con := (sy_con s)\<lparr>co_table := t'\<rparr>, sy_gate := None\<rparr>) =
      Went [Emitted (SendUdp r' ex_src)] s2" "parse_source_ipv4 r' = Some (Ipv4 100 64 0 9)"
proof -
  have "answers tr_reply q" using assms(4) tr_reply_fields ex_packet_fields by (simp add: answers_def reads_as_def)
  moreover have "hm_contains (ft_flows (co_table (sy_con s))) (flow_key_new ''n-1'' 40100 (packet_dialled ex_packet 443))"
    using assms(1) by (simp add: tr_arrived_def hm_contains_def ex_packet_fields)
  ultimately obtain r' where r: "prepare_reply_packet tr_reply 1024 t' = Some (Some ''n-1'', r')"
    "parse_source_ipv4 r' = Some (Ipv4 100 64 0 9)"
    using packet_and_reply [OF assms(2) tr_not_for_us assms(3) ex_packet_fields(1,2) _ ex_packet_fields(3), of tr_reply 1024]
      tr_reply_fields(2) ex_packet_fields(7) by (auto simp: reads_as_def)
  obtain tunnel where t: "tunnel_for (co_manager (sy_con s)) ''n-1'' = Some tunnel" "nt_addr tunnel = ex_src"
    using assms(1) by (auto simp: tr_arrived_def)
  have "\<exists>s2. sys_step tr_env (LTun tr_reply) (s\<lparr>sy_con := (sy_con s)\<lparr>co_table := t'\<rparr>, sy_gate := None\<rparr>) =
      Went [Emitted (SendUdp r' ex_src)] s2"
    using assms(1) r(1) t tr_reply_fields(2)
    by (simp add: tr_arrived_def do_tun_def tun_turn_def tr_seals_nothing)
  with r(2) that show thesis by blast
qed

lemma sent_replies_are_authorised_witness:
  "\<exists>shown s r' s2 state (flow :: admitted_flow). sys_exec sys_atomic tr_env (tr_run @ [LGate 0]) ex_system = Some (shown, s) \<and>
     sys_step tr_env (LTun tr_reply) s = Went [Emitted (SendUdp r' ex_src)] s2 \<and> co_store (sy_con s) = Some state \<and>
     entitled_in (ps_policy_bundles state) (af_gateway_id flow) (af_device_public_key flow)"
proof -
  obtain shown s where e: "sys_exec sys_atomic tr_env tr_run ex_system = Some (shown, s)" and a: "tr_arrived s"
    using tr_run_exec by blast
  obtain q t' where g: "sys_step tr_env (LGate 0) s =
      Went [Emitted (WriteTun q)] (s\<lparr>sy_con := (sy_con s)\<lparr>co_table := t'\<rparr>, sy_gate := None\<rparr>)"
    and p: "prepare_decrypted_packet ex_dst ex_packet ''n-1'' (V4 (Ipv4 100 127 0 1)) dns_new 0 (co_table (sy_con s)) = Some (True, q, t')"
      "reads_as q ex_packet (Some (Ipv4 10 0 0 1)) (Some (Ipv4 10 0 0 5)) (Some 1024) (Some 443)"
    by (rule tr_written [OF a])
  let ?s = "s\<lparr>sy_con := (sy_con s)\<lparr>co_table := t'\<rparr>, sy_gate := None\<rparr>"
  have "sys_exec sys_atomic tr_env [LGate 0] s = Some ([Emitted (WriteTun q)], ?s)"
    using g by (simp add: sys_atomic_def)
  from sys_exec_append [OF e this] have e': "sys_exec sys_atomic tr_env (tr_run @ [LGate 0]) ex_system =
      Some (shown @ [Emitted (WriteTun q)], ?s)" .
  have "ft_inv (co_table (sy_con s))"
    using sys_run_ok [OF sys_run_exec [OF e [unfolded ex_system_def]] sys_ok_new] connector_ok_parts(2) by (auto simp: sys_ok_def)
  then obtain r' s2 where r: "sys_step tr_env (LTun tr_reply) ?s = Went [Emitted (SendUdp r' ex_src)] s2"
    "parse_source_ipv4 r' = Some (Ipv4 100 64 0 9)" by (rule tr_answered_back [OF a _ p])
  have idle: "stage_of (sy_beat ?s) = HbIdle" using a by (simp add: tr_arrived_def)
  have "r' \<noteq> tr_reply" using r(2) tr_reply_fields(4) by auto
  then obtain state and flow :: admitted_flow where "co_store (sy_con ?s) = Some state"
    "entitled_in (ps_policy_bundles state) (af_gateway_id flow) (af_device_public_key flow)"
    using sent_replies_are_authorised [OF sys_run_exec [OF e' [unfolded ex_system_def]] idle r(1), of "SendUdp r' ex_src"]
    by (auto simp: tr_seals_nothing)
  with e' r(1) show ?thesis by blast
qed

section \<open>An admission that overtakes a departure\<close>

definition tr_left :: heartbeat_response where
  "tr_left = tr_package\<lparr>hr_node_list := []\<rparr>"

definition tr_stopped :: admission_pollers where
  "tr_stopped = tr_pollers\<lparr>pl_tasks := []\<rparr>"

lemma tr_poll_left:
  assumes "sy_beat s = BeatEvicted old_bundles tr_left" "co_pollers (sy_con s) = tr_pollers \<or> co_pollers (sy_con s) = tr_stopped"
  shows "do_poll_sync s = Went [] (tr_polled tr_stopped old_bundles tr_left s)"
proof -
  have "sync_pollers ''c-1'' [] (co_pollers (sy_con s)) = tr_stopped"
    using tr_connector_id assms(2)
    by (auto simp: sync_pollers_def tr_stopped_def tr_pollers_def hm_retain_def Let_def)
  then show ?thesis using assms(1) by (simp add: do_poll_sync_def tr_polled_def Let_def tr_left_def tr_package_def)
qed

text \<open>The node leaves; its poller hands on an admission after the eviction and before it is stopped.\<close>

definition tr_caught :: "directory_state \<Rightarrow> gateway_end_queue \<Rightarrow> nat system \<Rightarrow> nat system" where
  "tr_caught d q s = tr_after (tr_dial @ tr_admit) (tr_answered tr_left d q s)"

definition tr_ghost :: "directory_state \<Rightarrow> gateway_end_queue \<Rightarrow> nat system \<Rightarrow> nat system" where
  "tr_ghost d q s = tr_after tr_finish (tr_polled tr_stopped (Some [ex_bundle]) tr_left (tr_caught d q s))"

definition tr_settle :: "sys_label list" where
  "tr_settle = [LDropPoller 0, LDropWork 0]"

definition tr_settled :: "directory_state \<Rightarrow> gateway_end_queue \<Rightarrow> nat system \<Rightarrow> nat system" where
  "tr_settled d q s = tr_after tr_settle (tr_ghost d q s)"

definition tr_next :: "directory_state \<Rightarrow> gateway_end_queue \<Rightarrow> nat system \<Rightarrow> nat system" where
  "tr_next d q s = tr_after tr_dial (tr_answered tr_left d q s)"

definition tr_later :: "directory_state \<Rightarrow> gateway_end_queue \<Rightarrow> nat system \<Rightarrow> nat system" where
  "tr_later d q s = tr_after tr_finish (tr_polled tr_stopped (Some [ex_bundle]) tr_left (tr_next d q s))"

lemma tr_caught_exec:
  "map_option fst (sys_exec sys_atomic tr_env (tr_dial @ tr_admit) (tr_answered tr_left d' q' (tr_idle d q))) = Some []"
  "sy_beat (tr_caught d' q' (tr_idle d q)) = BeatEvicted (Some [ex_bundle]) tr_left"
  "co_pollers (sy_con (tr_caught d' q' (tr_idle d q))) = tr_pollers"
  by code_simp+

lemma tr_ghost_exec:
  "map_option fst (sys_exec sys_atomic tr_env tr_finish
     (tr_polled tr_stopped (Some [ex_bundle]) tr_left (tr_caught d' q' (tr_idle d q)))) = Some []"
  "sy_beat (tr_ghost d' q' (tr_idle d q)) = BeatIdle"
  by code_simp+

lemma tr_settled_exec:
  "map_option fst (sys_exec sys_atomic tr_env tr_settle (tr_ghost d' q' (tr_idle d q))) = Some []"
  "sy_beat (tr_settled d' q' (tr_idle d q)) = BeatIdle"
  by code_simp+

lemma tr_next_exec:
  "map_option fst (sys_exec sys_atomic tr_env tr_dial (tr_answered tr_left d'' q'' (tr_settled d' q' (tr_idle d q)))) = Some []"
  "sy_beat (tr_next d'' q'' (tr_settled d' q' (tr_idle d q))) = BeatEvicted (Some [ex_bundle]) tr_left"
  "co_pollers (sy_con (tr_next d'' q'' (tr_settled d' q' (tr_idle d q)))) = tr_stopped"
  by code_simp+

lemma tr_later_exec:
  "map_option fst (sys_exec sys_atomic tr_env tr_finish
     (tr_polled tr_stopped (Some [ex_bundle]) tr_left (tr_next d'' q'' (tr_settled d' q' (tr_idle d q))))) = Some []"
  "(let s = tr_later d'' q'' (tr_settled d' q' (tr_idle d q))
    in (sy_beat s, sy_work s, sy_stopping s, map_option ps_node_list (co_store (sy_con s)), tm_tunnels (co_manager (sy_con s)),
        map_option af_device_public_key (hm_get (ft_flows (co_table (sy_con s))) (flow_key_new ''n-1'' 40100 (Some ex_dialled))))) =
   (BeatIdle, [], [], Some [], [], Some ''dev-1'')"
  by code_simp+

lemma tr_left_key: "hr_connector_public_key tr_left = Some ''cpk''"
  by (simp add: tr_left_def tr_package_def)

lemma tr_ghost_run:
  obtains d q d' q' where "sys_exec sys_atomic tr_env (tr_beat tr_package [] @ tr_beat tr_left tr_admit) ex_system =
      Some ([Emitted (SendUdp [1] ex_src)], tr_ghost d' q' (tr_idle d q))"
proof -
  obtain d q where e1: "sys_exec sys_atomic tr_env (tr_beat tr_package []) ex_system =
      Some ([Emitted (SendUdp [1] ex_src)], tr_idle d q)" using tr_first_beat by blast
  obtain d' q' where x: "do_exchange tr_env (tr_net tr_left) ex_clock (tr_idle d q) = Went [] (tr_answered tr_left d' q' (tr_idle d q))"
    by (rule tr_exchange [OF tr_idle_exec(2) tr_left_key])
  have e2: "sys_exec sys_atomic tr_env (tr_beat tr_left tr_admit) (tr_idle d q) = Some ([], tr_ghost d' q' (tr_idle d q))"
    unfolding tr_ghost_def tr_caught_def
  proof (rule tr_beat_exec [OF x tr_caught_exec(1)], fold tr_caught_def)
    show "do_poll_sync (tr_caught d' q' (tr_idle d q)) =
        Went [] (tr_polled tr_stopped (Some [ex_bundle]) tr_left (tr_caught d' q' (tr_idle d q)))"
      by (rule tr_poll_left) (simp_all add: tr_caught_exec)
  qed (rule tr_ghost_exec(1))
  from sys_exec_append [OF e1 e2] show thesis by (intro that) simp
qed

text \<open>
  C21: an admission recorded after a departed node's flows were evicted and before its poller
  is stopped leaves a flow of a node without a tunnel; the runtime then drops the poller and
  its tasks, and the next heartbeat, which no longer lists the node either, leaves the flow
  there
\<close>

theorem admission_overtakes_departure:
  "\<exists>shown s state flow. sys_exec sys_atomic tr_env
      (tr_beat tr_package [] @ tr_beat tr_left tr_admit @ tr_settle @ tr_beat tr_left []) ex_system =
      Some (shown, s) \<and> sy_beat s = BeatIdle \<and> sy_work s = [] \<and> sy_stopping s = [] \<and>
    co_store (sy_con s) = Some state \<and> ps_node_list state = [] \<and> tunnel_for (co_manager (sy_con s)) ''n-1'' = None \<and>
    hm_get (ft_flows (co_table (sy_con s))) (flow_key_new ''n-1'' 40100 (Some ex_dialled)) = Some flow"
proof -
  obtain d q d' q' where e: "sys_exec sys_atomic tr_env (tr_beat tr_package [] @ tr_beat tr_left tr_admit) ex_system =
      Some ([Emitted (SendUdp [1] ex_src)], tr_ghost d' q' (tr_idle d q))" by (rule tr_ghost_run)
  obtain d'' q'' where x': "do_exchange tr_env (tr_net tr_left) ex_clock (tr_settled d' q' (tr_idle d q)) =
      Went [] (tr_answered tr_left d'' q'' (tr_settled d' q' (tr_idle d q)))"
    by (rule tr_exchange [OF tr_settled_exec(2) tr_left_key])
  have e3: "sys_exec sys_atomic tr_env (tr_beat tr_left []) (tr_settled d' q' (tr_idle d q)) =
      Some ([], tr_later d'' q'' (tr_settled d' q' (tr_idle d q)))"
    unfolding tr_later_def tr_next_def
  proof (rule tr_beat_exec [OF x', of "[]", unfolded append_Nil2, OF tr_next_exec(1)], fold tr_next_def)
    show "do_poll_sync (tr_next d'' q'' (tr_settled d' q' (tr_idle d q))) =
        Went [] (tr_polled tr_stopped (Some [ex_bundle]) tr_left (tr_next d'' q'' (tr_settled d' q' (tr_idle d q))))"
      by (rule tr_poll_left) (simp_all add: tr_next_exec)
  qed (rule tr_later_exec(1))
  note run = sys_exec_append [OF e sys_exec_append [OF tr_after_exec [OF tr_settled_exec(1), folded tr_settled_def] e3],
      unfolded append_assoc]
  show ?thesis
    by (rule exI, rule exI, rule exI [of _ "the (co_store (sy_con (tr_later d'' q'' (tr_settled d' q' (tr_idle d q)))))"],
        rule exI [of _ "the (hm_get (ft_flows (co_table (sy_con (tr_later d'' q'' (tr_settled d' q' (tr_idle d q))))))
          (flow_key_new ''n-1'' 40100 (Some ex_dialled)))"], rule conjI [OF run])
      (use tr_later_exec(2) [of d'' q'' d' q' d q] in \<open>auto simp: Let_def tunnel_for_def\<close>)
qed

section \<open>The admission on its way\<close>

definition tr_under_way :: "sys_label list" where
  "tr_under_way = tr_beat tr_package [] @ [LMessage tr_moment ''n-1'' tr_message]"

lemma tr_message_exec:
  "map_option fst (sys_exec sys_atomic tr_env [LMessage tr_moment ''n-1'' tr_message] (tr_idle d q)) = Some []"
  "sy_work (tr_after [LMessage tr_moment ''n-1'' tr_message] (tr_idle d q)) =
     [\<lparr>wk_node = ''n-1'', wk_poller = \<lparr>pt_connector_id = ''c-1'', pt_spawn = 0\<rparr>, wk_work = DecideFlow ex_request\<rparr>]"
  by code_simp+

lemma tr_under_way_exec:
  "\<exists>s. sys_exec sys_atomic tr_env tr_under_way ex_system = Some ([Emitted (SendUdp [1] ex_src)], s) \<and>
     sy_work s = [\<lparr>wk_node = ''n-1'', wk_poller = \<lparr>pt_connector_id = ''c-1'', pt_spawn = 0\<rparr>, wk_work = DecideFlow ex_request\<rparr>]"
proof -
  obtain d q where f: "sys_exec sys_atomic tr_env (tr_beat tr_package []) ex_system =
      Some ([Emitted (SendUdp [1] ex_src)], tr_idle d q)" using tr_first_beat by blast
  from sys_exec_append [OF f tr_after_exec [OF tr_message_exec(1)]] tr_message_exec(2) show ?thesis
    unfolding tr_under_way_def by fastforce
qed

text \<open>The admission that overtook the departure, its poller dropped: it is the last of that poller.\<close>

definition tr_first_poller :: poller_task where
  "tr_first_poller = \<lparr>pt_connector_id = ''c-1'', pt_spawn = 0\<rparr>"

lemma tr_orphan_exec:
  "map_option fst (sys_exec sys_atomic tr_env [LDropPoller 0] (tr_ghost d' q' (tr_idle d q))) = Some []"
  "poller_gone (tr_after [LDropPoller 0] (tr_ghost d' q' (tr_idle d q))) ''n-1'' tr_first_poller"
  "in_flight ''n-1'' tr_first_poller (tr_after [LDropPoller 0] (tr_ghost d' q' (tr_idle d q))) = 1"
  by code_simp+

lemma admissions_in_flight_are_bounded_witness:
  "\<exists>shown s. sys_exec sys_atomic tr_env ((tr_beat tr_package [] @ tr_beat tr_left tr_admit) @ [LDropPoller 0]) ex_system =
      Some (shown, s) \<and> in_flight ''n-1'' tr_first_poller s = 1 \<and>
    (\<forall>further s'. sys_run any_step tr_env s further s' \<longrightarrow> in_flight ''n-1'' tr_first_poller s' \<le> 1)"
proof -
  obtain d q d' q' where e: "sys_exec sys_atomic tr_env (tr_beat tr_package [] @ tr_beat tr_left tr_admit) ex_system =
      Some ([Emitted (SendUdp [1] ex_src)], tr_ghost d' q' (tr_idle d q))" by (rule tr_ghost_run)
  note run = sys_exec_append [OF e tr_after_exec [OF tr_orphan_exec(1)]]
  from admissions_in_flight_are_bounded [OF sys_run_exec [OF run [unfolded ex_system_def]], of "''n-1''" tr_first_poller]
    tr_orphan_exec(2,3) [of d' q' d q]
  have "\<forall>further s'. sys_run any_step tr_env (tr_after [LDropPoller 0] (tr_ghost d' q' (tr_idle d q))) further s' \<longrightarrow>
      in_flight ''n-1'' tr_first_poller s' \<le> 1" by metis
  with run tr_orphan_exec(3) show ?thesis by blast
qed

lemma every_admission_is_answered_witness:
  "\<exists>shown s k response s'. sys_exec sys_atomic tr_env tr_under_way ex_system = Some (shown, s) \<and> k \<le> 4 \<and>
     sys_exec any_step tr_env (replicate k (LWork tr_moment 0)) s =
       Some ([Answered (Posted ''n-1'' (result_path ''c-1'') (FlowResult response))], s') \<and> fr_flow_id response = ''f-1''"
proof -
  obtain shown s where e: "sys_exec sys_atomic tr_env tr_under_way ex_system = Some (shown, s)"
    "sy_work s = [\<lparr>wk_node = ''n-1'', wk_poller = \<lparr>pt_connector_id = ''c-1'', pt_spawn = 0\<rparr>, wk_work = DecideFlow ex_request\<rparr>]"
    using tr_under_way_exec by blast
  have c: "mo_connection tr_moment = Connected 40000" by (simp add: tr_moment_def)
  have i: "0 < length (sy_work s)" using e(2) by simp
  from every_admission_is_answered [OF sys_run_exec [OF e(1) [unfolded ex_system_def]] i c] obtain k body s' where
    a: "k \<le> 4" "sys_exec any_step tr_env (replicate k (LWork tr_moment 0)) s =
       Some ([Answered (Posted ''n-1'' (result_path ''c-1'') body)], s')" "result_for (DecideFlow ex_request) body"
    using e(2) by auto
  from a(3) obtain response where "body = FlowResult response" "fr_flow_id response = ''f-1''"
    by (cases body) (auto simp: ex_request_def)
  with e(1) a(1,2) show ?thesis by blast
qed

section \<open>The packet that came before its admission\<close>

definition tr_early :: "sys_label list" where
  "tr_early = [LDatagram ex_packet ex_src, LGate 0, LMessage tr_moment ''n-1'' tr_message, LWork tr_moment 0]"

definition tr_received :: "directory_state \<Rightarrow> gateway_end_queue \<Rightarrow> nat system" where
  "tr_received d q = tr_after [LDatagram ex_packet ex_src] (tr_idle d q)"

text \<open>The gate holds it back and keeps it.\<close>

definition tr_held :: "directory_state \<Rightarrow> gateway_end_queue \<Rightarrow> nat system" where
  "tr_held d q = (tr_received d q)\<lparr>sy_con := (sy_con (tr_received d q))\<lparr>co_table := (co_table (sy_con (tr_received d q)))
     \<lparr>ft_pending := [(flow_key_new ''n-1'' 40100 (Some ex_dialled), (ex_packet, 0))]\<rparr>\<rparr>, sy_gate := None\<rparr>"

lemma tr_received_exec:
  "map_option fst (sys_exec sys_atomic tr_env [LDatagram ex_packet ex_src] (tr_idle d q)) = Some [Decrypted ''n-1'' ex_packet]"
  "sy_gate (tr_received d q) = Some (''n-1'', ex_packet)" "sy_vip (tr_received d q) = Some (Ipv4 100 127 0 1)"
  "ft_flows (co_table (sy_con (tr_received d q))) = []" "ft_pending (co_table (sy_con (tr_received d q))) = []"
  "ft_rule_ended (co_table (sy_con (tr_received d q))) = []"
  by code_simp+

lemma tr_gate_holds: "do_gate tr_env 0 (tr_received d q) = Went [] (tr_held d q)"
proof -
  let ?t = "co_table (sy_con (tr_received d q))" and ?cache = "co_cache (sy_con (tr_received d q))"
  have "forward ''n-1'' 40100 (Some ex_dialled) 443 ?cache ?t = (NotAdmitted, ?t)"
    by (simp add: forward_eq hm_contains_def tr_received_exec legacy_flow_accepts_def forward_legacy_def)
  moreover have "is_rule_ended ''n-1'' 40100 (Some ex_dialled) 0 ?t = (False, ?t)"
    by (simp add: is_rule_ended_def tr_received_exec)
  moreover have "buffer_pending ''n-1'' 40100 (Some ex_dialled) ex_packet 0 ?t =
      ?t\<lparr>ft_pending := [(flow_key_new ''n-1'' 40100 (Some ex_dialled), (ex_packet, 0))]\<rparr>"
    by (simp add: buffer_pending_def tr_received_exec hm_retain_def hm_insert_def MAX_PENDING_PACKETS_def)
  ultimately show ?thesis
    using ex_packet_fields
    by (simp add: tr_dst do_gate_def tr_received_exec forward_to_tun_def prepare_decrypted_packet_def tr_held_def Let_def)
qed

text \<open>The packet held, its admission decided and not recorded.\<close>

definition tr_waiting :: "nat system \<Rightarrow> bool" where
  "tr_waiting s \<longleftrightarrow> sy_vip s = Some (Ipv4 100 127 0 1) \<and> sy_gate s = None \<and> sy_recovered s = [] \<and>
     sy_work s = [\<lparr>wk_node = ''n-1'', wk_poller = \<lparr>pt_connector_id = ''c-1'', pt_spawn = 0\<rparr>,
       wk_work = RecordFlow ex_request ''dev-1'' (bundle_rules ex_bundle)\<rparr>] \<and>
     hm_get (ft_pending (co_table (sy_con s))) (flow_key_new ''n-1'' 40100 (Some ex_dialled)) = Some (ex_packet, 0) \<and>
     ft_recently_released (co_table (sy_con s)) = [] \<and> ft_flows (co_table (sy_con s)) = [] \<and>
     current_rules ''g-1'' (co_table (sy_con s)) = Some (bundle_rules ex_bundle) \<and>
     port_range (co_table (sy_con s)) = (1024, 65535) \<and> co_cache (sy_con s) = dns_new"

lemma tr_waiting_exec:
  "map_option fst (sys_exec sys_atomic tr_env [LMessage tr_moment ''n-1'' tr_message, LWork tr_moment 0] (tr_held d q)) = Some []"
  "tr_waiting (tr_after [LMessage tr_moment ''n-1'' tr_message, LWork tr_moment 0] (tr_held d q))"
  by code_simp+

lemma tr_early_exec:
  "\<exists>shown s. sys_exec sys_atomic tr_env (tr_beat tr_package [] @ tr_early) ex_system = Some (shown, s) \<and> tr_waiting s"
proof -
  obtain d q where f: "sys_exec sys_atomic tr_env (tr_beat tr_package []) ex_system =
      Some ([Emitted (SendUdp [1] ex_src)], tr_idle d q)" using tr_first_beat by blast
  have g: "sys_exec sys_atomic tr_env [LGate 0] (tr_received d q) = Some ([], tr_held d q)"
    by (simp add: sys_atomic_def tr_gate_holds)
  have "tr_early = [LDatagram ex_packet ex_src] @ [LGate 0] @ [LMessage tr_moment ''n-1'' tr_message, LWork tr_moment 0]"
    by (simp add: tr_early_def)
  with sys_exec_append [OF f sys_exec_append [OF tr_after_exec [OF tr_received_exec(1), folded tr_received_def]
        sys_exec_append [OF g tr_after_exec [OF tr_waiting_exec(1)]]]] tr_waiting_exec(2)
  show ?thesis by auto
qed

lemma ex_request_dialled: "request_dialled ex_request = Some ex_dialled"
  by code_simp

lemma first_packet_gets_through_witness:
  "\<exists>shown s q s'. sys_exec sys_atomic tr_env (tr_beat tr_package [] @ tr_early) ex_system = Some (shown, s) \<and>
     sys_exec any_step tr_env [LWork tr_moment 0, LWork tr_moment 0, LRecovered, LGate 0] s = Some ([Emitted (WriteTun q)], s') \<and>
     parse_destination_ipv4 q = Some (Ipv4 10 0 0 5) \<and> parse_destination_port q = Some 443"
proof -
  obtain shown s where e: "sys_exec sys_atomic tr_env (tr_beat tr_package [] @ tr_early) ex_system = Some (shown, s)"
    and w: "tr_waiting s" using tr_early_exec by blast
  note w = w [unfolded tr_waiting_def]
  have r: "fa_gateway_id ex_request = ''g-1''" "fa_node_id ex_request = ''n-1''" "fa_port ex_request = 40100"
    by (simp_all add: ex_request_def)
  have m: "mo_reclaim tr_moment = 0" by (simp add: tr_moment_def)
  have spare: "spare_ports (co_table (sy_con s))" using w by (simp add: spare_ports_def)
  have dst: "tl_dst_address (hs_tunn (se_host tr_env)) ex_packet \<noteq> Some (V4 (Ipv4 100 127 0 1))"
    using tr_not_for_us by (simp add: tr_dst)
  have rule: "resolve_rule (case current_rules (fa_gateway_id ex_request) (co_table (sy_con s)) of Some c \<Rightarrow> c | None \<Rightarrow> bundle_rules ex_bundle)
      (Some (dl_transport ex_dialled)) 443 (co_cache (sy_con s)) = Inr (Ipv4 10 0 0 5, 443)"
    using w r ex_bundle_resolves by (simp add: ex_dialled_def)
  have live: "\<not> was_recently_released (fa_flow_id ex_request) (mo_now tr_moment) (co_table (sy_con s))"
    using w by (simp add: was_recently_released_def)
  have held: "hm_get (ft_pending (co_table (sy_con s))) (flow_key_new (wk_node (sy_work s ! 0)) (fa_port ex_request) (Some ex_dialled)) =
      Some (ex_packet, 0)" "duration_since (mo_reclaim tr_moment) 0 \<le> PENDING_PACKET_TTL"
    using w r m by (simp_all add: duration_since_def)
  have task: "0 < length (sy_work s)" "wk_work (sy_work s ! 0) = RecordFlow ex_request ''dev-1'' (bundle_rules ex_bundle)"
    "fa_node_id ex_request = wk_node (sy_work s ! 0)" using w r by simp_all
  have idle: "sy_vip s = Some (Ipv4 100 127 0 1)" "sy_gate s = None" "sy_recovered s = []" using w by simp_all
  from first_packet_gets_through [OF sys_run_exec [OF e [unfolded ex_system_def]] idle task ex_request_dialled live held _
      ex_packet_fields(2,3) dst rule spare, of 0] e r ex_packet_fields(1) show ?thesis by auto
qed

section \<open>The same runs, no step restrained\<close>

text \<open>A guard only restricts.\<close>

lemma sys_exec_any: "sys_exec guard env ls s = Some r \<Longrightarrow> sys_exec any_step env ls s = Some r"
  by (induction ls arbitrary: s r) (auto split: if_splits outcome.splits)

lemma sys_exec_split:
  "sys_exec guard env (ls @ ls') s = Some (shown, s2) \<Longrightarrow>
     \<exists>shown1 s1 shown2. sys_exec guard env ls s = Some (shown1, s1) \<and> sys_exec guard env ls' s1 = Some (shown2, s2) \<and>
       shown = shown1 @ shown2"
  by (induction ls arbitrary: s shown) (fastforce split: if_splits outcome.splits)+

lemma written_packets_were_earned_witness:
  "\<exists>shown s q s' request (flow :: admitted_flow). sys_exec any_step tr_env tr_run ex_system = Some (shown, s) \<and>
     sys_step tr_env (LGate 0) s = Went [Emitted (WriteTun q)] s' \<and> af_flow_id flow = fa_flow_id request \<and>
     proved_before any_step tr_env ex_system s request (af_device_public_key flow) \<and>
     parse_source_ipv4 q = parse_source_ipv4 ex_packet"
proof -
  obtain s where s: "sys_exec sys_atomic tr_env tr_run ex_system =
      Some ([Emitted (SendUdp [1] ex_src), Decrypted ''n-1'' ex_packet], s)" "tr_arrived s"
    using tr_run_exec by blast
  have e: "sys_exec any_step tr_env tr_run ex_system = Some ([Emitted (SendUdp [1] ex_src), Decrypted ''n-1'' ex_packet], s)"
    by (rule sys_exec_any [OF s(1)])
  obtain q s' where g: "sys_step tr_env (LGate 0) s = Went [Emitted (WriteTun q)] s'"
    using tr_written [OF s(2)] by metis
  have vip: "sy_vip s = Some (Ipv4 100 127 0 1)" using s(2) by (simp add: tr_arrived_def)
  have "tl_dst_address (hs_tunn (se_host tr_env)) ex_packet \<noteq> Some (V4 (Ipv4 100 127 0 1))"
    using tr_not_for_us by (simp add: tr_dst)
  then obtain request and flow :: admitted_flow where "asks_for request (flow_key_new (fa_node_id request) (fa_port request)
      (request_dialled request)) flow" "proved_before any_step tr_env ex_system s request (af_device_public_key flow)"
    "parse_source_ipv4 q = parse_source_ipv4 ex_packet"
    using written_packets_were_earned [OF sys_run_exec [OF e [unfolded ex_system_def]] g] vip
    by (auto simp: asks_for_def ex_system_def)
  with e g show ?thesis unfolding asks_for_def by blast
qed

lemma tr_first_any:
  obtains shown d q where "sys_exec any_step tr_env (tr_beat tr_package []) ex_system = Some (shown, tr_idle d q)"
  using tr_first_beat sys_exec_any by blast

lemma daemon_serves_the_policy_in_force_witness:
  "\<exists>shown s. sys_exec any_step tr_env (tr_beat tr_package []) ex_system = Some (shown, s) \<and> sy_beat s = BeatIdle \<and>
     current_rules ''g-1'' (co_table (sy_con s)) = rules_of (ps_policy_bundles (policy_of (co_store (sy_con s)))) ''g-1''"
proof -
  obtain shown d q where e: "sys_exec any_step tr_env (tr_beat tr_package []) ex_system = Some (shown, tr_idle d q)"
    by (rule tr_first_any)
  from daemon_serves_the_policy_in_force [OF sys_run_exec [OF e [unfolded ex_system_def]] tr_idle_exec(2), of "''n-1''" "''g-1''" "''h''"]
  show ?thesis using e tr_idle_exec(2) unfolding Let_def by blast
qed

text \<open>From the moment the first package is applied.\<close>

lemma applied_package_gets_in_force_witness:
  "\<exists>shown s response further s'. sys_exec any_step tr_env [LExchange (tr_net tr_package) ex_clock, LApplyPackage ex_clock] ex_system =
       Some (shown, s) \<and>
     sys_exec any_step tr_env ([LSync, LEvict, LPollSync] @ tr_finish) s = Some (further, s') \<and>
     co_store (sy_con s') = Some (carried response) \<and> polled_by (carried response) (sy_con s')"
proof -
  obtain shown d q where "sys_exec any_step tr_env (tr_beat tr_package []) ex_system = Some (shown, tr_idle d q)"
    by (rule tr_first_any)
  then have "sys_exec any_step tr_env ([LExchange (tr_net tr_package) ex_clock, LApplyPackage ex_clock] @
      ([LSync, LEvict, LPollSync] @ tr_finish)) ex_system = Some (shown, tr_idle d q)"
    by (simp only: tr_beat_def tr_dial_def append.simps)
  from sys_exec_split [OF this] obtain shown1 s further where
    e: "sys_exec any_step tr_env [LExchange (tr_net tr_package) ex_clock, LApplyPackage ex_clock] ex_system = Some (shown1, s)"
      "sys_exec any_step tr_env ([LSync, LEvict, LPollSync] @ tr_finish) s = Some (further, tr_idle d q)" by blast
  obtain obs s2 where "sys_step tr_env LSync s = Went obs s2" using e(2) by (auto split: outcome.splits)
  then obtain old_bundles response where b: "sy_beat s = BeatApplied old_bundles response"
    by (cases "sy_beat s") (simp_all add: do_sync_def)
  then have p: "progress (sy_beat s) = Some (response, 0)" by simp
  have n: "length (filter is_beat ([LSync, LEvict, LPollSync] @ tr_finish)) = steps_left (sy_beat s)"
    using b by (simp add: tr_finish_def is_beat_def)
  from applied_package_gets_in_force [OF sys_run_exec [OF e(1) [unfolded ex_system_def]] p] e(2) n
  have "co_store (sy_con (tr_idle d q)) = Some (carried response)" "polled_by (carried response) (sy_con (tr_idle d q))"
    by blast+
  with e show ?thesis by blast
qed

end
