(* ===== verification/Spec2Isabelle.thy ===== *)
theory Spec2Isabelle
  imports Command_Line System_Runs
begin

text \<open>
  A verification library for the Private Gateway Connector (\<open>src/src/*.rs\<close>).

  The program. The Connector runs inside a customer's network. It heartbeats to an Agent and takes the
  signed policy package of the answer; it dials the VPN nodes of the package over WireGuard; over those
  tunnels it polls every node for admission requests, decides each against the policy in force, and
  forwards the packets of admitted flows, rewritten, to internal hosts and their replies back. The
  shared state is the policy store, the audit log, the flow table, the tunnel manager, the DNS cache, the
  pollers, the Agent directory and the queue of gateway-end reports, each behind its own lock.

  How the theories stand to the code. Every definition carries the name of the function or type it
  translates (a suffix or prefix where HOL has the name); records are the structs, datatypes the enums,
  \<open>w word\<close>s the machine integers, sums the \<open>Result\<close>s, and an option around a result is a panic that the
  theorems then exclude. What a function changes through a reference it returns. Clocks, random bytes
  and the outcomes of disk and network calls are arguments.

    \<^item> \<open>Prelude\<close>: machine integers, \<open>HashMap\<close> as an association list with distinct keys, and the
      interfaces \<open>keyed_store\<close>, \<open>invariant_machine\<close> and \<open>implementing_machine\<close>.
    \<^item> \<open>Std_Lib\<close>: the standard library's addresses, number and address parsers, trimming, durations.
    \<^item> \<open>Dto\<close>: the messages of \<open>dto.rs\<close> and how a rule is read.
    \<^item> \<open>Dns_Cache\<close>: \<open>dns_cache.rs\<close>; its fallback on a failing resolver.
    \<^item> \<open>Flow_Table\<close>: \<open>flow_table.rs\<close>, one definition per method. \<open>Source_Ports\<close>, \<open>Flow_Table_Inv\<close>,
      \<open>Flow_Table_Ops\<close>, \<open>Flow_Forward\<close>: the port search, the invariant \<open>ft_inv\<close> and that every
      operation keeps it. \<open>Flow_Machine\<close>: the operations as events, the abstract admission table (flows and
      rules as finite maps, no index, allocation or bound) and the simulation. \<open>Port_Registry\<close>: the two
      bounded port tables as one interface. \<open>Flow_Table_Props\<close>: what the table promises.
    \<^item> \<open>Packet\<close>, \<open>Packet_Props\<close>: the parsers and the in-place rewrites of \<open>tunnel.rs\<close>: no index out of
      range, fields read back, checksums stay right, a packet that cannot be rewritten stays as it is.
    \<^item> \<open>Tunnel_Manager\<close>: \<open>NodeTunnel\<close> and \<open>TunnelManager\<close> of \<open>tunnel.rs\<close>.
    \<^item> \<open>Access_Control\<close>: \<open>crypto.rs\<close>, \<open>audit.rs\<close>, \<open>policy.rs\<close> and \<open>access.rs\<close>.
    \<^item> \<open>Flow_Control\<close>: the handlers of \<open>flow_control.rs\<close>.
    \<^item> \<open>Gateway_End\<close>: the report queue of \<open>gateway_end.rs\<close> and its file.
    \<^item> \<open>Forwarding\<close>, \<open>Data_Plane\<close>: what \<open>main.rs\<close> does with one packet, and one turn of each of its loops.
    \<^item> \<open>Heartbeat_Client\<close>, \<open>Agent_Directory\<close>: \<open>heartbeat.rs\<close>, \<open>registry_client.rs\<close>,
      \<open>agent_directory.rs\<close>: which Agent is asked, which answer trusted.
    \<^item> \<open>Reconcile\<close>: what a new package ends and changes (\<open>main.rs\<close>).
    \<^item> \<open>Admission_Poller\<close>: \<open>admission_poller.rs\<close>, the set of pollers, a turn of one, its handlers.
    \<^item> \<open>Control_Plane\<close>, \<open>Control_Entitlement\<close>: the concurrent runs of admissions, releases, heartbeats
      and packet operations. \<open>Authorised_Traffic\<close>: what they mean for a forwarded packet.
    \<^item> \<open>Connector\<close>: the daemon's whole state, \<open>run_heartbeat\<close> and the two loops around it.
    \<^item> \<open>System\<close>: the daemon as one machine, heartbeat, pollers, admissions and packet loops cut where the
      code lets go of a lock or awaits. \<open>System_Control\<close>: it refines the control plane.
      \<open>System_Pollers\<close>: the admissions in flight. \<open>System_Serving\<close>: what is served of the package in force,
      stage by stage of a heartbeat. \<open>System_Traffic\<close>: from the decrypted packet to
      the TUN device, \<open>System_Replies\<close>: from there back to a tunnel. \<open>System_Earned\<close>: the proof of possession
      every flow rests on. \<open>System_Rescue\<close>: the way of a flow's first packet. \<open>System_Runs\<close>: concrete runs.
    \<^item> \<open>Identity\<close>, \<open>Host_Setup\<close>, \<open>Command_Line\<close>: \<open>identity.rs\<close>; \<open>config.rs\<close>, \<open>ca_trust.rs\<close>,
      \<open>tun_device.rs\<close>; the process, its modes and exit codes.

  What is proved, from the parts up.

    \<^item> State: each component has an invariant (\<open>ft_inv\<close>, \<open>tm_inv\<close>, \<open>dns_inv\<close>, \<open>store_ok\<close>, \<open>pollers_ok\<close>,
      \<open>dir_ok\<close>), every operation keeps it, and a fresh state has it; \<open>connector_ok\<close> joins them and
      survives every heartbeat and every step of the daemon, none of which panics, whatever arrives.
    \<^item> Contracts: the flow table refines the admission table; the decision to forward is the abstract one,
      want of a source port excepted; the queue file follows the list of reports while the disk works, so restarts lose none;
      the daemon refines the control plane, so what holds of every run of that holds of it.
    \<^item> Admission: a flow is admitted exactly on proof of possession of a key the applied policy entitles;
      every request is answered, in at most four steps, from every state of the daemon, and a poller has at
      most sixteen in flight; a release that overtakes its own admission wins.
    \<^item> Traffic: only admitted flows are forwarded; a reply goes to the flow that owns the allocation it
      answers, or nowhere; a packet out and its answer back through tunnel, rewrites and table is a round trip.
      For the whole daemon, \<open>written_packets_are_authorised\<close>: what reaches the TUN device between heartbeats
      was decrypted from a node and is for the Connector or of a flow the policy in force lets through,
      and \<open>sent_replies_are_authorised\<close>: what goes back answers such a flow, into its own node's tunnel.
      Both ask that no package is applied between an admission's decision and its recording;
      \<open>written_packets_were_earned\<close> asks nothing: in every interleaving, at every moment, a packet written is of a
      flow that an earlier step decided on a proof of possession of a key then entitled.
      Conversely \<open>first_packet_gets_through\<close>: a packet held while its admission is decided is written.
    \<^item> Policy: a heartbeat that succeeds leaves its package in force in every component, one that fails changes
      none of them; flows carry the rules in force at every idle point of every concurrent run. With all the
      tasks interleaved, \<open>applied_package_gets_in_force\<close>: a package once applied gets there, after at most six
      more steps of its heartbeat, and \<open>daemon_serves_the_policy_in_force\<close>: between heartbeats tunnels, pollers,
      admissions (those of aborted pollers aside), rules and cached addresses are those of the policy in force.
    \<^item> Entitlement: if no package is applied between an admission's decision and its recording, every flow
      belongs to a device the policy in force entitles. Without that condition it does not hold:
      \<open>stale_admission_survives\<close> is the run, with an admission decided before and recorded after the
      heartbeat that drops its device, whose flow then keeps forwarding. \<open>admission_overtakes_departure\<close> is
      another: a departed node's flow, recorded after its eviction and before its poller is stopped.
    \<^item> Host: the printed key is the daemon's; exit code 0 of the deregistration means a signed confirmation
      for that key; the configuration never yields a zero interval.

  Concurrency. The steps of \<open>System\<close> are the blocks the code runs under one lock, or between two awaits that
  others can be scheduled in: a heartbeat is eight (exchange, apply, tunnels, evictions, pollers, dropped
  entitlements, rules, DNS), an admission four (decision, recording, reclaiming its packet, the
  result), a received packet two (tunnel, gate); a release, a packet of the TUN device and a tick are one.
  They come in any order. \<open>JoinHandle::abort\<close> only asks for a task's end: an aborted poller
  moves to \<open>sy_stopping\<close>, where it may still connect and hand on a message, until the runtime
  drops it (\<open>LDropPoller\<close>) and, after it, each of its admissions (\<open>LDropWork\<close>), at
  any later step or never. A packet is shown by the step that decides on it under the flow table's lock; the
  write its loop then awaits, before it takes up another packet, and the instant it reaches the device are
  not steps of their own. The audit log's writes, a disk write each, are counted to the step that makes
  them. \<open>heartbeat_is_its_steps\<close> and \<open>admission_is_its_steps\<close> show that the
  pieces, uninterrupted, are the functions \<open>Connector\<close> and \<open>Admission_Poller\<close>
  translate whole. \<open>Control_Plane\<close> keeps of these steps those that read or change the policy
  and the flow table; the safety theorems are proved there and carried over by the refinement.
  \<open>Data_Plane\<close> runs each loop one turn at a time.

  Bounds and termination. The only counted loop is the search for a source port: its fuel is the width of the
  port range, \<open>Source_Ports\<close> shows the candidates to be exactly the range, so a refusal means that no
  port is free. The daemon's endless loops are given as one turn, with theorems over any list of
  turns; the start-up loop is recursion over its attempts. \<open>run_work\<close> gives an admission four pieces and
  a DNS admission two, which is what they take. All other recursions are structural or have
  a measure. Integers are words wherever the code's width can matter: the checksums, ports, failure counts,
  the node index and the millisecond clocks.

  Parameters. Third-party code is an argument, with what the code relies on as a hypothesis where a theorem
  needs it: boringtun's sessions, base64, hex, SHA-256, Ed25519 and ECDSA, X25519, chrono's time-stamp
  parser, serde's decoders, reqwest and hyper's exchanges, the resolver, the PEM parser.

  Not modelled: log lines, except where \<open>Connector\<close>, \<open>Host_Setup\<close> and \<open>Agent_Directory\<close> return what is reported;
  the sockets, the TUN device's creation, reads and writes and running the \<open>ip\<close> command; spawning tasks and the
  sleeps and back-offs between turns; \<open>log_native_root_certificate_count\<close>, which logs a number and
  decides nothing; the JSON form of the audit file and its time stamps; panics of a poisoned lock; test
  helpers and tests. These are calls of third-party code or have no value the program acts on.
\<close>

end
